(* ===== verification/Prelude.thy ===== *)
theory Prelude
  imports Main "HOL-Library.Word" "HOL-Library.AList"
begin

section \<open>Shared vocabulary: bytes, C strings, little-endian numbers, memory regions\<close>

text \<open>
  This theory holds what every component uses and none of them owns: bytes (the type
  \<open>char\<close>, eight bits), C strings inside fixed arrays, the little-endian encoding of
  the machine integers that are members of structs, and reads and writes of a region of a
  memory image. It also declares the collections of simplification rules:
  \<open>cmem\<close> for memory images, \<open>posix\<close> for system calls in a world without injected
  faults, \<open>frame\<close> for what an operation leaves unchanged.
\<close>

named_theorems cmem "reads and writes of struct members in a memory image"
named_theorems posix "results of system calls when no fault is injected"
named_theorems frame "components of the world an operation leaves unchanged"

subsection \<open>Abbreviations\<close>

type_synonym byte = char
type_synonym bytes = "char list"
type_synonym u8 = "8 word"
type_synonym u16 = "16 word"
type_synonym u32 = "32 word"

abbreviation NUL :: char where
  "NUL \<equiv> CHR 0x00"

abbreviation LF :: char where
  "LF \<equiv> CHR 0x0A"

subsection \<open>Regions of a memory image\<close>

definition get_at :: "nat \<Rightarrow> nat \<Rightarrow> 'a list \<Rightarrow> 'a list" where
  "get_at off n m = take n (drop off m)"

definition put_at :: "nat \<Rightarrow> 'a list \<Rightarrow> 'a list \<Rightarrow> 'a list" where
  "put_at off bs m = take off m @ bs @ drop (off + length bs) m"

lemma length_put_at [simp]:
  "off + length bs \<le> length m \<Longrightarrow> length (put_at off bs m) = length m"
  by (simp add: put_at_def)

lemma get_put_same:
  assumes "off + length bs \<le> length m" and "n = length bs"
  shows "get_at off n (put_at off bs m) = bs"
  using assms by (simp add: get_at_def put_at_def)

lemma get_put_prefix:
  assumes "off + length bs \<le> length m" and "length bs \<le> n"
  shows "get_at off n (put_at off bs m) = bs @ get_at (off + length bs) (n - length bs) m"
  using assms by (simp add: get_at_def put_at_def)

lemma get_put_before:
  assumes "off' + n \<le> off" and "off \<le> length m"
  shows "get_at off' n (put_at off bs m) = get_at off' n m"
  using assms by (simp add: get_at_def put_at_def take_drop min_def)

lemma get_put_after:
  assumes "off + length bs \<le> off'" and "off + length bs \<le> length m"
  shows "get_at off' n (put_at off bs m) = get_at off' n m"
proof -
  have "drop off' (put_at off bs m) = drop (off' - (off + length bs)) (drop (off + length bs) m)"
    using assms by (simp add: put_at_def)
  then show ?thesis
    using assms by (simp add: get_at_def)
qed

lemma get_put_other:
  assumes "off' + n \<le> off \<or> off + length bs \<le> off'" and "off + length bs \<le> length m"
  shows "get_at off' n (put_at off bs m) = get_at off' n m"
  using assms get_put_before [of off' n off m bs] get_put_after [of off bs off' m n] by auto

lemma put_at_all: "length bs = length m \<Longrightarrow> put_at 0 bs m = bs"
  by (simp add: put_at_def)

lemma put_at_Suc:
  "c < length buf \<Longrightarrow> put_at (Suc c) bs (buf[c := x]) = put_at c (x # bs) buf"
  by (simp add: put_at_def upd_conv_take_nth_drop add.commute)

lemma put_at_single: "c < length buf \<Longrightarrow> put_at c [x] buf = buf[c := x]"
  by (simp add: put_at_def upd_conv_take_nth_drop)

lemma length_get_at [simp]: "off + n \<le> length m \<Longrightarrow> length (get_at off n m) = n"
  by (simp add: get_at_def)

subsection \<open>C strings\<close>

text \<open>
  \<open>cstr buf\<close> is what \<open>strlen\<close>, \<open>strcmp\<close>, \<open>strcpy\<close> and \<open>printf\<close> see in an array: the
  bytes before the first terminating byte. An array without one is read in C past its end,
  which is undefined; here the string then is the whole array.
\<close>

definition cstr :: "bytes \<Rightarrow> string" where
  "cstr buf = takeWhile (\<lambda>c. c \<noteq> NUL) buf"

text \<open>\<open>strcpy(dst, s)\<close> overwrites \<open>strlen(s) + 1\<close> bytes of the destination.\<close>

definition strcpy_buf :: "string \<Rightarrow> bytes \<Rightarrow> bytes" where
  "strcpy_buf s buf = s @ [NUL] @ drop (length s + 1) buf"

lemma cstr_terminated: "NUL \<notin> set s \<Longrightarrow> cstr (s @ NUL # rest) = s"
  unfolding cstr_def by (subst takeWhile_append2) auto

lemma cstr_no_nul [simp]: "NUL \<notin> set (cstr buf)"
  by (auto simp: cstr_def dest: set_takeWhileD)

lemma cstr_strcpy_buf [simp]: "NUL \<notin> set s \<Longrightarrow> cstr (strcpy_buf s buf) = s"
  by (simp add: strcpy_buf_def cstr_terminated)

lemma cstr_idem: "NUL \<notin> set s \<Longrightarrow> cstr s = s"
  unfolding cstr_def by (rule takeWhile_eq_all_conv [THEN iffD2]) auto

lemma length_strcpy_buf [simp]: "length s < length buf \<Longrightarrow> length (strcpy_buf s buf) = length buf"
  by (simp add: strcpy_buf_def)

subsection \<open>Little-endian numbers\<close>

fun le_bytes :: "nat \<Rightarrow> nat \<Rightarrow> bytes" where
  "le_bytes 0 n = []"
| "le_bytes (Suc k) n = char_of (n mod 256) # le_bytes k (n div 256)"

fun of_le :: "bytes \<Rightarrow> nat" where
  "of_le [] = 0"
| "of_le (c # cs) = of_char c + 256 * of_le cs"

lemma length_le_bytes [simp]: "length (le_bytes k n) = k"
  by (induction k arbitrary: n) auto

lemma of_le_le_bytes [simp]: "of_le (le_bytes k n) = n mod 256 ^ k"
proof (induction k arbitrary: n)
  case 0
  then show ?case by simp
next
  case (Suc k)
  have "256 * (n div 256 mod 256 ^ k) + n mod 256 = n mod (256 * 256 ^ k)"
    by (rule mod_mult2_eq [symmetric])
  then show ?case using Suc by simp
qed

end
