(* ===== verification/CTypes.thy ===== *)
theory CTypes
  imports Prelude
begin

section \<open>Constants and types of util.h and netUtil.h\<close>

text \<open>
  The operation codes, error codes, modes and structs of
  \<open>include/DS-Lab-Assignment/util.h\<close>. A struct that is only read and written member by
  member (\<open>request_t\<close>) is a record of its members, each array the list of its bytes. The
  struct that is written to disk as a whole (\<open>entry_t\<close>) is the list of its 1288 bytes in the
  amd64 layout, with one reader and one writer per member, so that its union, its padding
  and a short read of it mean what they mean in C.
\<close>

subsection \<open>Sizes and codes\<close>

abbreviation (input) TRUE :: int where "TRUE \<equiv> 1"
abbreviation (input) FALSE :: int where "FALSE \<equiv> 0"

definition MAX_STR_SIZE :: nat where "MAX_STR_SIZE = 512"
definition MAX_MSG_SIZE :: nat where "MAX_MSG_SIZE = 256"
definition MSG_ID_MAX_VALUE :: int where "MSG_ID_MAX_VALUE = 4294967295"
definition MSG_ID_MAX_STR_SIZE :: nat where "MSG_ID_MAX_STR_SIZE = 10"

definition REGISTER :: string where "REGISTER = ''REGISTER''"
definition UNREGISTER :: string where "UNREGISTER = ''UNREGISTER''"
definition CONNECT :: string where "CONNECT = ''CONNECT''"
definition DISCONNECT :: string where "DISCONNECT = ''DISCONNECT''"
definition SEND :: string where "SEND = ''SEND''"
definition SEND_MESSAGE :: string where "SEND_MESSAGE = ''SEND_MESSAGE''"
definition SEND_MESS_ACK :: string where "SEND_MESS_ACK = ''SEND_MESS_ACK''"

abbreviation (input) GEN_ERR_ANY :: int where "GEN_ERR_ANY \<equiv> -1"
abbreviation (input) GEN_ERR_INV_ARGS :: int where "GEN_ERR_INV_ARGS \<equiv> -2"

abbreviation (input) SRV_SUCCESS :: "'a::zero" where "SRV_SUCCESS \<equiv> 0"
abbreviation (input) SRV_ERR_REG_USR_ALREADY_REG :: u8 where "SRV_ERR_REG_USR_ALREADY_REG \<equiv> 1"
abbreviation (input) SRV_ERR_REG_ANY :: u8 where "SRV_ERR_REG_ANY \<equiv> 2"
abbreviation (input) SRV_ERR_UNREG_USR_NOT_EXISTS :: u8 where "SRV_ERR_UNREG_USR_NOT_EXISTS \<equiv> 1"
abbreviation (input) SRV_ERR_UNREG_ANY :: u8 where "SRV_ERR_UNREG_ANY \<equiv> 2"
abbreviation (input) SRV_ERR_CN_USR_NOT_EXISTS :: u8 where "SRV_ERR_CN_USR_NOT_EXISTS \<equiv> 1"
abbreviation (input) SRV_ERR_CN_USR_ALREADY_CN :: u8 where "SRV_ERR_CN_USR_ALREADY_CN \<equiv> 2"
abbreviation (input) SRV_ERR_CN_ANY :: u8 where "SRV_ERR_CN_ANY \<equiv> 3"
abbreviation (input) SRV_ERR_DCN_USR_NOT_EXISTS :: u8 where "SRV_ERR_DCN_USR_NOT_EXISTS \<equiv> 1"
abbreviation (input) SRV_ERR_DCN_USR_NOT_CN :: u8 where "SRV_ERR_DCN_USR_NOT_CN \<equiv> 2"
abbreviation (input) SRV_ERR_DCN_ANY :: u8 where "SRV_ERR_DCN_ANY \<equiv> 3"
abbreviation (input) SRV_ERR_SEND_USR_NOT_EXISTS :: u8 where "SRV_ERR_SEND_USR_NOT_EXISTS \<equiv> 1"
abbreviation (input) SRV_ERR_SEND_ANY :: "'a::numeral" where "SRV_ERR_SEND_ANY \<equiv> 2"

abbreviation (input) DBMS_SUCCESS :: int where "DBMS_SUCCESS \<equiv> 100"
abbreviation (input) DBMS_ERR_ANY :: int where "DBMS_ERR_ANY \<equiv> -100"
abbreviation (input) DBMS_ERR_NOT_EXISTS :: int where "DBMS_ERR_NOT_EXISTS \<equiv> -101"
abbreviation (input) DBMS_ERR_EXISTS :: int where "DBMS_ERR_EXISTS \<equiv> -102"

abbreviation (input) STATUS_DCN :: u8 where "STATUS_DCN \<equiv> 0"
abbreviation (input) STATUS_CN :: u8 where "STATUS_CN \<equiv> 1"

abbreviation (input) READ :: char where "READ \<equiv> CHR ''r''"
abbreviation (input) CREATE :: char where "CREATE \<equiv> CHR ''c''"
abbreviation (input) OVERWRITE :: char where "OVERWRITE \<equiv> CHR ''o''"
abbreviation (input) MODIFY :: char where "MODIFY \<equiv> CHR ''m''"
abbreviation (input) DELETE :: char where "DELETE \<equiv> CHR ''d''"

definition DB_DIR :: string where "DB_DIR = ''users''"
definition USERDATA_ENTRY :: string where "USERDATA_ENTRY = ''userdata.entry''"
definition PEND_MSGS_TABLE :: string where "PEND_MSGS_TABLE = ''pend_msgs-table''"

abbreviation (input) ENT_TYPE_UD :: char where "ENT_TYPE_UD \<equiv> CHR ''u''"
abbreviation (input) ENT_TYPE_P_MSG :: char where "ENT_TYPE_P_MSG \<equiv> CHR ''m''"

abbreviation (input) INT_T :: char where "INT_T \<equiv> CHR ''i''"
abbreviation (input) UINT_T :: char where "UINT_T \<equiv> CHR ''u''"
abbreviation (input) FLOAT_T :: char where "FLOAT_T \<equiv> CHR ''f''"

subsection \<open>The error-checking macros\<close>

text \<open>
  Each leaves the function with an error value; the statements that follow the macro are the last
  argument. What they print goes to the standard error output, which is not modelled, and
  \<open>closedir\<close> has no effect on the model's world.
\<close>

abbreviation (input) CHECK_ERROR_WITH_ERRNO :: "bool \<Rightarrow> 'a \<Rightarrow> 'a \<Rightarrow> 'a" where
  "CHECK_ERROR_WITH_ERRNO condition return_error rest \<equiv> (if condition then return_error else rest)"

abbreviation (input) CHECK_FUNC_ERROR :: "int \<Rightarrow> 'a \<Rightarrow> 'a \<Rightarrow> 'a" where
  "CHECK_FUNC_ERROR ret_val return_error rest \<equiv> (if ret_val < 0 then return_error else rest)"

abbreviation (input) CHECK_FUNC_ERROR_WITH_ERRNO :: "int \<Rightarrow> 'a \<Rightarrow> 'a \<Rightarrow> 'a" where
  "CHECK_FUNC_ERROR_WITH_ERRNO ret_val return_error rest \<equiv> (if ret_val < 0 then return_error else rest)"

abbreviation (input) CHECK_RM_ERROR :: "int \<Rightarrow> 'a \<Rightarrow> 'a \<Rightarrow> 'a" where
  "CHECK_RM_ERROR ret_val return_error rest \<equiv> (if ret_val < 0 then return_error else rest)"

abbreviation (input) CHECK_ARGS :: "bool \<Rightarrow> 'a \<Rightarrow> 'a \<Rightarrow> 'a" where
  "CHECK_ARGS condition invalid_args rest \<equiv> (if condition then invalid_args else rest)"

subsection \<open>Requests and replies\<close>

text \<open>\<open>reply_t\<close> has one member, the error code.\<close>

type_synonym reply_t = u8

text \<open>
  \<open>request_t\<close>: the union overlays \<open>username\<close> with \<open>recipient\<close> and \<open>client_port\<close> with
  \<open>message.sender\<close>, arrays of 512 bytes at the same two offsets. A record field stands for
  each overlaid pair, and the second names are abbreviations for the same field.
\<close>

record request_t =
  rq_op_code :: bytes
  rq_username :: bytes
  rq_client_port :: bytes
  rq_message_id :: u32
  rq_message_content :: bytes

abbreviation rq_recipient :: "request_t \<Rightarrow> bytes" where
  "rq_recipient \<equiv> rq_username"

abbreviation rq_message_sender :: "request_t \<Rightarrow> bytes" where
  "rq_message_sender \<equiv> rq_client_port"

subsection \<open>Database entries\<close>

text \<open>
  \<open>entry_t\<close> on amd64: \<open>username\<close> at 0 (512 bytes), \<open>type\<close> at 512, the union at 516. In the
  union, \<open>struct userdata\<close> has \<open>status\<close> at +0, \<open>ip\<close> at +4, \<open>port\<close> at +8, \<open>last_msg_id\<close>
  at +12; \<open>message_t\<close> has \<open>sender\<close> at +0 (512 bytes), \<open>id\<close> at +512, \<open>content\<close> at +516 (256
  bytes). The whole struct has 1288 bytes.
\<close>

type_synonym entry_t = bytes

definition sizeof_entry :: nat where "sizeof_entry = 1288"

definition entry_ok :: "entry_t \<Rightarrow> bool" where
  "entry_ok e \<longleftrightarrow> length e = sizeof_entry"

definition e_username :: "entry_t \<Rightarrow> string" where
  "e_username e = cstr (get_at 0 512 e)"

definition set_e_username :: "string \<Rightarrow> entry_t \<Rightarrow> entry_t" where
  "set_e_username s e = put_at 0 (s @ [NUL]) e"

definition e_type :: "entry_t \<Rightarrow> char" where
  "e_type e = char_of (of_le (get_at 512 1 e))"

definition set_e_type :: "char \<Rightarrow> entry_t \<Rightarrow> entry_t" where
  "set_e_type c e = put_at 512 [c] e"

definition e_status :: "entry_t \<Rightarrow> u8" where
  "e_status e = word_of_nat (of_le (get_at 516 1 e))"

definition set_e_status :: "u8 \<Rightarrow> entry_t \<Rightarrow> entry_t" where
  "set_e_status v e = put_at 516 (le_bytes 1 (unat v)) e"

definition e_ip :: "entry_t \<Rightarrow> u32" where
  "e_ip e = word_of_nat (of_le (get_at 520 4 e))"

definition set_e_ip :: "u32 \<Rightarrow> entry_t \<Rightarrow> entry_t" where
  "set_e_ip v e = put_at 520 (le_bytes 4 (unat v)) e"

definition e_port :: "entry_t \<Rightarrow> u16" where
  "e_port e = word_of_nat (of_le (get_at 524 2 e))"

definition set_e_port :: "u16 \<Rightarrow> entry_t \<Rightarrow> entry_t" where
  "set_e_port v e = put_at 524 (le_bytes 2 (unat v)) e"

definition e_last_msg_id :: "entry_t \<Rightarrow> u32" where
  "e_last_msg_id e = word_of_nat (of_le (get_at 528 4 e))"

definition set_e_last_msg_id :: "u32 \<Rightarrow> entry_t \<Rightarrow> entry_t" where
  "set_e_last_msg_id v e = put_at 528 (le_bytes 4 (unat v)) e"

definition e_msg_sender :: "entry_t \<Rightarrow> string" where
  "e_msg_sender e = cstr (get_at 516 512 e)"

definition set_e_msg_sender :: "string \<Rightarrow> entry_t \<Rightarrow> entry_t" where
  "set_e_msg_sender s e = put_at 516 (s @ [NUL]) e"

definition e_msg_id :: "entry_t \<Rightarrow> u32" where
  "e_msg_id e = word_of_nat (of_le (get_at 1028 4 e))"

definition set_e_msg_id :: "u32 \<Rightarrow> entry_t \<Rightarrow> entry_t" where
  "set_e_msg_id v e = put_at 1028 (le_bytes 4 (unat v)) e"

definition e_msg_content :: "entry_t \<Rightarrow> string" where
  "e_msg_content e = cstr (get_at 1032 256 e)"

definition set_e_msg_content :: "string \<Rightarrow> entry_t \<Rightarrow> entry_t" where
  "set_e_msg_content s e = put_at 1032 (s @ [NUL]) e"

subsection \<open>Members of an entry\<close>

text \<open>
  What a member of a struct promises its users: it reads only its own bytes, a write stays
  inside them and is read back. Two members whose bytes are disjoint then do not disturb each
  other. The union is why disjointness is a premise: \<open>status\<close> and \<open>msg.sender\<close> overlap.
\<close>

definition fits_array :: "nat \<Rightarrow> string \<Rightarrow> bool" where
  "fits_array n s \<longleftrightarrow> NUL \<notin> set s \<and> length s < n"

abbreviation any_value :: "'v \<Rightarrow> bool" where
  "any_value \<equiv> \<lambda>_. True"

locale member =
  fixes off width :: nat
    and get_m :: "entry_t \<Rightarrow> 'v"
    and put_m :: "'v \<Rightarrow> entry_t \<Rightarrow> entry_t"
    and fits :: "'v \<Rightarrow> bool"
  assumes inside: "off + width \<le> sizeof_entry"
    and get_local: "get_at off width e = get_at off width e' \<Longrightarrow> get_m e = get_m e'"
    and put_region: "fits v \<Longrightarrow> \<exists>bs. length bs \<le> width \<and> (\<forall>e. put_m v e = put_at off bs e)"
    and get_put: "entry_ok e \<Longrightarrow> fits v \<Longrightarrow> get_m (put_m v e) = v"
begin

lemma put_ok: "entry_ok e \<Longrightarrow> fits v \<Longrightarrow> entry_ok (put_m v e)"
  using put_region [of v] inside by (auto simp: entry_ok_def)

lemma put_elsewhere:
  assumes "entry_ok e" and "fits v" and "off' + n \<le> off \<or> off + width \<le> off'"
  shows "get_at off' n (put_m v e) = get_at off' n e"
proof -
  from put_region [OF assms(2)] obtain bs where "length bs \<le> width" and "put_m v e = put_at off bs e"
    by blast
  then show ?thesis
    using assms inside get_put_other [of off' n off bs e] by (auto simp: entry_ok_def)
qed

lemma other_get:
  assumes "member off' width' get' put' fits'"
    and "off' + width' \<le> off \<or> off + width \<le> off'" and "entry_ok e" and "fits v"
  shows "get' (put_m v e) = get' e"
  using member.get_local [OF assms(1)] put_elsewhere [OF assms(3,4,2)] by blast

end

lemma string_member:
  assumes "off + width \<le> sizeof_entry"
  shows "member off width (\<lambda>e. cstr (get_at off width e)) (\<lambda>s. put_at off (s @ [NUL]))
    (fits_array width)"
proof
  fix s assume fits: "fits_array width s"
  then show "\<exists>bs. length bs \<le> width \<and> (\<forall>e. put_at off (s @ [NUL]) e = put_at off bs e)"
    by (intro exI [of _ "s @ [NUL]"]) (auto simp: fits_array_def)
  fix e :: entry_t
  assume "entry_ok e"
  then have "get_at off width (put_at off (s @ [NUL]) e) =
      s @ NUL # get_at (off + length s + 1) (width - (length s + 1)) e"
    using fits assms by (subst get_put_prefix) (auto simp: entry_ok_def fits_array_def)
  then show "cstr (get_at off width (put_at off (s @ [NUL]) e)) = s"
    using fits by (simp add: cstr_terminated fits_array_def)
qed (use assms in auto)

lemma scalar_member:
  assumes "off + width \<le> sizeof_entry" and "LENGTH('w::len) = 8 * width"
  shows "member off width (\<lambda>e. word_of_nat (of_le (get_at off width e)) :: 'w word)
    (\<lambda>v. put_at off (le_bytes width (unat v))) any_value"
proof
  fix v :: "'w word"
  show "\<exists>bs. length bs \<le> width \<and> (\<forall>e. put_at off (le_bytes width (unat v)) e = put_at off bs e)"
    by (intro exI [of _ "le_bytes width (unat v)"]) simp
  have "(256::nat) ^ width = 2 ^ LENGTH('w)"
    by (simp add: assms(2) power_mult)
  then have "unat v mod 256 ^ width = unat v"
    by simp
  moreover fix e :: entry_t
  assume "entry_ok e"
  ultimately show "word_of_nat (of_le (get_at off width (put_at off (le_bytes width (unat v)) e))) = v"
    using assms(1) by (simp add: entry_ok_def get_put_same)
qed (use assms in auto)

interpretation mb_username: member 0 512 e_username set_e_username "fits_array 512"
  using string_member [of 0 512] by (simp add: e_username_def [abs_def] set_e_username_def [abs_def] sizeof_entry_def)

interpretation mb_type: member 512 1 e_type set_e_type any_value
  by unfold_locales
    (auto simp: e_type_def set_e_type_def sizeof_entry_def entry_ok_def get_put_same
      intro!: exI [of _ "[_]"])

interpretation mb_status: member 516 1 e_status set_e_status any_value
  using scalar_member [where 'w = 8, of 516 1]
  by (simp add: e_status_def [abs_def] set_e_status_def [abs_def] sizeof_entry_def)

interpretation mb_ip: member 520 4 e_ip set_e_ip any_value
  using scalar_member [where 'w = 32, of 520 4]
  by (simp add: e_ip_def [abs_def] set_e_ip_def [abs_def] sizeof_entry_def)

interpretation mb_port: member 524 2 e_port set_e_port any_value
  using scalar_member [where 'w = 16, of 524 2]
  by (simp add: e_port_def [abs_def] set_e_port_def [abs_def] sizeof_entry_def)

interpretation mb_last: member 528 4 e_last_msg_id set_e_last_msg_id any_value
  using scalar_member [where 'w = 32, of 528 4]
  by (simp add: e_last_msg_id_def [abs_def] set_e_last_msg_id_def [abs_def] sizeof_entry_def)

interpretation mb_sender: member 516 512 e_msg_sender set_e_msg_sender "fits_array 512"
  using string_member [of 516 512]
  by (simp add: e_msg_sender_def [abs_def] set_e_msg_sender_def [abs_def] sizeof_entry_def)

interpretation mb_msg_id: member 1028 4 e_msg_id set_e_msg_id any_value
  using scalar_member [where 'w = 32, of 1028 4]
  by (simp add: e_msg_id_def [abs_def] set_e_msg_id_def [abs_def] sizeof_entry_def)

interpretation mb_content: member 1032 256 e_msg_content set_e_msg_content "fits_array 256"
  using string_member [of 1032 256]
  by (simp add: e_msg_content_def [abs_def] set_e_msg_content_def [abs_def] sizeof_entry_def)

lemmas entry_put_ok [cmem] =
  mb_username.put_ok mb_type.put_ok mb_status.put_ok mb_ip.put_ok mb_port.put_ok
  mb_last.put_ok mb_sender.put_ok mb_msg_id.put_ok mb_content.put_ok

lemmas entry_get_put [cmem] =
  mb_username.get_put mb_type.get_put mb_status.get_put mb_ip.get_put mb_port.get_put
  mb_last.get_put mb_sender.get_put mb_msg_id.get_put mb_content.get_put

text \<open>The members every entry has, and the two views of the union, do not disturb each other.\<close>

lemma entry_username_frame [cmem]:
  assumes "entry_ok e"
  shows "e_username (set_e_type t e) = e_username e"
    and "e_username (set_e_status st e) = e_username e"
    and "e_username (set_e_ip i e) = e_username e"
    and "e_username (set_e_port p e) = e_username e"
    and "e_username (set_e_last_msg_id n e) = e_username e"
    and "e_username (set_e_msg_id n e) = e_username e"
    and "fits_array 512 s \<Longrightarrow> e_username (set_e_msg_sender s e) = e_username e"
    and "fits_array 256 s \<Longrightarrow> e_username (set_e_msg_content s e) = e_username e"
  using assms
  by (simp_all add: mb_type.other_get [OF mb_username.member_axioms]
      mb_status.other_get [OF mb_username.member_axioms] mb_ip.other_get [OF mb_username.member_axioms]
      mb_port.other_get [OF mb_username.member_axioms] mb_last.other_get [OF mb_username.member_axioms]
      mb_msg_id.other_get [OF mb_username.member_axioms] mb_sender.other_get [OF mb_username.member_axioms]
      mb_content.other_get [OF mb_username.member_axioms])

lemma entry_type_frame [cmem]:
  assumes "entry_ok e"
  shows "fits_array 512 s \<Longrightarrow> e_type (set_e_username s e) = e_type e"
    and "e_type (set_e_status st e) = e_type e"
    and "e_type (set_e_ip i e) = e_type e"
    and "e_type (set_e_port p e) = e_type e"
    and "e_type (set_e_last_msg_id n e) = e_type e"
    and "e_type (set_e_msg_id n e) = e_type e"
    and "fits_array 512 s \<Longrightarrow> e_type (set_e_msg_sender s e) = e_type e"
    and "fits_array 256 s \<Longrightarrow> e_type (set_e_msg_content s e) = e_type e"
  using assms
  by (simp_all add: mb_username.other_get [OF mb_type.member_axioms]
      mb_status.other_get [OF mb_type.member_axioms] mb_ip.other_get [OF mb_type.member_axioms]
      mb_port.other_get [OF mb_type.member_axioms] mb_last.other_get [OF mb_type.member_axioms]
      mb_msg_id.other_get [OF mb_type.member_axioms] mb_sender.other_get [OF mb_type.member_axioms]
      mb_content.other_get [OF mb_type.member_axioms])

lemma entry_userdata_frame [cmem]:
  assumes "entry_ok e"
  shows "fits_array 512 s \<Longrightarrow> e_status (set_e_username s e) = e_status e"
    and "fits_array 512 s \<Longrightarrow> e_ip (set_e_username s e) = e_ip e"
    and "fits_array 512 s \<Longrightarrow> e_port (set_e_username s e) = e_port e"
    and "fits_array 512 s \<Longrightarrow> e_last_msg_id (set_e_username s e) = e_last_msg_id e"
    and "e_status (set_e_type t e) = e_status e" and "e_ip (set_e_type t e) = e_ip e"
    and "e_port (set_e_type t e) = e_port e" and "e_last_msg_id (set_e_type t e) = e_last_msg_id e"
    and "e_ip (set_e_status st e) = e_ip e" and "e_port (set_e_status st e) = e_port e"
    and "e_last_msg_id (set_e_status st e) = e_last_msg_id e"
    and "e_status (set_e_ip i e) = e_status e" and "e_port (set_e_ip i e) = e_port e"
    and "e_last_msg_id (set_e_ip i e) = e_last_msg_id e"
    and "e_status (set_e_port p e) = e_status e" and "e_ip (set_e_port p e) = e_ip e"
    and "e_last_msg_id (set_e_port p e) = e_last_msg_id e"
    and "e_status (set_e_last_msg_id n e) = e_status e" and "e_ip (set_e_last_msg_id n e) = e_ip e"
    and "e_port (set_e_last_msg_id n e) = e_port e"
  using assms
  by (simp_all add:
      mb_username.other_get [OF mb_status.member_axioms] mb_username.other_get [OF mb_ip.member_axioms]
      mb_username.other_get [OF mb_port.member_axioms] mb_username.other_get [OF mb_last.member_axioms]
      mb_type.other_get [OF mb_status.member_axioms] mb_type.other_get [OF mb_ip.member_axioms]
      mb_type.other_get [OF mb_port.member_axioms] mb_type.other_get [OF mb_last.member_axioms]
      mb_status.other_get [OF mb_ip.member_axioms] mb_status.other_get [OF mb_port.member_axioms]
      mb_status.other_get [OF mb_last.member_axioms]
      mb_ip.other_get [OF mb_status.member_axioms] mb_ip.other_get [OF mb_port.member_axioms]
      mb_ip.other_get [OF mb_last.member_axioms]
      mb_port.other_get [OF mb_status.member_axioms] mb_port.other_get [OF mb_ip.member_axioms]
      mb_port.other_get [OF mb_last.member_axioms]
      mb_last.other_get [OF mb_status.member_axioms] mb_last.other_get [OF mb_ip.member_axioms]
      mb_last.other_get [OF mb_port.member_axioms])

lemma entry_message_frame [cmem]:
  assumes "entry_ok e"
  shows "fits_array 512 s \<Longrightarrow> e_msg_sender (set_e_username s e) = e_msg_sender e"
    and "fits_array 512 s \<Longrightarrow> e_msg_id (set_e_username s e) = e_msg_id e"
    and "fits_array 512 s \<Longrightarrow> e_msg_content (set_e_username s e) = e_msg_content e"
    and "e_msg_sender (set_e_type t e) = e_msg_sender e" and "e_msg_id (set_e_type t e) = e_msg_id e"
    and "e_msg_content (set_e_type t e) = e_msg_content e"
    and "fits_array 512 s \<Longrightarrow> e_msg_id (set_e_msg_sender s e) = e_msg_id e"
    and "fits_array 512 s \<Longrightarrow> e_msg_content (set_e_msg_sender s e) = e_msg_content e"
    and "e_msg_sender (set_e_msg_id n e) = e_msg_sender e"
    and "e_msg_content (set_e_msg_id n e) = e_msg_content e"
    and "fits_array 256 s \<Longrightarrow> e_msg_sender (set_e_msg_content s e) = e_msg_sender e"
    and "fits_array 256 s \<Longrightarrow> e_msg_id (set_e_msg_content s e) = e_msg_id e"
  using assms
  by (simp_all add:
      mb_username.other_get [OF mb_sender.member_axioms] mb_username.other_get [OF mb_msg_id.member_axioms]
      mb_username.other_get [OF mb_content.member_axioms]
      mb_type.other_get [OF mb_sender.member_axioms] mb_type.other_get [OF mb_msg_id.member_axioms]
      mb_type.other_get [OF mb_content.member_axioms]
      mb_sender.other_get [OF mb_msg_id.member_axioms] mb_sender.other_get [OF mb_content.member_axioms]
      mb_msg_id.other_get [OF mb_sender.member_axioms] mb_msg_id.other_get [OF mb_content.member_axioms]
      mb_content.other_get [OF mb_sender.member_axioms] mb_content.other_get [OF mb_msg_id.member_axioms])

lemma entry_strings [simp]:
  "NUL \<notin> set (e_username e)" "NUL \<notin> set (e_msg_sender e)" "NUL \<notin> set (e_msg_content e)"
  by (simp_all add: e_username_def e_msg_sender_def e_msg_content_def)

end
