(* ===== verification/Posix.thy ===== *)
theory Posix
  imports CTypes
begin

section \<open>The operating system the server runs on\<close>

text \<open>
  What the sources use of POSIX and the C library, as functions on an explicit world: a file
  tree with path resolution, file and socket descriptors, \<open>errno\<close>, the lines printed on the
  standard output, and the clients' listening threads that accept connections. The order in
  which \<open>readdir\<close> returns names is a component of the world, since POSIX leaves it open. A
  list of fates, one consumed by each call, makes a call fail with a given \<open>errno\<close> or
  transfer fewer bytes than asked; when the list is empty every call does its normal work.
  Not modelled: permissions, symbolic links, blocking (a socket's input is what the peer
  sends before it closes), reuse of descriptor numbers, the state of directory streams.
\<close>

subsection \<open>State\<close>

type_synonym path = "string list"

datatype errno = E0 | ENOENT | EINTR | EIO | EBADF | EACCES | EEXIST | ENOTDIR | EISDIR
  | EMFILE | ENOSPC | ERANGE | ENAMETOOLONG | ENOTEMPTY | ECONNRESET | ECONNREFUSED

datatype inode = DirI | FileI bytes

type_synonym files = "(path \<times> inode) list"

datatype fate = Normal | Fail errno | Limit nat

datatype desc = FileD path nat | SockD

type_synonym fd = int

record world =
  w_files :: files
  w_cwd :: path
  w_order :: "string list \<Rightarrow> string list"
  w_fates :: "fate list"
  w_errno :: errno
  w_fds :: "fd \<Rightarrow> desc option"
  w_next :: nat
  w_in :: "fd \<Rightarrow> bytes"
  w_out :: "fd \<Rightarrow> bytes"
  w_dest :: "fd \<Rightarrow> (u32 \<times> u16) option"
  w_peer_ip :: "fd \<Rightarrow> u32"
  w_accepts :: "u32 \<Rightarrow> u16 \<Rightarrow> bool"
  w_log :: "string list"
  w_strtof :: "string \<Rightarrow> u32 \<times> nat \<times> errno"

text \<open>No fault is waiting: the next calls do their normal work.\<close>

abbreviation calm :: "world \<Rightarrow> bool" where
  "calm w \<equiv> w_fates w = []"

subsection \<open>The file tree\<close>

text \<open>
  The tree is kept flat: each existing file or directory under its names from the root. The
  root itself always exists.
\<close>

definition look :: "files \<Rightarrow> path \<Rightarrow> inode option" where
  "look f q = (if q = [] then Some DirI else map_of f q)"

definition set_node :: "path \<Rightarrow> inode \<Rightarrow> files \<Rightarrow> files" where
  "set_node q n f = AList.update q n f"

definition del_node :: "path \<Rightarrow> files \<Rightarrow> files" where
  "del_node q f = AList.delete q f"

definition children :: "files \<Rightarrow> path \<Rightarrow> string list" where
  "children f q = map last (filter (\<lambda>k. k \<noteq> [] \<and> butlast k = q) (map fst f))"

fun split_path :: "string \<Rightarrow> string list" where
  "split_path [] = [[]]"
| "split_path (c # cs) =
     (if c = CHR ''/'' then [] # split_path cs
      else case split_path cs of [] \<Rightarrow> [[c]] | d # ds \<Rightarrow> (c # d) # ds)"

definition NAME_MAX :: nat where "NAME_MAX = 255"

fun walk :: "files \<Rightarrow> path \<Rightarrow> string list \<Rightarrow> errno + path" where
  "walk f cur [] = Inr cur"
| "walk f cur (c # cs) =
     (if look f cur = None then Inl ENOENT
      else if look f cur \<noteq> Some DirI then Inl ENOTDIR
      else if c = [] \<or> c = ''.'' then walk f cur cs
      else if c = ''..'' then walk f (butlast cur) cs
      else if NAME_MAX < length c then Inl ENAMETOOLONG
      else walk f (cur @ [c]) cs)"

definition resolve :: "world \<Rightarrow> string \<Rightarrow> errno + path" where
  "resolve w p = (case p of
      [] \<Rightarrow> Inl ENOENT
    | c # _ \<Rightarrow> walk (w_files w) (if c = CHR ''/'' then [] else w_cwd w) (split_path p))"

lemma look_set_node: "q \<noteq> [] \<Longrightarrow> look (set_node q n f) p = (if p = q then Some n else look f p)"
  by (simp add: look_def set_node_def update_conv')

lemma look_del_node: "q \<noteq> [] \<Longrightarrow> look (del_node q f) p = (if p = q then None else look f p)"
  by (simp add: look_def del_node_def delete_conv')

lemma distinct_set_node: "distinct (map fst f) \<Longrightarrow> distinct (map fst (set_node q n f))"
  by (simp add: set_node_def distinct_update)

lemma distinct_del_node: "distinct (map fst f) \<Longrightarrow> distinct (map fst (del_node q f))"
  by (simp add: del_node_def distinct_delete)

lemma look_Some_iff_key: "q \<noteq> [] \<Longrightarrow> look f q \<noteq> None \<longleftrightarrow> q \<in> set (map fst f)"
  by (simp add: look_def map_of_eq_None_iff)

lemma set_children: "set (children f q) = {n. look f (q @ [n]) \<noteq> None}"
proof -
  have "n \<in> set (children f q) \<longleftrightarrow> q @ [n] \<in> set (map fst f)" for n
  proof
    assume "n \<in> set (children f q)"
    then obtain k where "k \<in> set (map fst f)" "k \<noteq> []" "butlast k = q" "n = last k"
      by (auto simp: children_def)
    then show "q @ [n] \<in> set (map fst f)"
      by (metis append_butlast_last_id)
  next
    assume "q @ [n] \<in> set (map fst f)"
    then have "q @ [n] \<in> set (filter (\<lambda>k. k \<noteq> [] \<and> butlast k = q) (map fst f))"
      by simp
    then have "last (q @ [n]) \<in> set (children f q)"
      unfolding children_def set_map by (rule imageI)
    then show "n \<in> set (children f q)"
      by simp
  qed
  then show ?thesis
    using look_Some_iff_key [of _ f] by blast
qed

lemma distinct_children: "distinct (map fst f) \<Longrightarrow> distinct (children f q)"
proof -
  assume "distinct (map fst f)"
  then have "distinct (filter (\<lambda>k. k \<noteq> [] \<and> butlast k = q) (map fst f))"
    by (rule distinct_filter)
  moreover have "inj_on last (set (filter (\<lambda>k. k \<noteq> [] \<and> butlast k = q) (map fst f)))"
    by (rule inj_onI) (auto, metis append_butlast_last_id)
  ultimately show ?thesis
    unfolding children_def by (simp add: distinct_map)
qed

lemma split_path_simple: "CHR ''/'' \<notin> set a \<Longrightarrow> split_path a = [a]"
  by (induction a) auto

lemma split_path_slash: "CHR ''/'' \<notin> set a \<Longrightarrow> split_path (a @ CHR ''/'' # b) = a # split_path b"
  by (induction a) auto

text \<open>A component that names a child, as opposed to a dot entry, an empty or an overlong one.\<close>

definition plain_name :: "string \<Rightarrow> bool" where
  "plain_name n \<longleftrightarrow> n \<noteq> [] \<and> n \<noteq> ''.'' \<and> n \<noteq> ''..'' \<and> CHR ''/'' \<notin> set n \<and> length n \<le> NAME_MAX"

lemma walk_plain:
  "plain_name c \<Longrightarrow> look f cur = Some DirI \<Longrightarrow> walk f cur (c # cs) = walk f (cur @ [c]) cs"
  by (simp add: plain_name_def)

subsection \<open>System calls on files\<close>

definition next_fate :: "world \<Rightarrow> fate \<times> world" where
  "next_fate w = (case w_fates w of [] \<Rightarrow> (Normal, w) | x # xs \<Rightarrow> (x, w\<lparr>w_fates := xs\<rparr>))"

definition failing :: "'a \<Rightarrow> errno \<Rightarrow> world \<Rightarrow> 'a \<times> world" where
  "failing bad e w = (bad, w\<lparr>w_errno := e\<rparr>)"

definition may_fail :: "'a \<Rightarrow> (world \<Rightarrow> 'a \<times> world) \<Rightarrow> world \<Rightarrow> 'a \<times> world" where
  "may_fail bad run w = (case next_fate w of
      (Fail e, w') \<Rightarrow> failing bad e w'
    | (_, w') \<Rightarrow> run w')"

text \<open>\<open>DIR *\<close>: the names \<open>readdir\<close> returns, the dot entries among them, with \<open>d_type == DT_DIR\<close>.\<close>

type_synonym dir = "(string \<times> bool) list"

definition listing :: "world \<Rightarrow> path \<Rightarrow> dir" where
  "listing w q = map (\<lambda>n. (n, n = ''.'' \<or> n = ''..'' \<or> look (w_files w) (q @ [n]) = Some DirI))
     (w_order w ([''.'', ''..''] @ children (w_files w) q))"

definition sys_opendir :: "string \<Rightarrow> world \<Rightarrow> dir option \<times> world" where
  "sys_opendir p = may_fail None (\<lambda>w. case resolve w p of
      Inl e \<Rightarrow> failing None e w
    | Inr q \<Rightarrow> (case look (w_files w) q of
          None \<Rightarrow> failing None ENOENT w
        | Some (FileI _) \<Rightarrow> failing None ENOTDIR w
        | Some DirI \<Rightarrow> (Some (listing w q), w)))"

definition sys_mkdir :: "string \<Rightarrow> world \<Rightarrow> int \<times> world" where
  "sys_mkdir p = may_fail (-1) (\<lambda>w. case resolve w p of
      Inl e \<Rightarrow> failing (-1) e w
    | Inr q \<Rightarrow> (case look (w_files w) q of
          Some _ \<Rightarrow> failing (-1) EEXIST w
        | None \<Rightarrow> (0, w\<lparr>w_files := set_node q DirI (w_files w)\<rparr>)))"

definition alloc_fd :: "desc \<Rightarrow> world \<Rightarrow> fd \<times> world" where
  "alloc_fd d w = (int (w_next w),
     w\<lparr>w_fds := (w_fds w)(int (w_next w) \<mapsto> d), w_next := Suc (w_next w)\<rparr>)"

datatype open_flags = O_RDONLY | O_WRONLY_CREAT_EXCL | O_WRONLY_TRUNC

definition sys_open :: "string \<Rightarrow> open_flags \<Rightarrow> world \<Rightarrow> fd \<times> world" where
  "sys_open p fl = may_fail (-1) (\<lambda>w. case resolve w p of
      Inl e \<Rightarrow> failing (-1) e w
    | Inr q \<Rightarrow> (case (fl, look (w_files w) q) of
          (O_RDONLY, None) \<Rightarrow> failing (-1) ENOENT w
        | (O_RDONLY, Some _) \<Rightarrow> alloc_fd (FileD q 0) w
        | (O_WRONLY_CREAT_EXCL, Some _) \<Rightarrow> failing (-1) EEXIST w
        | (O_WRONLY_CREAT_EXCL, None) \<Rightarrow>
            alloc_fd (FileD q 0) (w\<lparr>w_files := set_node q (FileI []) (w_files w)\<rparr>)
        | (O_WRONLY_TRUNC, None) \<Rightarrow> failing (-1) ENOENT w
        | (O_WRONLY_TRUNC, Some DirI) \<Rightarrow> failing (-1) EISDIR w
        | (O_WRONLY_TRUNC, Some (FileI _)) \<Rightarrow>
            alloc_fd (FileD q 0) (w\<lparr>w_files := set_node q (FileI []) (w_files w)\<rparr>)))"

definition sys_close :: "fd \<Rightarrow> world \<Rightarrow> int \<times> world" where
  "sys_close d w = (case w_fds w d of
      None \<Rightarrow> failing (-1) EBADF w
    | Some _ \<Rightarrow> (0, w\<lparr>w_fds := (w_fds w)(d := None)\<rparr>))"

text \<open>
  C's \<open>remove\<close>: \<open>unlink\<close>, and \<open>rmdir\<close> when that fails because the path is a directory
  (which leaves \<open>EISDIR\<close> in \<open>errno\<close> although the call succeeds).
\<close>

definition sys_remove :: "string \<Rightarrow> world \<Rightarrow> int \<times> world" where
  "sys_remove p = may_fail (-1) (\<lambda>w. case resolve w p of
      Inl e \<Rightarrow> failing (-1) e w
    | Inr q \<Rightarrow> (case look (w_files w) q of
          None \<Rightarrow> failing (-1) ENOENT w
        | Some (FileI _) \<Rightarrow> (0, w\<lparr>w_files := del_node q (w_files w)\<rparr>)
        | Some DirI \<Rightarrow>
            (if children (w_files w) q \<noteq> [] then failing (-1) ENOTEMPTY w
             else (0, w\<lparr>w_files := del_node q (w_files w), w_errno := EISDIR\<rparr>))))"

subsection \<open>Reading and writing a descriptor\<close>

fun at_most :: "fate \<Rightarrow> nat \<Rightarrow> nat" where
  "at_most (Limit k) n = min n k"
| "at_most _ n = n"

text \<open>
  A \<open>read\<close> that is not at the end of its input returns at least one byte; a \<open>write\<close> may
  return 0.
\<close>

fun at_most1 :: "fate \<Rightarrow> nat \<Rightarrow> nat" where
  "at_most1 (Limit k) n = min n (Suc k)"
| "at_most1 _ n = n"

text \<open>The two calls are a fate followed by a transfer of at most the bytes it allows.\<close>

definition read_now :: "fd \<Rightarrow> nat \<Rightarrow> world \<Rightarrow> (int \<times> bytes) \<times> world" where
  "read_now d k w = (case w_fds w d of
      None \<Rightarrow> failing (-1, []) EBADF w
    | Some SockD \<Rightarrow>
        (let data = take k (w_in w d)
         in ((int (length data), data),
             w\<lparr>w_in := (w_in w)(d := drop (length data) (w_in w d))\<rparr>))
    | Some (FileD q off) \<Rightarrow> (case look (w_files w) q of
          None \<Rightarrow> ((0, []), w)
        | Some DirI \<Rightarrow> failing (-1, []) EISDIR w
        | Some (FileI c) \<Rightarrow>
            (let data = take k (drop off c)
             in ((int (length data), data),
                 w\<lparr>w_fds := (w_fds w)(d \<mapsto> FileD q (off + length data))\<rparr>))))"

definition sys_read :: "fd \<Rightarrow> nat \<Rightarrow> world \<Rightarrow> (int \<times> bytes) \<times> world" where
  "sys_read d n w = (case next_fate w of
      (Fail e, w') \<Rightarrow> failing (-1, []) e w'
    | (ft, w') \<Rightarrow> read_now d (at_most1 ft n) w')"

definition write_now :: "fd \<Rightarrow> bytes \<Rightarrow> world \<Rightarrow> int \<times> world" where
  "write_now d data w = (case w_fds w d of
      None \<Rightarrow> failing (-1) EBADF w
    | Some SockD \<Rightarrow>
        (int (length data), w\<lparr>w_out := (w_out w)(d := w_out w d @ data)\<rparr>)
    | Some (FileD q off) \<Rightarrow> (case look (w_files w) q of
          None \<Rightarrow> (int (length data), w)
        | Some DirI \<Rightarrow> failing (-1) EISDIR w
        | Some (FileI c) \<Rightarrow>
            (int (length data),
             w\<lparr>w_files := set_node q (FileI (put_at off data c)) (w_files w),
               w_fds := (w_fds w)(d \<mapsto> FileD q (off + length data))\<rparr>)))"

definition sys_write :: "fd \<Rightarrow> bytes \<Rightarrow> world \<Rightarrow> int \<times> world" where
  "sys_write d buf w = (case next_fate w of
      (Fail e, w') \<Rightarrow> failing (-1) e w'
    | (ft, w') \<Rightarrow> write_now d (take (at_most ft (length buf)) buf) w')"

subsection \<open>Sockets, output, time-independent library calls\<close>

definition sys_socket :: "world \<Rightarrow> fd \<times> world" where
  "sys_socket = may_fail (-1) (alloc_fd SockD)"

definition sys_connect :: "fd \<Rightarrow> u32 \<Rightarrow> u16 \<Rightarrow> world \<Rightarrow> int \<times> world" where
  "sys_connect d ip port = may_fail (-1) (\<lambda>w.
     if w_accepts w ip port then (0, w\<lparr>w_dest := (w_dest w)(d \<mapsto> (ip, port))\<rparr>)
     else failing (-1) ECONNREFUSED w)"

definition sys_getpeername :: "fd \<Rightarrow> world \<Rightarrow> (int \<times> u32) \<times> world" where
  "sys_getpeername d = may_fail (-1, 0) (\<lambda>w. ((0, w_peer_ip w d), w))"

definition printf :: "string \<Rightarrow> world \<Rightarrow> world" where
  "printf s w = w\<lparr>w_log := w_log w @ [s]\<rparr>"

definition clear_errno :: "world \<Rightarrow> world" where
  "clear_errno w = w\<lparr>w_errno := E0\<rparr>"

subsection \<open>Calls in a calm world\<close>

lemma next_fate_calm [posix]: "calm w \<Longrightarrow> next_fate w = (Normal, w)"
  by (simp add: next_fate_def)

lemma may_fail_calm [posix]: "calm w \<Longrightarrow> may_fail bad run w = run w"
  by (simp add: may_fail_def next_fate_def)

lemma opendir_dir [posix]:
  "calm w \<Longrightarrow> resolve w p = Inr q \<Longrightarrow> look (w_files w) q = Some DirI \<Longrightarrow>
    sys_opendir p w = (Some (listing w q), w)"
  by (simp add: sys_opendir_def may_fail_calm)

lemma opendir_missing [posix]:
  "calm w \<Longrightarrow> resolve w p = Inr q \<Longrightarrow> look (w_files w) q = None \<Longrightarrow>
    sys_opendir p w = (None, w\<lparr>w_errno := ENOENT\<rparr>)"
  by (simp add: sys_opendir_def may_fail_calm failing_def)

lemma opendir_file [posix]:
  "calm w \<Longrightarrow> resolve w p = Inr q \<Longrightarrow> look (w_files w) q = Some (FileI c) \<Longrightarrow>
    sys_opendir p w = (None, w\<lparr>w_errno := ENOTDIR\<rparr>)"
  by (simp add: sys_opendir_def may_fail_calm failing_def)

lemma opendir_unresolved [posix]:
  "calm w \<Longrightarrow> resolve w p = Inl e \<Longrightarrow> sys_opendir p w = (None, w\<lparr>w_errno := e\<rparr>)"
  by (simp add: sys_opendir_def may_fail_calm failing_def)

lemma mkdir_new [posix]:
  "calm w \<Longrightarrow> resolve w p = Inr q \<Longrightarrow> look (w_files w) q = None \<Longrightarrow>
    sys_mkdir p w = (0, w\<lparr>w_files := set_node q DirI (w_files w)\<rparr>)"
  by (simp add: sys_mkdir_def may_fail_calm)

lemma mkdir_unresolved [posix]:
  "calm w \<Longrightarrow> resolve w p = Inl e \<Longrightarrow> sys_mkdir p w = (-1, w\<lparr>w_errno := e\<rparr>)"
  by (simp add: sys_mkdir_def may_fail_calm failing_def)

lemma remove_file [posix]:
  "calm w \<Longrightarrow> resolve w p = Inr q \<Longrightarrow> look (w_files w) q = Some (FileI c) \<Longrightarrow>
    sys_remove p w = (0, w\<lparr>w_files := del_node q (w_files w)\<rparr>)"
  by (simp add: sys_remove_def may_fail_calm)

lemma remove_empty_dir [posix]:
  "calm w \<Longrightarrow> resolve w p = Inr q \<Longrightarrow> look (w_files w) q = Some DirI \<Longrightarrow>
    children (w_files w) q = [] \<Longrightarrow>
    sys_remove p w = (0, w\<lparr>w_files := del_node q (w_files w), w_errno := EISDIR\<rparr>)"
  by (simp add: sys_remove_def may_fail_calm)

text \<open>Updates of other components do not change how a path resolves.\<close>

lemma resolve_cong:
  "w_files w' = w_files w \<Longrightarrow> w_cwd w' = w_cwd w \<Longrightarrow> resolve w' p = resolve w p"
  by (simp add: resolve_def split: list.split)

lemma listing_cong:
  "w_files w' = w_files w \<Longrightarrow> w_order w' = w_order w \<Longrightarrow> listing w' q = listing w q"
  by (simp add: listing_def)

text \<open>A fate is consumed, if there is one, and nothing else changes.\<close>

lemma next_fate_frame:
  assumes "next_fate w = (ft, w1)"
  shows "w_fds w1 = w_fds w" "w_in w1 = w_in w" "w_files w1 = w_files w" "w_out w1 = w_out w"
    "w1 = w\<lparr>w_fates := w_fates w1\<rparr>"
    "length (w_fates w1) \<le> length (w_fates w)"
    "ft \<noteq> Normal \<Longrightarrow> length (w_fates w1) < length (w_fates w)"
    "set (w_fates w1) \<subseteq> set (w_fates w)"
    "ft \<noteq> Normal \<Longrightarrow> ft \<in> set (w_fates w)"
  using assms by (auto simp: next_fate_def split: list.splits)

lemma sys_read_cases:
  assumes "sys_read d n w = ((r, data), w')"
  obtains (failed) e w1 where "next_fate w = (Fail e, w1)" "r = -1" "data = []"
      "w' = w1\<lparr>w_errno := e\<rparr>"
  | (went) ft w1 where "next_fate w = (ft, w1)" "\<And>e. ft \<noteq> Fail e"
      "read_now d (at_most1 ft n) w1 = ((r, data), w')"
proof (cases "next_fate w")
  case (Pair ft w1)
  then show thesis
    using assms failed went by (cases ft) (auto simp: sys_read_def failing_def)
qed

lemma sys_write_cases:
  assumes "sys_write d buf w = (r, w')"
  obtains (failed) e w1 where "next_fate w = (Fail e, w1)" "r = -1" "w' = w1\<lparr>w_errno := e\<rparr>"
  | (went) ft w1 where "next_fate w = (ft, w1)" "\<And>e. ft \<noteq> Fail e"
      "write_now d (take (at_most ft (length buf)) buf) w1 = (r, w')"
proof (cases "next_fate w")
  case (Pair ft w1)
  then show thesis
    using assms failed went by (cases ft) (auto simp: sys_write_def failing_def)
qed

lemma at_most_le [simp]: "at_most ft n \<le> n"
  by (cases ft) auto

lemma at_most1_le [simp]: "at_most1 ft n \<le> n"
  by (cases ft) auto

lemma at_most1_pos: "0 < n \<Longrightarrow> 0 < at_most1 ft n"
  by (cases ft) auto

subsection \<open>Noise: what the fates of a call may change besides its work\<close>

text \<open>
  \<open>noise w w1\<close>: the two worlds differ at most in the fates still to come and in \<open>errno\<close>; a
  calm world does not change at all. \<open>soft\<close> fates interrupt a call or shorten its transfer.
\<close>

definition noise :: "world \<Rightarrow> world \<Rightarrow> bool" where
  "noise w w1 \<longleftrightarrow> w1 = w\<lparr>w_fates := w_fates w1, w_errno := w_errno w1\<rparr> \<and>
     set (w_fates w1) \<subseteq> set (w_fates w) \<and> (calm w \<longrightarrow> w1 = w)"

lemma noise_refl [simp]: "noise w w"
  by (simp add: noise_def)

lemma noise_fields:
  assumes "noise w w1"
  shows "w_files w1 = w_files w" "w_cwd w1 = w_cwd w" "w_fds w1 = w_fds w" "w_in w1 = w_in w"
    "w_out w1 = w_out w" "w_next w1 = w_next w" "w_order w1 = w_order w"
    "set (w_fates w1) \<subseteq> set (w_fates w)"
  using assms by (simp_all add: noise_def) (metis world.ext_inject world.surjective world.update_convs)+

lemma noise_trans: "noise w w1 \<Longrightarrow> noise w1 w2 \<Longrightarrow> noise w w2"
  unfolding noise_def
  by (cases w; cases w1; cases w2) auto

lemma noise_set_in: "noise (w1\<lparr>w_in := f\<rparr>) w4 \<Longrightarrow> noise w1 (w4\<lparr>w_in := w_in w1\<rparr>)"
  unfolding noise_def by (cases w1; cases w4) auto

definition soft :: "fate set" where
  "soft = {ft. \<forall>e. ft = Fail e \<longrightarrow> e = EINTR}"

lemma next_fate_noise: "next_fate w = (ft, w1) \<Longrightarrow> noise w w1"
  by (auto simp: next_fate_def noise_def split: list.splits)

lemma noise_set_out: "noise (w1\<lparr>w_out := f\<rparr>) w4 \<Longrightarrow> noise w1 (w4\<lparr>w_out := w_out w1\<rparr>)"
  unfolding noise_def by (cases w1; cases w4) auto

end
