(* ===== verification/Util.thy ===== *)
theory Util
  imports Posix
begin

section \<open>util.c: numbers from strings, and loops around read and write\<close>

text \<open>
  \<open>src/util.c\<close>: \<open>str_to_num\<close>, \<open>write_bytes\<close>, \<open>read_bytes\<close> and \<open>read_line\<close>, with the parts
  of the C library they rest on (\<open>strtol\<close>, \<open>sprintf\<close> with the unsigned conversion). The loops
  stop because each call consumes a fate, a byte of input or a byte of output.
\<close>

subsection \<open>Decimal numbers\<close>

definition digit_char :: "nat \<Rightarrow> char" where
  "digit_char d = char_of (48 + d)"

definition digit_value :: "char \<Rightarrow> nat" where
  "digit_value c = of_char c - 48"

definition is_digit :: "char \<Rightarrow> bool" where
  "is_digit c \<longleftrightarrow> 48 \<le> (of_char c :: nat) \<and> (of_char c :: nat) \<le> 57"

definition is_space :: "char \<Rightarrow> bool" where
  "is_space c \<longleftrightarrow> c = CHR '' '' \<or> (9 \<le> (of_char c :: nat) \<and> (of_char c :: nat) \<le> 13)"

fun dec_digits :: "nat \<Rightarrow> string" where
  "dec_digits n = (if n < 10 then [digit_char n] else dec_digits (n div 10) @ [digit_char (n mod 10)])"

declare dec_digits.simps [simp del]

text \<open>\<open>sprintf(s, "%u", n)\<close> and \<open>%i\<close>\<close>

definition show_u :: "u32 \<Rightarrow> string" where
  "show_u n = dec_digits (unat n)"

definition show_i :: "u32 \<Rightarrow> string" where
  "show_i n = (if sint n < 0 then CHR ''-'' # dec_digits (nat (- sint n)) else dec_digits (nat (sint n)))"

definition digits_value :: "string \<Rightarrow> nat" where
  "digits_value = foldl (\<lambda>v c. 10 * v + digit_value c) 0"

definition LONG_MAX :: int where "LONG_MAX = 9223372036854775807"
definition LONG_MIN :: int where "LONG_MIN = -9223372036854775808"

text \<open>\<open>strtol(s, &endptr, 10)\<close>: the value, how many bytes were converted, \<open>errno\<close>.\<close>

definition strtol :: "string \<Rightarrow> int \<times> nat \<times> errno" where
  "strtol s =
     (let s1 = dropWhile is_space s;
          neg = (s1 \<noteq> [] \<and> hd s1 = CHR ''-'');
          s2 = (if s1 \<noteq> [] \<and> (hd s1 = CHR ''-'' \<or> hd s1 = CHR ''+'') then tl s1 else s1);
          ds = takeWhile is_digit s2;
          v = (if neg then - int (digits_value ds) else int (digits_value ds))
      in if ds = [] then (0, 0, E0)
         else (let used = length s - length s2 + length ds
               in if LONG_MAX < v then (LONG_MAX, used, ERANGE)
                  else if v < LONG_MIN then (LONG_MIN, used, ERANGE)
                  else (v, used, E0)))"

datatype number = IntNum u32 | UIntNum u32 | FloatNum u32

text \<open>
  \<open>str_to_num\<close>: the number is written through the pointer only when the result is 0. The
  cast of the \<open>long\<close> to a 32-bit type keeps its low 32 bits.
\<close>

definition str_to_num :: "string \<Rightarrow> char \<Rightarrow> world \<Rightarrow> (int \<times> number option) \<times> world" where
  "str_to_num s ty w0 =
     (let w = clear_errno w0
      in CHECK_ARGS (ty \<noteq> INT_T \<and> ty \<noteq> FLOAT_T \<and> ty \<noteq> UINT_T) ((GEN_ERR_INV_ARGS, None), w)
         (CHECK_ARGS (length s = 0) ((GEN_ERR_INV_ARGS, None), w)
           (let (num, used, e) =
              (if ty = INT_T then
                 (case strtol s of (v, used, e) \<Rightarrow> (IntNum (word_of_int v), used, e))
               else if ty = UINT_T then
                 (case strtol s of (v, used, e) \<Rightarrow> (UIntNum (word_of_int v), used, e))
               else
                 (case w_strtof w s of (v, used, e) \<Rightarrow> (FloatNum v, used, e)));
                w' = w\<lparr>w_errno := e\<rparr>
            in if e \<noteq> E0 then ((GEN_ERR_ANY, None), w')
               else if used = 0 then ((GEN_ERR_ANY, None), w')
               else ((0, Some num), w'))))"

subsection \<open>Writing and reading a block\<close>

lemma sys_write_progress:
  assumes "sys_write d buf w = (n, w')" and "0 \<le> n" and "buf \<noteq> []"
  shows "length (drop (nat n) buf) + length (w_fates w') < length buf + length (w_fates w)"
  using assms(1)
proof (cases rule: sys_write_cases)
  case (failed e w1)
  then show ?thesis using assms(2) by simp
next
  case (went ft w1)
  let ?data = "take (at_most ft (length buf)) buf"
  from went assms(2) have "n = int (length ?data)" "w_fates w' = w_fates w1"
    by (auto simp: write_now_def failing_def split: option.splits desc.splits inode.splits)
  then show ?thesis
    using next_fate_frame(6,7) [OF went(1)] assms(3) by (cases ft; cases buf) auto
qed

function write_loop :: "fd \<Rightarrow> bytes \<Rightarrow> int \<Rightarrow> world \<Rightarrow> int \<times> world" where
  "write_loop d buf cnt w =
     (case sys_write d buf w of (n, w') \<Rightarrow>
        (if n < 0 then (GEN_ERR_ANY, w')
         else if drop (nat n) buf \<noteq> [] then write_loop d (drop (nat n) buf) (cnt + n) w'
         else (cnt + n, w')))"
  by pat_completeness auto
termination
proof (relation "measure (\<lambda>(d, buf, cnt, w). length buf + length (w_fates w))", goal_cases)
  case (2 d buf cnt w n w')
  then show ?case
    using sys_write_progress [of d buf w n w'] by (cases "buf = []") auto
qed simp

declare write_loop.simps [simp del]

definition write_bytes :: "fd \<Rightarrow> bytes \<Rightarrow> world \<Rightarrow> int \<times> world" where
  "write_bytes d buf w =
     CHECK_ARGS (length buf = 0) (GEN_ERR_INV_ARGS, w) (write_loop d buf 0 w)"

lemma read_now_shape:
  assumes "read_now d k w = ((r, data), w')"
  shows "length data \<le> k" and "r = int (length data) \<or> (r = -1 \<and> data = [])"
  using assms
  by (auto simp: read_now_def failing_def Let_def split: option.splits desc.splits inode.splits)

lemma sys_read_shape:
  assumes "sys_read d n w = ((r, data), w')"
  shows "length data \<le> n" and "r = int (length data) \<or> (r = -1 \<and> data = [])"
  using assms by (auto elim!: sys_read_cases dest: read_now_shape intro: le_trans)

text \<open>The loop of \<open>read_bytes\<close>: \<open>got\<close> is what it has stored in the buffer so far.\<close>

function read_loop :: "fd \<Rightarrow> nat \<Rightarrow> bytes \<Rightarrow> world \<Rightarrow> (int \<times> bytes) \<times> world" where
  "read_loop d left got w =
     (case sys_read d left w of ((n, data), w') \<Rightarrow>
        (if n < 0 then ((GEN_ERR_ANY, got), w')
         else if 0 < left - nat n \<and> 0 < n then read_loop d (left - nat n) (got @ data) w'
         else ((int (length (got @ data)), got @ data), w')))"
  by pat_completeness auto
termination
  by (relation "measure (\<lambda>(d, left, got, w). left)") auto

declare read_loop.simps [simp del]

definition read_bytes :: "fd \<Rightarrow> nat \<Rightarrow> world \<Rightarrow> (int \<times> bytes) \<times> world" where
  "read_bytes d len w = CHECK_ARGS (len = 0) ((GEN_ERR_INV_ARGS, []), w) (read_loop d len [] w)"

subsection \<open>Reading a line\<close>

text \<open>How much input a descriptor still has: what bounds the loop of \<open>read_line\<close>.\<close>

definition avail :: "world \<Rightarrow> fd \<Rightarrow> nat" where
  "avail w d = (case w_fds w d of
      None \<Rightarrow> 0
    | Some SockD \<Rightarrow> length (w_in w d)
    | Some (FileD q off) \<Rightarrow>
        (case look (w_files w) q of Some (FileI c) \<Rightarrow> length c - off | _ \<Rightarrow> 0))"

lemma avail_cong:
  "w_fds w' = w_fds w \<Longrightarrow> w_in w' = w_in w \<Longrightarrow> w_files w' = w_files w \<Longrightarrow> avail w' d = avail w d"
  by (auto simp: avail_def split: option.splits desc.splits inode.splits)

lemma sys_read_ok:
  assumes "sys_read d n w = ((r, data), w')" and "data \<noteq> []"
  shows "avail w' d + length (w_fates w') < avail w d + length (w_fates w)"
  using assms(1)
proof (cases rule: sys_read_cases)
  case (failed e w1)
  then show ?thesis using assms(2) by simp
next
  case (went ft w1)
  note fr = next_fate_frame [OF went(1)]
  have "avail w1 d = avail w d"
    using fr by (intro avail_cong) auto
  moreover have "avail w' d < avail w1 d \<and> w_fates w' = w_fates w1"
    using went(3) assms(2)
    by (auto simp: read_now_def avail_def failing_def Let_def min_def
        split: option.splits desc.splits inode.splits)
  ultimately show ?thesis using fr by simp
qed

lemma sys_read_interrupted:
  assumes "sys_read d n w = ((- 1, data), w')" and "w_errno w' = EINTR"
  shows "avail w' d + length (w_fates w') < avail w d + length (w_fates w)"
  using assms(1)
proof (cases rule: sys_read_cases)
  case (failed e w1)
  note fr = next_fate_frame [OF failed(1)]
  have "avail w' d = avail w d"
    using fr failed(4) by (intro avail_cong) auto
  then show ?thesis using fr failed by simp
next
  case (went ft w1)
  then show ?thesis
    using assms(2)
    by (auto simp: read_now_def failing_def Let_def split: option.splits desc.splits inode.splits)
qed

function read_line_loop :: "fd \<Rightarrow> int \<Rightarrow> bytes \<Rightarrow> nat \<Rightarrow> world \<Rightarrow> (int \<times> bytes) \<times> world" where
  "read_line_loop d buf_space buf cnt w =
     (case sys_read d 1 w of ((n, data), w') \<Rightarrow>
        (if n = -1 then
           (if w_errno w' = EINTR then read_line_loop d buf_space buf cnt w'
            else ((GEN_ERR_ANY, buf), w'))
         else
           (case data of
              [] \<Rightarrow>
                (if cnt = 0 then ((0, buf), w')
                 else ((int cnt, buf[cnt := NUL]), w'))
            | ch # _ \<Rightarrow>
                (if ch = LF \<or> ch = NUL then ((int cnt, buf[cnt := NUL]), w')
                 else if int cnt < buf_space - 1 then
                   read_line_loop d buf_space (buf[cnt := ch]) (Suc cnt) w'
                 else read_line_loop d buf_space buf cnt w'))))"
  by pat_completeness auto
termination
proof (relation "measure (\<lambda>(d, sp, buf, cnt, w). avail w d + length (w_fates w))", goal_cases)
  case (2 d sp buf cnt w p w' n data)
  then show ?case
    using sys_read_interrupted [of d 1 w data w'] by simp
next
  case (3 d sp buf cnt w p w' n data ch rest)
  then show ?case
    using sys_read_ok [of d 1 w n data w'] by simp
next
  case (4 d sp buf cnt w p w' n data ch rest)
  then show ?case
    using sys_read_ok [of d 1 w n data w'] by simp
qed simp

declare read_line_loop.simps [simp del]

text \<open>
  \<open>read_line\<close> returns the new contents of the buffer it was given. An end of input before
  the first byte returns 0 and leaves the buffer as it was.
\<close>

definition read_line :: "fd \<Rightarrow> bytes \<Rightarrow> int \<Rightarrow> world \<Rightarrow> (int \<times> bytes) \<times> world" where
  "read_line d buf buf_space w =
     (let w = clear_errno w
      in CHECK_ARGS (buf_space \<le> 0) ((GEN_ERR_INV_ARGS, buf), w)
         (read_line_loop d buf_space buf 0 w))"

subsection \<open>Decimal numerals read back\<close>

lemma digit_char_facts:
  assumes "d < 10"
  shows "is_digit (digit_char d)" "digit_value (digit_char d) = d" "\<not> is_space (digit_char d)"
    "digit_char d \<noteq> CHR ''-''" "digit_char d \<noteq> CHR ''+''" "digit_char d \<noteq> NUL" "digit_char d \<noteq> CHR ''/''"
    "digit_char d \<noteq> CHR ''.''"
proof -
  have "d \<in> {0, 1, 2, 3, 4, 5, 6, 7, 8, 9}"
    using assms by auto
  then show "is_digit (digit_char d)" "digit_value (digit_char d) = d" "\<not> is_space (digit_char d)"
    "digit_char d \<noteq> CHR ''-''" "digit_char d \<noteq> CHR ''+''" "digit_char d \<noteq> NUL" "digit_char d \<noteq> CHR ''/''"
    "digit_char d \<noteq> CHR ''.''"
    by (auto simp: digit_char_def digit_value_def is_digit_def is_space_def char_of_eq_iff)
qed

lemma dec_digits_digits: "c \<in> set (dec_digits n) \<Longrightarrow> \<exists>d < 10. c = digit_char d"
proof (induction n rule: dec_digits.induct)
  case (1 n)
  show ?case
  proof (cases "n < 10")
    case True
    then show ?thesis using "1.prems" by (subst (asm) dec_digits.simps) auto
  next
    case False
    then have "c \<in> set (dec_digits (n div 10)) \<or> c = digit_char (n mod 10)"
      using "1.prems" by (subst (asm) dec_digits.simps) auto
    moreover have "n mod 10 < 10" by simp
    ultimately show ?thesis using "1.IH" False by blast
  qed
qed

lemma dec_digits_nonempty [simp]: "dec_digits n \<noteq> []"
  by (subst dec_digits.simps) simp

lemma digits_value_snoc: "digits_value (ds @ [c]) = 10 * digits_value ds + digit_value c"
  by (simp add: digits_value_def)

lemma digits_value_dec [simp]: "digits_value (dec_digits n) = n"
proof (induction n rule: dec_digits.induct)
  case (1 n)
  show ?case
  proof (cases "n < 10")
    case True
    then show ?thesis
      by (subst dec_digits.simps) (simp add: digits_value_def digit_char_facts)
  next
    case False
    then show ?thesis
      using 1 by (subst dec_digits.simps) (simp add: digits_value_snoc digit_char_facts)
  qed
qed

lemma length_dec_digits: "n < 10 ^ k \<Longrightarrow> 0 < k \<Longrightarrow> length (dec_digits n) \<le> k"
proof (induction k arbitrary: n)
  case (Suc k)
  show ?case
  proof (cases "n < 10")
    case True
    then show ?thesis by (subst dec_digits.simps) simp
  next
    case False
    then have "0 < k" using Suc.prems by (cases k) auto
    moreover have "n div 10 < 10 ^ k" using Suc.prems by auto
    ultimately have "length (dec_digits (n div 10)) \<le> k" by (rule Suc.IH [rotated])
    then show ?thesis using False by (subst dec_digits.simps) simp
  qed
qed simp

lemma show_u_digits: "c \<in> set (show_u n) \<Longrightarrow> \<exists>d < 10. c = digit_char d"
  unfolding show_u_def by (rule dec_digits_digits)

lemma show_u_nonempty [simp]: "show_u n \<noteq> []"
  by (simp add: show_u_def)

lemma length_show_u: "length (show_u n) \<le> MSG_ID_MAX_STR_SIZE"
proof -
  have "unat n < 2 ^ 32" using unsigned_less [of n] by simp
  then have "unat n < 10 ^ 10" by simp
  then show ?thesis
    unfolding show_u_def MSG_ID_MAX_STR_SIZE_def by (rule length_dec_digits) simp
qed

lemma digits_value_show_u [simp]: "digits_value (show_u n) = unat n"
  by (simp add: show_u_def)

lemma show_u_inject: "show_u m = show_u n \<longleftrightarrow> m = n"
  by (metis digits_value_show_u word_unat_eq_iff)

lemma strtol_digits:
  assumes "ds \<noteq> []" and "\<And>c. c \<in> set ds \<Longrightarrow> \<exists>d < 10. c = digit_char d"
    and "int (digits_value ds) \<le> LONG_MAX"
  shows "strtol ds = (int (digits_value ds), length ds, E0)"
proof -
  obtain c cs where ds: "ds = c # cs" using assms(1) by (cases ds) auto
  then obtain d where "d < 10" "c = digit_char d" using assms(2) by auto
  then have c: "\<not> is_space c" "c \<noteq> CHR ''-''" "c \<noteq> CHR ''+''"
    by (auto simp: digit_char_facts)
  have all: "takeWhile is_digit ds = ds"
    using assms(2) digit_char_facts(1) by (metis takeWhile_eq_all_conv)
  have "dropWhile is_space ds = ds" using c by (simp add: ds)
  then show ?thesis
    using assms(1,3) c all by (simp add: strtol_def ds LONG_MIN_def LONG_MAX_def)
qed

lemma str_to_num_show_u:
  "str_to_num (show_u n) UINT_T w = ((0, Some (UIntNum n)), clear_errno w)"
proof -
  have "uint n < 2 ^ 32" using uint_bounded [of n] by simp
  then have "int (unat n) \<le> LONG_MAX" by (simp add: LONG_MAX_def)
  then have "strtol (show_u n) = (int (unat n), length (show_u n), E0)"
    using strtol_digits [of "show_u n"] show_u_digits by simp
  then show ?thesis
    by (simp add: str_to_num_def clear_errno_def)
qed

subsection \<open>What read_line stores\<close>

text \<open>
  A line is the input before the first line feed or terminating byte; \<open>line_result\<close> is what
  \<open>read_line\<close> returns and leaves in the buffer when \<open>cnt\<close> bytes of the line are already stored.
\<close>

lemma read_byte_socket:
  assumes sock: "w_fds w d = Some SockD" and fates: "set (w_fates w) \<subseteq> soft"
  obtains (again) w1 where "noise w w1" "sys_read d 1 w = ((-1, []), w1)" "w_errno w1 = EINTR"
  | (eof) w1 where "noise w w1" "sys_read d 1 w = ((0, []), w1)" "w_in w d = []"
  | (byte) w1 c cs where "noise w w1" "w_in w d = c # cs"
      "sys_read d 1 w = ((1, [c]), w1\<lparr>w_in := (w_in w)(d := cs)\<rparr>)"
proof (cases "next_fate w")
  case (Pair ft w1)
  note nz = next_fate_noise [OF Pair]
  show thesis
  proof (cases "\<exists>e. ft = Fail e")
    case True
    then obtain e where e: "ft = Fail e" by blast
    then have "e = EINTR"
      using next_fate_frame(9) [OF Pair] fates by (auto simp: soft_def)
    moreover have "noise w (w1\<lparr>w_errno := e\<rparr>)"
      using nz e Pair by (auto simp: noise_def next_fate_def split: list.splits)
    ultimately show thesis
      using again [of "w1\<lparr>w_errno := e\<rparr>"] Pair e by (simp add: sys_read_def failing_def)
  next
    case False
    moreover have one: "at_most1 ft (Suc 0) = Suc 0"
      by (cases ft) auto
    ultimately have rd: "sys_read d 1 w = read_now d 1 w1"
      by (cases ft) (auto simp: sys_read_def Pair)
    show thesis
    proof (cases "w_in w d")
      case Nil
      have "(w_in w)(d := []) = w_in w1"
        using Nil noise_fields [OF nz] by (simp add: fun_upd_idem)
      then show thesis
        using eof [OF nz] Nil rd sock noise_fields [OF nz] by (simp add: read_now_def)
    next
      case (Cons c cs)
      then show thesis
        using byte [OF nz Cons] rd sock noise_fields [OF nz] by (simp add: read_now_def)
    qed
  qed
qed

abbreviation line_end :: "char \<Rightarrow> bool" where
  "line_end c \<equiv> c = LF \<or> c = NUL"

definition line_part :: "bytes \<Rightarrow> string" where
  "line_part inp = takeWhile (\<lambda>c. \<not> line_end c) inp"

definition line_rest :: "bytes \<Rightarrow> bytes" where
  "line_rest inp = drop 1 (dropWhile (\<lambda>c. \<not> line_end c) inp)"

lemma line_simps [simp]:
  "line_part [] = []" "line_rest [] = []"
  "line_end c \<Longrightarrow> line_part (c # cs) = []" "line_end c \<Longrightarrow> line_rest (c # cs) = cs"
  "\<not> line_end c \<Longrightarrow> line_part (c # cs) = c # line_part cs"
  "\<not> line_end c \<Longrightarrow> line_rest (c # cs) = line_rest cs"
  by (auto simp: line_part_def line_rest_def)

definition line_result :: "bytes \<Rightarrow> int \<Rightarrow> bytes \<Rightarrow> nat \<Rightarrow> int \<times> bytes" where
  "line_result inp sp buf cnt =
     (if inp = [] \<and> cnt = 0 then (0, buf)
      else (let k = min (length (line_part inp)) (nat (sp - 1) - cnt)
            in (int (cnt + k), put_at cnt (take k (line_part inp) @ [NUL]) buf)))"

lemma line_result_end:
  "cnt < length buf \<Longrightarrow> line_end c \<Longrightarrow> line_result (c # cs) sp buf cnt = (int cnt, buf[cnt := NUL])"
  by (auto simp: line_result_def put_at_single)

lemma line_result_store:
  assumes "cnt < length buf" and "\<not> line_end c" and "int cnt < sp - 1"
  shows "line_result (c # cs) sp buf cnt = line_result cs sp (buf[cnt := c]) (Suc cnt)"
proof -
  have "nat (sp - 1) - cnt = Suc (nat (sp - 1) - Suc cnt)"
    using assms(3) by simp
  then show ?thesis
    using assms by (simp add: line_result_def put_at_Suc Let_def)
qed

lemma line_result_discard:
  assumes "\<not> line_end c" and "\<not> int cnt < sp - 1" and "int cnt \<le> sp - 1" and "2 \<le> sp"
  shows "line_result (c # cs) sp buf cnt = line_result cs sp buf cnt"
  using assms by (simp add: line_result_def)

lemma line_result_nil:
  "cnt < length buf \<Longrightarrow> line_result [] sp buf cnt =
    (if cnt = 0 then (0, buf) else (int cnt, buf[cnt := NUL]))"
  by (simp add: line_result_def put_at_single)

lemma read_line_loop_socket:
  assumes "w_fds w d = Some SockD" "set (w_fates w) \<subseteq> soft"
    and "int cnt \<le> sp - 1" "sp \<le> int (length buf)" "2 \<le> sp"
  shows "\<exists>w1. noise w w1 \<and> read_line_loop d sp buf cnt w =
    (line_result (w_in w d) sp buf cnt, w1\<lparr>w_in := (w_in w)(d := line_rest (w_in w d))\<rparr>)"
  using assms
proof (induction d sp buf cnt w rule: read_line_loop.induct)
  case (1 d sp buf cnt w)
  have cnt: "cnt < length buf" using "1.prems" by simp
  from "1.prems"(1,2) show ?case
  proof (cases rule: read_byte_socket)
    case (again w1)
    have "\<exists>w2. noise w1 w2 \<and> read_line_loop d sp buf cnt w1 = (line_result (w_in w d) sp buf cnt,
        w2\<lparr>w_in := (w_in w)(d := line_rest (w_in w d))\<rparr>)"
      using "1.IH"(1) [OF again(2) [symmetric]] again(1,3) "1.prems" noise_fields [OF again(1)]
        subset_trans [OF noise_fields(8) [OF again(1)] "1.prems"(2)] by (simp add: fun_upd_def)
    then show ?thesis
      using noise_trans [OF again(1)] again(2,3) by (subst read_line_loop.simps) auto
  next
    case (eof w1)
    have "w1\<lparr>w_in := (w_in w)(d := [])\<rparr> = w1"
      using eof(3) noise_fields [OF eof(1)] by (simp add: fun_upd_idem)
    then show ?thesis
      using eof cnt by (subst read_line_loop.simps) (auto simp: line_result_nil intro!: exI [of _ w1])
  next
    case (byte w1 c cs)
    define w2 where "w2 = w1\<lparr>w_in := (w_in w)(d := cs)\<rparr>"
    note rd = byte(3) [folded w2_def]
    have w2: "w_fds w2 d = Some SockD" "set (w_fates w2) \<subseteq> soft" "w_in w2 = (w_in w)(d := cs)"
      using "1.prems"(1,2) noise_fields [OF byte(1)] by (auto simp: w2_def)
    have w_in_d: "w_in w2 d = cs" by (simp add: w2)
    have lift: "\<exists>w3. noise w w3 \<and> w4\<lparr>w_in := (w_in w2)(d := line_rest cs)\<rparr> =
        w3\<lparr>w_in := (w_in w)(d := line_rest cs)\<rparr>" if "noise w2 w4" for w4
    proof (intro exI conjI)
      show "noise w (w4\<lparr>w_in := w_in w1\<rparr>)"
        using noise_trans [OF byte(1)] noise_set_in [OF that [unfolded w2_def]] by blast
    qed (simp add: w2)
    show ?thesis
    proof (cases "line_end c")
      case True
      then show ?thesis
        using rd byte cnt by (subst read_line_loop.simps) (auto simp: w2_def line_result_end intro!: exI [of _ w1])
    next
      case False
      show ?thesis
      proof (cases "int cnt < sp - 1")
        case True
        have "\<exists>w4. noise w2 w4 \<and> read_line_loop d sp (buf[cnt := c]) (Suc cnt) w2 =
            (line_result (w_in w2 d) sp (buf[cnt := c]) (Suc cnt),
             w4\<lparr>w_in := (w_in w2)(d := line_rest (w_in w2 d))\<rparr>)"
          by (rule "1.IH"(2) [OF rd [symmetric] refl _ refl]) (use True False "1.prems" w2 in auto)
        then obtain w4 where "noise w2 w4" "read_line_loop d sp (buf[cnt := c]) (Suc cnt) w2 =
            (line_result cs sp (buf[cnt := c]) (Suc cnt), w4\<lparr>w_in := (w_in w2)(d := line_rest cs)\<rparr>)"
          unfolding w_in_d by blast
        then show ?thesis
          using lift [of w4] rd byte(2) False True line_result_store [OF cnt False True, of cs]
          by (subst read_line_loop.simps) auto
      next
        case nstore: False
        have "\<exists>w4. noise w2 w4 \<and> read_line_loop d sp buf cnt w2 =
            (line_result (w_in w2 d) sp buf cnt,
             w4\<lparr>w_in := (w_in w2)(d := line_rest (w_in w2 d))\<rparr>)"
          by (rule "1.IH"(3) [OF rd [symmetric] refl _ refl]) (use nstore False "1.prems" w2 in auto)
        then obtain w4 where "noise w2 w4" "read_line_loop d sp buf cnt w2 =
            (line_result cs sp buf cnt, w4\<lparr>w_in := (w_in w2)(d := line_rest cs)\<rparr>)"
          unfolding w_in_d by blast
        then show ?thesis
          using lift [of w4] rd byte(2) False nstore line_result_discard [OF False nstore "1.prems"(3,5), of cs]
          by (subst read_line_loop.simps) auto
      qed
    qed
  qed
qed

subsection \<open>What write_bytes sends on a socket\<close>

lemma write_some_socket:
  assumes sock: "w_fds w d = Some SockD"
  obtains (failed) w1 e where "noise w w1" "sys_write d buf w = (-1, w1)" "Fail e \<in> set (w_fates w)"
  | (went) w1 k where "noise w w1" "k \<le> length buf"
      "sys_write d buf w = (int k, w1\<lparr>w_out := (w_out w)(d := w_out w d @ take k buf)\<rparr>)"
proof (cases "sys_write d buf w")
  case (Pair r w')
  then show thesis
  proof (cases rule: sys_write_cases)
    case (failed e w1)
    have "noise w (w1\<lparr>w_errno := e\<rparr>)"
      using next_fate_noise [OF failed(1)] failed(1)
      by (auto simp: noise_def next_fate_def split: list.splits)
    moreover have "Fail e \<in> set (w_fates w)"
      using next_fate_frame(9) [OF failed(1)] by simp
    ultimately show thesis
      using that(1) [of w' e] Pair failed by simp
  next
    case (went ft w1)
    note nz = next_fate_noise [OF went(1)]
    show thesis
      using that(2) [OF nz, of "at_most ft (length buf)"] Pair went sock noise_fields [OF nz]
      by (simp add: write_now_def min_absorb2)
  qed
qed

lemma write_loop_socket:
  assumes "w_fds w d = Some SockD"
  shows "\<exists>w1 k. noise w w1 \<and> k \<le> length buf \<and>
    ((\<exists>e. Fail e \<in> set (w_fates w)) \<and>
       write_loop d buf cnt w = (-1, w1\<lparr>w_out := (w_out w)(d := w_out w d @ take k buf)\<rparr>) \<or>
     write_loop d buf cnt w = (cnt + int (length buf), w1\<lparr>w_out := (w_out w)(d := w_out w d @ buf)\<rparr>))"
  using assms
proof (induction d buf cnt w rule: write_loop.induct)
  case (1 d buf cnt w)
  from "1.prems" show ?case
  proof (cases rule: write_some_socket [where buf = buf])
    case (failed w1 e)
    have "w1\<lparr>w_out := (w_out w)(d := w_out w d)\<rparr> = w1"
      using noise_fields [OF failed(1)] by (simp flip: noise_fields(5) [OF failed(1)])
    then show ?thesis
      using failed by (subst write_loop.simps) (auto intro!: exI [of _ w1] exI [of _ 0])
  next
    case (went w1 k)
    define w2 where "w2 = w1\<lparr>w_out := (w_out w)(d := w_out w d @ take k buf)\<rparr>"
    note wr = went(3) [folded w2_def]
    have w2: "w_fds w2 d = Some SockD" "w_out w2 d = w_out w d @ take k buf"
        "set (w_fates w2) \<subseteq> set (w_fates w)"
        "w_out w2 = (w_out w)(d := w_out w d @ take k buf)"
      using "1.prems" noise_fields [OF went(1)] by (auto simp: w2_def)
    show ?thesis
    proof (cases "k = length buf")
      case True
      then show ?thesis
        using wr went by (subst write_loop.simps) (auto simp: w2_def intro!: exI [of _ w1])
    next
      case False
      then have more: "drop (nat (int k)) buf \<noteq> []"
        using went(2) by simp
      have "\<exists>w3 j. noise w2 w3 \<and> j \<le> length (drop (nat (int k)) buf) \<and>
        ((\<exists>e. Fail e \<in> set (w_fates w2)) \<and> write_loop d (drop (nat (int k)) buf) (cnt + int k) w2 =
            (-1, w3\<lparr>w_out := (w_out w2)(d := w_out w2 d @ take j (drop (nat (int k)) buf))\<rparr>) \<or>
         write_loop d (drop (nat (int k)) buf) (cnt + int k) w2 =
            (cnt + int k + int (length (drop (nat (int k)) buf)),
             w3\<lparr>w_out := (w_out w2)(d := w_out w2 d @ drop (nat (int k)) buf)\<rparr>))"
        by (rule "1.IH" [OF wr [symmetric] _ more w2(1)]) simp
      then obtain w3 j where ih: "noise w2 w3" "j \<le> length buf - k"
        "(\<exists>e. Fail e \<in> set (w_fates w2)) \<and> write_loop d (drop k buf) (cnt + int k) w2 =
            (-1, w3\<lparr>w_out := (w_out w)(d := w_out w d @ take (k + j) buf)\<rparr>) \<or>
         write_loop d (drop k buf) (cnt + int k) w2 =
            (cnt + int (length buf), w3\<lparr>w_out := (w_out w)(d := w_out w d @ buf)\<rparr>)"
        using went(2) by (auto simp: w2 take_add of_nat_diff)
      let ?w3 = "w3\<lparr>w_out := w_out w1\<rparr>"
      have nz: "noise w ?w3"
        using noise_trans [OF went(1)] noise_set_out [OF ih(1) [unfolded w2_def]] by blast
      have step: "write_loop d buf cnt w = write_loop d (drop k buf) (cnt + int k) w2"
        using more by (subst write_loop.simps) (simp add: wr)
      show ?thesis
        unfolding step using nz ih(2,3) went(2) w2(3)
        by (intro exI [of _ ?w3] exI [of _ "k + j"]) (auto simp: fun_upd_def)
    qed
  qed
qed

end
