(* ===== verification/NetUtil.thy ===== *)
theory NetUtil
  imports Util
begin

section \<open>netUtil.c: replies and strings on a socket\<close>

text \<open>
  \<open>src/netUtil.c\<close>: the three functions all traffic goes through. Each closes the socket when
  the transfer fails (the macro \<open>CHECK_SOCK_ERROR\<close>). A string travels with its terminating
  byte.
\<close>

definition check_sock_error :: "int \<Rightarrow> fd \<Rightarrow> world \<Rightarrow> int \<times> world" where
  "check_sock_error ret_val sock w =
     (if ret_val < 0 then (GEN_ERR_ANY, snd (sys_close sock w)) else (0, w))"

definition send_server_reply :: "fd \<Rightarrow> reply_t \<Rightarrow> world \<Rightarrow> int \<times> world" where
  "send_server_reply sock server_error_code w =
     (case write_bytes sock [char_of (unat server_error_code)] w of
        (ret_val, w1) \<Rightarrow> check_sock_error ret_val sock w1)"

definition send_string :: "fd \<Rightarrow> string \<Rightarrow> world \<Rightarrow> int \<times> world" where
  "send_string sock s w =
     (case write_bytes sock (s @ [NUL]) w of
        (ret_val, w1) \<Rightarrow> check_sock_error ret_val sock w1)"

definition recv_string :: "fd \<Rightarrow> bytes \<Rightarrow> world \<Rightarrow> (int \<times> bytes) \<times> world" where
  "recv_string sock buf w =
     (case read_line sock buf (int MAX_MSG_SIZE) w of
        ((ret_val, buf1), w1) \<Rightarrow>
          (case check_sock_error ret_val sock w1 of (r, w2) \<Rightarrow> ((r, buf1), w2)))"

subsection \<open>Strings and replies on a working socket\<close>

lemma noise_calm: "noise w w1 \<Longrightarrow> calm w \<Longrightarrow> w1 = w"
  by (simp add: noise_def)

lemma write_bytes_calm:
  assumes "calm w" "w_fds w d = Some SockD" "buf \<noteq> []"
  shows "write_bytes d buf w = (int (length buf), w\<lparr>w_out := (w_out w)(d := w_out w d @ buf)\<rparr>)"
  using write_loop_socket [OF assms(2), of buf 0] assms(1,3)
  by (auto simp: write_bytes_def dest!: noise_calm)

lemma send_string_calm:
  assumes "calm w" "w_fds w d = Some SockD"
  shows "send_string d s w = (0, w\<lparr>w_out := (w_out w)(d := w_out w d @ s @ [NUL])\<rparr>)"
  using write_bytes_calm [OF assms, of "s @ [NUL]"] by (simp add: send_string_def check_sock_error_def)

lemma send_server_reply_calm:
  assumes "calm w" "w_fds w d = Some SockD"
  shows "send_server_reply d code w =
    (0, w\<lparr>w_out := (w_out w)(d := w_out w d @ [char_of (unat code)])\<rparr>)"
  using write_bytes_calm [OF assms, of "[char_of (unat code)]"]
  by (simp add: send_server_reply_def check_sock_error_def)

lemma line_result_nonneg: "0 \<le> fst (line_result inp sp buf cnt)"
  by (auto simp: line_result_def Let_def)

lemma recv_string_soft:
  assumes "w_fds w d = Some SockD" "set (w_fates w) \<subseteq> soft" "MAX_MSG_SIZE \<le> length buf"
  shows "\<exists>w1. noise (clear_errno w) w1 \<and> recv_string d buf w =
    ((0, snd (line_result (w_in w d) (int MAX_MSG_SIZE) buf 0)),
     w1\<lparr>w_in := (w_in w)(d := line_rest (w_in w d))\<rparr>)"
proof -
  obtain w1 where "noise (clear_errno w) w1"
      "read_line_loop d (int MAX_MSG_SIZE) buf 0 (clear_errno w) =
        (line_result (w_in w d) (int MAX_MSG_SIZE) buf 0, w1\<lparr>w_in := (w_in w)(d := line_rest (w_in w d))\<rparr>)"
    using read_line_loop_socket [of "clear_errno w" d 0 "int MAX_MSG_SIZE" buf] assms
    by (auto simp: MAX_MSG_SIZE_def clear_errno_def)
  then show ?thesis
    using line_result_nonneg [of "w_in w d" "int MAX_MSG_SIZE" buf 0]
    by (auto simp: recv_string_def read_line_def MAX_MSG_SIZE_def check_sock_error_def
        split: prod.splits)
qed

text \<open>A string that one side sends is the string the other side receives.\<close>

definition wire_ok :: "string \<Rightarrow> bool" where
  "wire_ok s \<longleftrightarrow> NUL \<notin> set s \<and> LF \<notin> set s \<and> length s < MAX_MSG_SIZE"

lemma line_of_string:
  assumes "wire_ok s"
  shows "line_part (s @ NUL # rest) = s" "line_rest (s @ NUL # rest) = rest"
proof -
  have "line_part (s @ NUL # rest) = s \<and> line_rest (s @ NUL # rest) = rest"
    if "NUL \<notin> set s" "LF \<notin> set s" for s
    using that by (induction s) auto
  then show "line_part (s @ NUL # rest) = s" "line_rest (s @ NUL # rest) = rest"
    using assms by (auto simp: wire_ok_def)
qed

lemma line_result_string:
  assumes "wire_ok s"
  shows "snd (line_result (s @ NUL # rest) (int MAX_MSG_SIZE) buf 0) = strcpy_buf s buf"
proof -
  have "min (length s) (nat (int MAX_MSG_SIZE - 1)) = length s"
    using assms by (auto simp: wire_ok_def MAX_MSG_SIZE_def)
  then show ?thesis
    using line_of_string [OF assms, of rest]
    by (simp add: line_result_def Let_def put_at_def strcpy_buf_def)
qed

lemma recv_string_calm:
  assumes "calm w" "w_fds w d = Some SockD" "MAX_MSG_SIZE \<le> length buf" "wire_ok s"
    and "w_in w d = s @ NUL # rest"
  shows "recv_string d buf w = ((0, strcpy_buf s buf), w\<lparr>w_errno := E0, w_in := (w_in w)(d := rest)\<rparr>)"
  using recv_string_soft [OF assms(2) _ assms(3)] assms(1) line_of_string [OF assms(4)]
    line_result_string [OF assms(4)]
  by (auto simp: assms(5) clear_errno_def dest!: noise_calm)

end
