(* ===== verification/FileTree.thy ===== *)
theory FileTree
  imports Posix "HOL-Library.Sublist"
begin

section \<open>Well-formed file trees, direct paths, pruning\<close>

text \<open>
  The invariant of the file tree that the system calls keep, how a path without dot
  components resolves in it, and the trees that removals leave behind. The properties of the
  database operations rest on these facts and not on the definitions of the system calls.
\<close>

subsection \<open>The invariant\<close>

definition files_ok :: "files \<Rightarrow> bool" where
  "files_ok f \<longleftrightarrow> distinct (map fst f) \<and>
     (\<forall>k \<in> set (map fst f). k \<noteq> [] \<and> (\<forall>c \<in> set k. plain_name c) \<and>
        look f (butlast k) = Some DirI)"

text \<open>What the model assumes of \<open>readdir\<close>: each name of the directory, once, in some order.\<close>

definition order_ok :: "(string list \<Rightarrow> string list) \<Rightarrow> bool" where
  "order_ok ord \<longleftrightarrow> (\<forall>xs. set (ord xs) = set xs \<and> (distinct xs \<longrightarrow> distinct (ord xs)))"

lemma order_ok_id: "order_ok (\<lambda>xs. xs)" and order_ok_rev: "order_ok rev"
  by (simp_all add: order_ok_def)

lemma files_ok_Nil [simp]: "files_ok []"
  by (simp add: files_ok_def)

lemma files_ok_distinct: "files_ok f \<Longrightarrow> distinct (map fst f)"
  by (simp add: files_ok_def)

lemma files_ok_parent:
  assumes "files_ok f" and "look f (q @ [n]) \<noteq> None"
  shows "look f q = Some DirI"
proof -
  have "q @ [n] \<in> set (map fst f)"
    using assms(2) look_Some_iff_key [of "q @ [n]" f] by simp
  then show ?thesis
    using assms(1) by (force simp: files_ok_def)
qed

lemma files_ok_plain:
  assumes "files_ok f" and "look f q \<noteq> None" and "c \<in> set q"
  shows "plain_name c"
proof -
  have "q \<noteq> []" using assms(3) by auto
  then have "q \<in> set (map fst f)"
    using assms(2) look_Some_iff_key by blast
  then show ?thesis
    using assms(1,3) by (auto simp: files_ok_def)
qed

lemma files_ok_ancestor:
  assumes "files_ok f" and "look f (q @ r) \<noteq> None" and "r \<noteq> []"
  shows "look f q = Some DirI"
  using assms(2,3)
proof (induction r rule: rev_induct)
  case (snoc n r)
  then have "look f (q @ r) = Some DirI"
    using files_ok_parent [OF assms(1), of "q @ r" n] by simp
  then show ?case
    using snoc.IH by (cases "r = []") auto
qed simp

lemma files_ok_below_file:
  assumes "files_ok f" and "look f q = Some (FileI c)" and "r \<noteq> []"
  shows "look f (q @ r) = None"
proof (rule ccontr)
  assume "look f (q @ r) \<noteq> None"
  then have "look f q = Some DirI"
    using files_ok_ancestor [OF assms(1) _ assms(3)] by blast
  then show False using assms(2) by simp
qed

lemma files_ok_below_none:
  assumes "files_ok f" and "look f q = None"
  shows "look f (q @ r) = None"
proof (cases "r = []")
  case False
  show ?thesis
  proof (rule ccontr)
    assume "look f (q @ r) \<noteq> None"
    then have "look f q = Some DirI"
      using files_ok_ancestor [OF assms(1) _ False] by blast
    then show False using assms(2) by simp
  qed
qed (use assms(2) in simp)

lemma files_ok_set_node:
  assumes ok: "files_ok f" and dir: "look f q = Some DirI" and n: "plain_name n"
    and keep: "look f (q @ [n]) = Some DirI \<Longrightarrow> i = DirI"
  shows "files_ok (set_node (q @ [n]) i f)"
proof -
  have keys: "set (map fst (set_node (q @ [n]) i f)) = insert (q @ [n]) (set (map fst f))"
    by (simp add: set_node_def dom_update)
  have parents: "look (set_node (q @ [n]) i f) k = Some DirI" if "look f k = Some DirI" for k
    using that keep by (auto simp: look_set_node)
  have "look f (butlast k) = Some DirI" "k \<noteq> []" "\<forall>c \<in> set k. plain_name c"
    if "k \<in> set (map fst f)" for k
    using ok that by (auto simp: files_ok_def)
  moreover have "\<forall>c \<in> set q. plain_name c"
    using files_ok_plain [OF ok, of q] dir by auto
  ultimately show ?thesis
    unfolding files_ok_def keys
    using parents dir n files_ok_distinct [OF ok] by (auto simp: distinct_set_node)
qed

subsection \<open>Pruning\<close>

definition prune :: "(path \<Rightarrow> bool) \<Rightarrow> files \<Rightarrow> files" where
  "prune P f = filter (\<lambda>e. \<not> P (fst e)) f"

lemma map_of_prune: "map_of (prune P f) k = (if P k then None else map_of f k)"
  by (induction f) (auto simp: prune_def)

lemma look_prune: "\<not> P [] \<Longrightarrow> look (prune P f) k = (if P k then None else look f k)"
  by (auto simp: look_def map_of_prune)

lemma prune_prune: "prune P (prune Q f) = prune (\<lambda>k. Q k \<or> P k) f"
  by (simp add: prune_def conj_commute)

lemma prune_cong: "(\<And>k. k \<in> set (map fst f) \<Longrightarrow> P k = Q k) \<Longrightarrow> prune P f = prune Q f"
  unfolding prune_def by (rule filter_cong) auto

lemma prune_none: "(\<And>k. k \<in> set (map fst f) \<Longrightarrow> \<not> P k) \<Longrightarrow> prune P f = f"
  unfolding prune_def by (rule filter_True) auto

lemma del_node_prune: "del_node q f = prune (\<lambda>k. k = q) f"
  by (simp add: del_node_def prune_def AList.delete_eq case_prod_unfold eq_commute)

lemma keys_prune: "set (map fst (prune P f)) = {k \<in> set (map fst f). \<not> P k}"
  by (auto simp: prune_def)

text \<open>Removing whole subtrees keeps the invariant.\<close>

lemma files_ok_prune:
  assumes ok: "files_ok f" and down: "\<And>k n. P k \<Longrightarrow> P (k @ [n])" and root: "\<not> P []"
  shows "files_ok (prune P f)"
proof -
  have "distinct (map fst (prune P f))"
    using files_ok_distinct [OF ok] by (simp add: prune_def distinct_map_filter)
  moreover have "look (prune P f) (butlast k) = Some DirI"
    if "k \<in> set (map fst f)" and "\<not> P k" for k
  proof -
    have k: "k \<noteq> []" "look f (butlast k) = Some DirI"
      using ok that(1) by (auto simp: files_ok_def)
    have "\<not> P (butlast k)"
      using down [of "butlast k" "last k"] that(2) k(1) by auto
    then show ?thesis
      using k root by (simp add: look_prune)
  qed
  ultimately show ?thesis
    using ok unfolding files_ok_def keys_prune by auto
qed

subsection \<open>Direct paths\<close>

text \<open>A relative path without dot entries, empty or overlong components.\<close>

definition direct :: "string \<Rightarrow> bool" where
  "direct p \<longleftrightarrow> (\<forall>c \<in> set (split_path p). plain_name c)"

lemma split_path_nonempty [simp]: "split_path p \<noteq> []"
  by (induction p) (auto split: list.splits)

lemma split_path_append:
  assumes "CHR ''/'' \<notin> set n"
  shows "split_path (p @ CHR ''/'' # n) = split_path p @ [n]"
proof (induction p)
  case Nil
  then show ?case using assms by (simp add: split_path_simple)
next
  case (Cons c p)
  then show ?case
    using split_path_nonempty [of p] by (cases "split_path p") auto
qed

lemma direct_append: "direct p \<Longrightarrow> plain_name n \<Longrightarrow> direct (p @ CHR ''/'' # n)"
  by (auto simp: direct_def split_path_append plain_name_def)

lemma direct_nonempty: "direct p \<Longrightarrow> \<exists>c cs. p = c # cs \<and> c \<noteq> CHR ''/''"
proof (cases p)
  case (Cons c cs)
  moreover assume "direct p"
  ultimately have "c \<noteq> CHR ''/''"
    by (cases "c = CHR ''/''") (simp_all add: direct_def plain_name_def)
  then show ?thesis using Cons by simp
qed (simp add: direct_def plain_name_def)

lemma walk_direct:
  assumes "\<forall>c \<in> set cs. plain_name c" and "\<And>m. m < length cs \<Longrightarrow> look f (cur @ take m cs) = Some DirI"
  shows "walk f cur cs = Inr (cur @ cs)"
  using assms
proof (induction cs arbitrary: cur)
  case (Cons c cs)
  have "look f cur = Some DirI"
    using Cons.prems(2) [of 0] by simp
  moreover have "walk f (cur @ [c]) cs = Inr ((cur @ [c]) @ cs)"
  proof (rule Cons.IH)
    show "look f ((cur @ [c]) @ take m cs) = Some DirI" if "m < length cs" for m
      using Cons.prems(2) [of "Suc m"] that by simp
  qed (use Cons.prems in simp)
  ultimately show ?case
    using Cons.prems(1) by (simp add: walk_plain del: walk.simps)
qed simp

text \<open>A direct path whose parent is a directory resolves to itself below the working directory.\<close>

lemma resolve_direct:
  assumes "direct p" and "files_ok (w_files w)"
    and "look (w_files w) (w_cwd w @ butlast (split_path p)) = Some DirI"
  shows "resolve w p = Inr (w_cwd w @ split_path p)"
proof -
  obtain c cs where p: "p = c # cs" "c \<noteq> CHR ''/''"
    using direct_nonempty [OF assms(1)] by blast
  have "walk (w_files w) (w_cwd w) (split_path p) = Inr (w_cwd w @ split_path p)"
  proof (rule walk_direct)
    fix m assume m: "m < length (split_path p)"
    let ?b = "butlast (split_path p)"
    have b: "?b = take m (split_path p) @ drop m ?b"
      using append_take_drop_id [of m ?b, symmetric] take_butlast [OF m] by (simp only:)
    show "look (w_files w) (w_cwd w @ take m (split_path p)) = Some DirI"
    proof (cases "drop m ?b = []")
      case True
      then show ?thesis using assms(3) b by simp
    next
      case False
      have "look (w_files w) ((w_cwd w @ take m (split_path p)) @ drop m ?b) \<noteq> None"
        using assms(3) b by simp
      then show ?thesis
        using files_ok_ancestor [OF assms(2) _ False] by blast
    qed
  qed (use assms(1) in \<open>simp add: direct_def\<close>)
  then show ?thesis
    using p by (simp add: resolve_def del: split_path.simps)
qed

lemma resolve_direct_exists:
  assumes "direct p" and "files_ok (w_files w)"
    and "look (w_files w) (w_cwd w @ split_path p) \<noteq> None"
  shows "resolve w p = Inr (w_cwd w @ split_path p)"
proof (rule resolve_direct [OF assms(1,2)])
  show "look (w_files w) (w_cwd w @ butlast (split_path p)) = Some DirI"
    using files_ok_parent [OF assms(2), of "w_cwd w @ butlast (split_path p)" "last (split_path p)"]
      assms(3) by simp
qed

subsection \<open>Directory listings\<close>

lemma listing_names:
  assumes "order_ok (w_order w)"
  shows "(n, b) \<in> set (listing w q) \<and> n \<noteq> ''.'' \<and> n \<noteq> ''..'' \<Longrightarrow>
      look (w_files w) (q @ [n]) \<noteq> None \<and> b = (look (w_files w) (q @ [n]) = Some DirI)"
    and "look (w_files w) (q @ [n]) \<noteq> None \<Longrightarrow> n \<in> set (map fst (listing w q))"
proof -
  have names: "set (w_order w ([''.'', ''..''] @ children (w_files w) q)) =
      {''.'', ''..''} \<union> {n. look (w_files w) (q @ [n]) \<noteq> None}"
    using assms by (simp add: order_ok_def set_children)
  show "(n, b) \<in> set (listing w q) \<and> n \<noteq> ''.'' \<and> n \<noteq> ''..'' \<Longrightarrow>
      look (w_files w) (q @ [n]) \<noteq> None \<and> b = (look (w_files w) (q @ [n]) = Some DirI)"
    using names by (auto simp: listing_def)
  show "look (w_files w) (q @ [n]) \<noteq> None \<Longrightarrow> n \<in> set (map fst (listing w q))"
    using names by (auto simp: listing_def image_image)
qed

lemma distinct_listing:
  assumes "order_ok (w_order w)" and "files_ok (w_files w)"
  shows "distinct (map fst (listing w q))"
proof -
  have "''.'' \<notin> set (children (w_files w) q)" "''..'' \<notin> set (children (w_files w) q)"
    using files_ok_plain [OF assms(2), of "q @ [_]"] by (force simp: set_children plain_name_def)+
  then have "distinct ([''.'', ''..''] @ children (w_files w) q)"
    using distinct_children [OF files_ok_distinct [OF assms(2)]] by simp
  then show ?thesis
    using assms(1) by (simp add: listing_def order_ok_def comp_def)
qed

text \<open>Writing a file that is there changes no path.\<close>

lemma walk_rewrite:
  "look f q = Some (FileI c) \<Longrightarrow> q \<noteq> [] \<Longrightarrow> walk (set_node q (FileI c') f) cur cs = walk f cur cs"
  by (induction f cur cs rule: walk.induct) (auto simp: look_set_node)

lemma resolve_rewrite:
  "look (w_files w) q = Some (FileI c) \<Longrightarrow> q \<noteq> [] \<Longrightarrow>
    resolve (w\<lparr>w_files := set_node q (FileI c') (w_files w)\<rparr>) p = resolve w p"
  by (simp add: resolve_def walk_rewrite split: list.splits)

end
