(* ===== verification/DbmsUtil.thy ===== *)
theory DbmsUtil
  imports Util FileTree
begin

section \<open>dbmsUtil.c: opening, removing and transferring database files\<close>

text \<open>
  \<open>src/dbms/dbmsUtil.c\<close>. The recursion of \<open>remove_recursive\<close> goes one directory deeper in
  each call; it is written with fuel and run with the depth of the file tree, which is enough
  for every tree whose names are proper names.
\<close>

definition open_file :: "string \<Rightarrow> char \<Rightarrow> world \<Rightarrow> int \<times> world" where
  "open_file path mode w =
     (if mode = READ then sys_open path O_RDONLY w
      else if mode = CREATE then sys_open path O_WRONLY_CREAT_EXCL w
      else if mode = MODIFY then sys_open path O_WRONLY_TRUNC w
      else (GEN_ERR_INV_ARGS, w))"

definition open_directory :: "string \<Rightarrow> char \<Rightarrow> world \<Rightarrow> (int \<times> dir option) \<times> world" where
  "open_directory path mode w0 =
     (let w = clear_errno w0
      in CHECK_ARGS (mode \<noteq> CREATE \<and> mode \<noteq> READ \<and> mode \<noteq> OVERWRITE) ((GEN_ERR_INV_ARGS, None), w)
         (case sys_opendir path w of
           (Some d, w1) \<Rightarrow>
             ((if mode = CREATE then DBMS_ERR_EXISTS else DBMS_SUCCESS, Some d), w1)
         | (None, w1) \<Rightarrow>
             (if w_errno w1 = ENOENT then
                (if mode = CREATE \<or> mode = OVERWRITE then
                   (case sys_mkdir path w1 of (ret_val, w2) \<Rightarrow>
                      CHECK_FUNC_ERROR_WITH_ERRNO ret_val ((DBMS_ERR_ANY, None), w2)
                      (case sys_opendir path w2 of (directory, w3) \<Rightarrow>
                         CHECK_ERROR_WITH_ERRNO (directory = None) ((DBMS_ERR_ANY, None), w3)
                         ((DBMS_SUCCESS, directory), w3)))
                 else ((DBMS_ERR_NOT_EXISTS, None), w1))
              else ((DBMS_ERR_ANY, None), w1))))"

text \<open>
  The loop over the directory's entries: \<open>rm\<close> is the recursive call for a directory and
  \<open>remove\<close> for anything else; the first failure ends it.
\<close>

fun rm_entries ::
  "(string \<Rightarrow> world \<Rightarrow> (int \<times> world) option) \<Rightarrow> string \<Rightarrow> dir \<Rightarrow> world \<Rightarrow> (int \<times> world) option"
where
  "rm_entries rec path [] w = Some (0, w)"
| "rm_entries rec path ((d_name, is_dir) # es) w =
     (if d_name = ''.'' \<or> d_name = ''..'' then rm_entries rec path es w
      else
        (case (if is_dir then rec (path @ ''/'' @ d_name) w
               else Some (sys_remove (path @ ''/'' @ d_name) w)) of
           None \<Rightarrow> None
         | Some (ret_val, w1) \<Rightarrow>
             CHECK_RM_ERROR ret_val (Some (DBMS_ERR_ANY, w1)) (rm_entries rec path es w1)))"

primrec rm_fuel :: "nat \<Rightarrow> string \<Rightarrow> world \<Rightarrow> (int \<times> world) option" where
  "rm_fuel 0 path w = None"
| "rm_fuel (Suc n) path w =
     (case sys_opendir path (clear_errno w) of (directory, w1) \<Rightarrow>
        (case (case directory of
                 None \<Rightarrow> Some (0, w1)
               | Some d \<Rightarrow> rm_entries (rm_fuel n) path d w1) of
           None \<Rightarrow> None
         | Some (ret_val, w2) \<Rightarrow>
             (if ret_val < 0 then Some (DBMS_ERR_ANY, w2)
              else if w_errno w2 = ENOENT then Some (DBMS_ERR_NOT_EXISTS, w2)
              else Some (sys_remove path w2))))"

definition tree_depth :: "files \<Rightarrow> nat" where
  "tree_depth f = foldr (\<lambda>k n. max (length (fst k)) n) f 0"

definition remove_recursive :: "string \<Rightarrow> world \<Rightarrow> int \<times> world" where
  "remove_recursive path w =
     (case rm_fuel (Suc (Suc (tree_depth (w_files w)))) path w of
        Some r \<Rightarrow> r
      | None \<Rightarrow> (DBMS_ERR_ANY, w))"

text \<open>
  \<open>read_entry\<close> overlays the bytes it got on the entry it was given; a file shorter than an
  entry replaces only a prefix, and the result is still success.
\<close>

definition read_entry :: "fd \<Rightarrow> entry_t \<Rightarrow> world \<Rightarrow> (int \<times> entry_t) \<times> world" where
  "read_entry entry_fd entry w =
     (case read_bytes entry_fd sizeof_entry w of ((bytes_read, data), w1) \<Rightarrow>
        (let entry' = put_at 0 data entry
         in if bytes_read = -1 then ((DBMS_ERR_ANY, entry'), snd (sys_close entry_fd w1))
            else if bytes_read = 0 then ((DBMS_ERR_ANY, entry'), snd (sys_close entry_fd w1))
            else ((DBMS_SUCCESS, entry'), w1)))"

definition write_entry :: "fd \<Rightarrow> entry_t \<Rightarrow> world \<Rightarrow> (int \<times> entry_t) \<times> world" where
  "write_entry entry_fd entry w =
     (case write_bytes entry_fd entry w of (bytes_written, w1) \<Rightarrow>
        (if bytes_written = -1 then ((DBMS_ERR_ANY, entry), snd (sys_close entry_fd w1))
         else ((DBMS_SUCCESS, entry), w1)))"

subsection \<open>Files without faults\<close>

definition fresh_fds :: "world \<Rightarrow> bool" where
  "fresh_fds w \<longleftrightarrow> (\<forall>n \<ge> w_next w. w_fds w (int n) = None)"

lemma sys_read_calm_file:
  assumes "calm w" and "w_fds w d = Some (FileD q off)" and "look (w_files w) q = Some (FileI c)"
  shows "sys_read d n w = ((int (min n (length c - off)), take n (drop off c)),
    w\<lparr>w_fds := (w_fds w)(d \<mapsto> FileD q (off + min n (length c - off)))\<rparr>)"
  using assms by (simp add: sys_read_def next_fate_calm read_now_def min.commute)

lemma read_bytes_file:
  assumes "calm w" and "w_fds w d = Some (FileD q 0)" and "look (w_files w) q = Some (FileI c)"
    and "0 < n"
  shows "read_bytes d n w = ((int (min n (length c)), take n c),
    w\<lparr>w_fds := (w_fds w)(d \<mapsto> FileD q (min n (length c)))\<rparr>)"
proof (cases "n \<le> length c \<or> c = []")
  case True
  then show ?thesis
    using assms sys_read_calm_file [OF assms(1-3), of n]
    by (auto simp: read_bytes_def read_loop.simps min_def)
next
  case False
  let ?w = "w\<lparr>w_fds := (w_fds w)(d \<mapsto> FileD q (length c))\<rparr>"
  have "sys_read d (n - length c) ?w = ((0, []), ?w)"
    using sys_read_calm_file [of ?w d q "length c" c "n - length c"] assms by simp
  then have "read_loop d (n - length c) c ?w = ((int (length c), c), ?w)"
    by (simp add: read_loop.simps)
  moreover have "sys_read d n w = ((int (length c), c), ?w)"
    using sys_read_calm_file [OF assms(1-3), of n] False by (simp add: min_def)
  ultimately show ?thesis
    using False assms(4) by (simp add: read_bytes_def read_loop.simps [of d n] min_def)
qed

lemma write_bytes_file:
  assumes "calm w" and "w_fds w d = Some (FileD q 0)" and "look (w_files w) q = Some (FileI [])"
    and "buf \<noteq> []"
  shows "write_bytes d buf w = (int (length buf),
    w\<lparr>w_files := set_node q (FileI buf) (w_files w),
      w_fds := (w_fds w)(d \<mapsto> FileD q (length buf))\<rparr>)"
  using assms
  by (simp add: write_bytes_def write_loop.simps sys_write_def next_fate_calm write_now_def put_at_def)

text \<open>A path that \<open>open\<close> does not find: its parent is missing, or it has no such entry.\<close>

definition missing :: "world \<Rightarrow> string \<Rightarrow> bool" where
  "missing w p \<longleftrightarrow> resolve w p = Inl ENOENT \<or> (\<exists>q. resolve w p = Inr q \<and> look (w_files w) q = None)"

abbreviation is_file :: "world \<Rightarrow> string \<Rightarrow> path \<Rightarrow> bytes \<Rightarrow> bool" where
  "is_file w p q c \<equiv> resolve w p = Inr q \<and> look (w_files w) q = Some (FileI c)"

lemma open_file_read:
  assumes "calm w" and "is_file w p q c"
  shows "open_file p READ w = alloc_fd (FileD q 0) w"
  using assms by (simp add: open_file_def sys_open_def may_fail_calm)

lemma open_file_missing:
  assumes "calm w" and "missing w p" and "mode = READ \<or> mode = MODIFY"
  shows "open_file p mode w = (-1, w\<lparr>w_errno := ENOENT\<rparr>)"
  using assms by (auto simp: open_file_def sys_open_def may_fail_calm missing_def failing_def)

lemma open_file_modify:
  assumes "calm w" and "is_file w p q c"
  shows "open_file p MODIFY w =
    alloc_fd (FileD q 0) (w\<lparr>w_files := set_node q (FileI []) (w_files w)\<rparr>)"
  using assms by (simp add: open_file_def sys_open_def may_fail_calm)

lemma open_file_create:
  assumes "calm w" and "resolve w p = Inr q" and "look (w_files w) q = None"
  shows "open_file p CREATE w =
    alloc_fd (FileD q 0) (w\<lparr>w_files := set_node q (FileI []) (w_files w)\<rparr>)"
  using assms by (simp add: open_file_def sys_open_def may_fail_calm)

lemma open_file_exists:
  assumes "calm w" and "resolve w p = Inr q" and "look (w_files w) q \<noteq> None"
  shows "open_file p CREATE w = (-1, w\<lparr>w_errno := EEXIST\<rparr>)"
  using assms by (auto simp: open_file_def sys_open_def may_fail_calm failing_def)

text \<open>An entry written to a new descriptor and closed, or read from one and closed.\<close>

lemma set_node_twice [simp]: "set_node q i (set_node q j f) = set_node q i f"
  by (simp add: set_node_def)

lemma write_entry_fresh:
  assumes "calm w" and "fresh_fds w" and "q \<noteq> []" and "entry_ok e"
    and "alloc_fd (FileD q 0) (w\<lparr>w_files := set_node q (FileI []) (w_files w)\<rparr>) = (d, w1)"
  obtains w2 where "d \<noteq> -1" "write_entry d e w1 = ((DBMS_SUCCESS, e), w2)"
    "snd (sys_close d w2) = w\<lparr>w_files := set_node q (FileI e) (w_files w), w_next := Suc (w_next w)\<rparr>"
proof
  have d: "d = int (w_next w)" "w1 = w\<lparr>w_files := set_node q (FileI []) (w_files w),
      w_fds := (w_fds w)(int (w_next w) \<mapsto> FileD q 0), w_next := Suc (w_next w)\<rparr>"
    using assms(5) by (auto simp: alloc_fd_def)
  have "e \<noteq> []" using assms(4) by (auto simp: entry_ok_def sizeof_entry_def)
  then have we: "write_entry d e w1 = ((DBMS_SUCCESS, e), w1\<lparr>w_files := set_node q (FileI e) (w_files w1),
      w_fds := (w_fds w1)(d \<mapsto> FileD q (length e))\<rparr>)"
    using assms(1,3) write_bytes_file [of w1 d q e] by (simp add: write_entry_def d look_set_node)
  have fr: "w_fds w (int (w_next w)) = None"
    using assms(2) by (simp add: fresh_fds_def)
  show "d \<noteq> -1" by (simp add: d)
  show "write_entry d e w1 = ((DBMS_SUCCESS, e), w1\<lparr>w_files := set_node q (FileI e) (w_files w1),
      w_fds := (w_fds w1)(d \<mapsto> FileD q (length e))\<rparr>)"
    by (rule we)
  show "snd (sys_close d (w1\<lparr>w_files := set_node q (FileI e) (w_files w1),
      w_fds := (w_fds w1)(d \<mapsto> FileD q (length e))\<rparr>)) =
      w\<lparr>w_files := set_node q (FileI e) (w_files w), w_next := Suc (w_next w)\<rparr>"
    using fr by (simp add: sys_close_def d fun_upd_idem)
qed

lemma read_entry_fresh:
  assumes "calm w" and "fresh_fds w" and "look (w_files w) q = Some (FileI c)" and "c \<noteq> []"
    and "alloc_fd (FileD q 0) w = (d, w1)"
  obtains w2 where "d \<noteq> -1"
    "read_entry d e w1 = ((DBMS_SUCCESS, put_at 0 (take sizeof_entry c) e), w2)"
    "snd (sys_close d w2) = w\<lparr>w_next := Suc (w_next w)\<rparr>"
proof
  have d: "d = int (w_next w)" "w1 = w
      \<lparr>w_fds := (w_fds w)(int (w_next w) \<mapsto> FileD q 0), w_next := Suc (w_next w)\<rparr>"
    using assms(5) by (auto simp: alloc_fd_def)
  have "read_bytes d sizeof_entry w1 = ((int (min sizeof_entry (length c)), take sizeof_entry c),
      w1\<lparr>w_fds := (w_fds w1)(d \<mapsto> FileD q (min sizeof_entry (length c)))\<rparr>)"
    by (rule read_bytes_file) (use assms in \<open>auto simp: d sizeof_entry_def\<close>)
  moreover have "int (min sizeof_entry (length c)) \<noteq> 0"
    using assms(4) by (simp add: sizeof_entry_def)
  moreover have "int (min sizeof_entry (length c)) \<noteq> -1"
    by linarith
  ultimately have re: "read_entry d e w1 = ((DBMS_SUCCESS, put_at 0 (take sizeof_entry c) e),
      w1\<lparr>w_fds := (w_fds w1)(d \<mapsto> FileD q (min sizeof_entry (length c)))\<rparr>)"
    unfolding read_entry_def by (simp only: case_prod_conv Let_def if_False)
  have fr: "w_fds w (int (w_next w)) = None"
    using assms(2) by (simp add: fresh_fds_def)
  show "d \<noteq> -1" by (simp add: d)
  show "read_entry d e w1 = ((DBMS_SUCCESS, put_at 0 (take sizeof_entry c) e),
      w1\<lparr>w_fds := (w_fds w1)(d \<mapsto> FileD q (min sizeof_entry (length c)))\<rparr>)"
    by (rule re)
  show "snd (sys_close d (w1\<lparr>w_fds := (w_fds w1)(d \<mapsto> FileD q (min sizeof_entry (length c)))\<rparr>)) =
      w\<lparr>w_next := Suc (w_next w)\<rparr>"
    using fr by (simp add: sys_close_def d fun_upd_idem)
qed

end
