(* ===== verification/Dbms.thy ===== *)
theory Dbms
  imports DbmsUtil
begin

section \<open>dbms.c: users and pending messages as files\<close>

text \<open>
  \<open>src/dbms/dbms.c\<close>. A user \<open>u\<close> is the directory \<open>users/u-table\<close> with the file
  \<open>userdata.entry\<close> and the directory \<open>pend_msgs-table\<close>, which holds one file per pending
  message, named by its number. Functions that fill the caller's entry return the new entry.
\<close>

subsection \<open>Paths\<close>

definition user_table_path :: "string \<Rightarrow> string" where
  "user_table_path username = DB_DIR @ ''/'' @ username @ ''-table''"

definition pend_msgs_path :: "string \<Rightarrow> string" where
  "pend_msgs_path username = user_table_path username @ ''/'' @ PEND_MSGS_TABLE"

definition userdata_path :: "string \<Rightarrow> string" where
  "userdata_path username = user_table_path username @ ''/'' @ USERDATA_ENTRY"

definition pend_msg_path :: "string \<Rightarrow> u32 \<Rightarrow> string" where
  "pend_msg_path username n = pend_msgs_path username @ ''/'' @ show_u n"

definition entry_path :: "entry_t \<Rightarrow> string" where
  "entry_path entry =
     (if e_type entry = ENT_TYPE_UD then userdata_path (e_username entry)
      else pend_msg_path (e_username entry) (e_msg_id entry))"

text \<open>The sizes of the arrays the paths are printed into.\<close>

definition db_get_pend_msg_path_size :: "string \<Rightarrow> nat" where
  "db_get_pend_msg_path_size username =
     length DB_DIR + length username + length PEND_MSGS_TABLE + 9"

definition db_user_exists_path_len :: "string \<Rightarrow> nat" where
  "db_user_exists_path_len username = length DB_DIR + length username + 7"

definition db_io_op_entry_len :: "entry_t \<Rightarrow> nat" where
  "db_io_op_entry_len entry =
     length DB_DIR + length (e_username entry) + 9 +
     (if e_type entry = ENT_TYPE_UD then length USERDATA_ENTRY
      else length PEND_MSGS_TABLE + 1 + MSG_ID_MAX_STR_SIZE)"

definition db_creat_usr_tbl_sizes :: "string \<Rightarrow> nat \<times> nat \<times> nat" where
  "db_creat_usr_tbl_sizes username =
     (length DB_DIR + length username + 8,
      length (user_table_path username) + length USERDATA_ENTRY + 2,
      length (user_table_path username) + length PEND_MSGS_TABLE + 2)"

definition db_del_usr_tbl_path_size :: "string \<Rightarrow> nat" where
  "db_del_usr_tbl_path_size username = length DB_DIR + length username + 8"

subsection \<open>Operations\<close>

definition db_init_db :: "world \<Rightarrow> int \<times> world" where
  "db_init_db w =
     (case open_directory DB_DIR OVERWRITE w of ((ret_val, _), w1) \<Rightarrow>
        CHECK_FUNC_ERROR ret_val (DBMS_ERR_ANY, w1) (DBMS_SUCCESS, w1))"

definition db_empty_db :: "world \<Rightarrow> int \<times> world" where
  "db_empty_db w = remove_recursive DB_DIR w"

text \<open>\<open>TRUE\<close> is 1, \<open>FALSE\<close> is 0, anything else is an error code.\<close>

definition db_user_exists :: "string \<Rightarrow> world \<Rightarrow> int \<times> world" where
  "db_user_exists username w =
     (case open_directory (user_table_path username) READ w of ((result, _), w1) \<Rightarrow>
        (if result = DBMS_ERR_NOT_EXISTS then (FALSE, w1)
         else if result = DBMS_SUCCESS then (TRUE, w1)
         else (result, w1)))"

definition db_io_op_usr_ent :: "entry_t \<Rightarrow> char \<Rightarrow> world \<Rightarrow> (int \<times> entry_t) \<times> world" where
  "db_io_op_usr_ent entry mode w =
     CHECK_ARGS (e_type entry \<noteq> ENT_TYPE_UD \<and> e_type entry \<noteq> ENT_TYPE_P_MSG) ((GEN_ERR_INV_ARGS, entry), w)
     (CHECK_ARGS (mode \<noteq> CREATE \<and> mode \<noteq> MODIFY \<and> mode \<noteq> READ \<and> mode \<noteq> DELETE) ((GEN_ERR_INV_ARGS, entry), w)
     (if mode = DELETE then
        (case remove_recursive (entry_path entry) w of (result, w1) \<Rightarrow>
           ((if result < 0 then result else DBMS_SUCCESS, entry), w1))
      else
        (case open_file (entry_path entry) mode w of (entry_fd, w1) \<Rightarrow>
           (if entry_fd = -1 then
              (if w_errno w1 = ENOENT then ((DBMS_ERR_NOT_EXISTS, entry), w1)
               else ((DBMS_ERR_ANY, entry), w1))
            else
              (case (if mode = READ then read_entry else write_entry) entry_fd entry w1 of
                 (result, w2) \<Rightarrow> (result, snd (sys_close entry_fd w2)))))))"

text \<open>
  \<open>db_get_pend_msg\<close>: the loop takes the first entry that is not a dot entry. The result of
  reading that entry is not looked at.
\<close>

fun first_pend_entry :: "dir \<Rightarrow> string option" where
  "first_pend_entry [] = None"
| "first_pend_entry ((d_name, _) # es) =
     (if d_name = ''.'' \<or> d_name = ''..'' then first_pend_entry es else Some d_name)"

definition store_msg_id :: "number option \<Rightarrow> entry_t \<Rightarrow> entry_t" where
  "store_msg_id number entry =
     (case number of Some (UIntNum n) \<Rightarrow> set_e_msg_id n entry | _ \<Rightarrow> entry)"

definition db_get_pend_msg :: "entry_t \<Rightarrow> world \<Rightarrow> (int \<times> entry_t) \<times> world" where
  "db_get_pend_msg entry w =
     CHECK_ARGS (e_type entry \<noteq> ENT_TYPE_P_MSG) ((GEN_ERR_INV_ARGS, entry), w)
        (case open_directory (pend_msgs_path (e_username entry)) READ w of
           ((ret_val, pend_msg_table), w1) \<Rightarrow>
             CHECK_FUNC_ERROR ret_val ((DBMS_ERR_ANY, entry), w1)
             (case first_pend_entry (case pend_msg_table of None \<Rightarrow> [] | Some es \<Rightarrow> es) of
                None \<Rightarrow> ((DBMS_ERR_NOT_EXISTS, entry), w1)
              | Some d_name \<Rightarrow>
                  (case str_to_num d_name UINT_T w1 of ((r, number), w2) \<Rightarrow>
                     CHECK_FUNC_ERROR r ((DBMS_ERR_ANY, entry), w2)
                     (case db_io_op_usr_ent (store_msg_id number entry) READ w2 of
                        ((_, entry'), w3) \<Rightarrow> ((DBMS_SUCCESS, entry'), w3)))))"

definition db_creat_usr_tbl :: "entry_t \<Rightarrow> world \<Rightarrow> (int \<times> entry_t) \<times> world" where
  "db_creat_usr_tbl entry w =
     (case open_directory (user_table_path (e_username entry)) CREATE w of
        ((result, _), w1) \<Rightarrow>
          (if result = DBMS_ERR_EXISTS then ((DBMS_ERR_EXISTS, entry), w1)
           else if result < 0 then ((DBMS_ERR_ANY, entry), w1)
           else
             (case db_io_op_usr_ent entry CREATE w1 of ((r2, entry2), w2) \<Rightarrow>
                (if r2 < 0 then ((DBMS_ERR_ANY, entry2), w2)
                 else
                   (case open_directory (pend_msgs_path (e_username entry)) CREATE w2 of
                      ((r3, _), w3) \<Rightarrow>
                        (if r3 < 0 then ((DBMS_ERR_ANY, entry2), w3)
                         else ((DBMS_SUCCESS, entry2), w3)))))))"

definition db_del_usr_tbl :: "string \<Rightarrow> world \<Rightarrow> int \<times> world" where
  "db_del_usr_tbl username w = remove_recursive (user_table_path username) w"

subsection \<open>Entry operations without faults\<close>

definition entry_type_ok :: "entry_t \<Rightarrow> bool" where
  "entry_type_ok e \<longleftrightarrow> e_type e = ENT_TYPE_UD \<or> e_type e = ENT_TYPE_P_MSG"

lemma db_read_short:
  assumes "calm w" "fresh_fds w" "entry_type_ok e" "is_file w (entry_path e) q c" "c \<noteq> []"
  shows "db_io_op_usr_ent e READ w =
    ((DBMS_SUCCESS, put_at 0 (take sizeof_entry c) e), w\<lparr>w_next := Suc (w_next w)\<rparr>)"
proof -
  obtain d w1 where al: "alloc_fd (FileD q 0) w = (d, w1)"
    by fastforce
  have lk: "look (w_files w) q = Some (FileI c)"
    using assms(4) by simp
  obtain w2 where w2: "d \<noteq> -1"
      "read_entry d e w1 = ((DBMS_SUCCESS, put_at 0 (take sizeof_entry c) e), w2)"
      "snd (sys_close d w2) = w\<lparr>w_next := Suc (w_next w)\<rparr>"
    using read_entry_fresh [OF assms(1,2) lk assms(5) al] by blast
  show ?thesis
    using assms(3) open_file_read [OF assms(1,4)] w2 al
    by (simp add: db_io_op_usr_ent_def entry_type_ok_def)
qed

lemma db_read_entry:
  assumes "calm w" "fresh_fds w" "entry_type_ok e" "is_file w (entry_path e) q c"
    and "entry_ok e" "entry_ok c"
  shows "db_io_op_usr_ent e READ w = ((DBMS_SUCCESS, c), w\<lparr>w_next := Suc (w_next w)\<rparr>)"
proof -
  have "c \<noteq> []" using assms(6) by (auto simp: entry_ok_def sizeof_entry_def)
  then show ?thesis
    using db_read_short [OF assms(1-4)] assms(5,6) by (simp add: entry_ok_def put_at_all)
qed

lemma db_io_missing:
  assumes "calm w" "entry_type_ok e" "missing w (entry_path e)" "mode = READ \<or> mode = MODIFY"
  shows "db_io_op_usr_ent e mode w = ((DBMS_ERR_NOT_EXISTS, e), w\<lparr>w_errno := ENOENT\<rparr>)"
  using assms(2,4) open_file_missing [OF assms(1,3,4)]
  by (auto simp: db_io_op_usr_ent_def entry_type_ok_def)

lemma db_modify_entry:
  assumes "calm w" "fresh_fds w" "entry_type_ok e" "is_file w (entry_path e) q c"
    and "q \<noteq> []" "entry_ok e"
  shows "db_io_op_usr_ent e MODIFY w = ((DBMS_SUCCESS, e),
    w\<lparr>w_files := set_node q (FileI e) (w_files w), w_next := Suc (w_next w)\<rparr>)"
proof -
  obtain d w1 where al: "alloc_fd (FileD q 0) (w\<lparr>w_files := set_node q (FileI []) (w_files w)\<rparr>) = (d, w1)"
    by fastforce
  obtain w2 where "d \<noteq> -1" "write_entry d e w1 = ((DBMS_SUCCESS, e), w2)"
    "snd (sys_close d w2) = w\<lparr>w_files := set_node q (FileI e) (w_files w), w_next := Suc (w_next w)\<rparr>"
    using write_entry_fresh [OF assms(1,2,5,6) al] by blast
  then show ?thesis
    using assms(3) open_file_modify [OF assms(1,4)] al
    by (simp add: db_io_op_usr_ent_def entry_type_ok_def)
qed

lemma db_create_entry:
  assumes "calm w" "fresh_fds w" "entry_type_ok e" "resolve w (entry_path e) = Inr q"
    and "look (w_files w) q = None" "entry_ok e"
  shows "db_io_op_usr_ent e CREATE w = ((DBMS_SUCCESS, e),
    w\<lparr>w_files := set_node q (FileI e) (w_files w), w_next := Suc (w_next w)\<rparr>)"
proof -
  have q: "q \<noteq> []" using assms(5) by (auto simp: look_def)
  obtain d w1 where al: "alloc_fd (FileD q 0) (w\<lparr>w_files := set_node q (FileI []) (w_files w)\<rparr>) = (d, w1)"
    by fastforce
  obtain w2 where "d \<noteq> -1" "write_entry d e w1 = ((DBMS_SUCCESS, e), w2)"
    "snd (sys_close d w2) = w\<lparr>w_files := set_node q (FileI e) (w_files w), w_next := Suc (w_next w)\<rparr>"
    using write_entry_fresh [OF assms(1,2) q assms(6) al] by blast
  then show ?thesis
    using assms(3) open_file_create [OF assms(1,4,5)] al
    by (simp add: db_io_op_usr_ent_def entry_type_ok_def)
qed

lemma db_create_exists:
  assumes "calm w" "entry_type_ok e" "resolve w (entry_path e) = Inr q" "look (w_files w) q \<noteq> None"
  shows "db_io_op_usr_ent e CREATE w = ((DBMS_ERR_ANY, e), w\<lparr>w_errno := EEXIST\<rparr>)"
  using assms(2) open_file_exists [OF assms(1,3,4)]
  by (auto simp: db_io_op_usr_ent_def entry_type_ok_def)

end
