(* ===== verification/Services.thy ===== *)
theory Services
  imports NetUtil Dbms
begin

section \<open>services.c: the services of the server\<close>

text \<open>
  \<open>src/services.c\<close>. Each service receives its arguments from the client's socket into the
  request, works on the database, and answers. Local variables that the code reads before it
  has set them take their value from a \<open>garbage\<close> argument, which stands for what the stack
  held: a theorem for every \<open>garbage\<close> holds whatever that was. The loop over the pending
  messages may not end, so \<open>srv_connect\<close> returns an option, with \<open>None\<close> for a call that
  does not return.
\<close>

record garbage =
  g_code :: "string \<Rightarrow> u8"
  g_entry :: "string \<Rightarrow> entry_t"
  g_request :: "string \<Rightarrow> request_t"

definition garbage_ok :: "garbage \<Rightarrow> bool" where
  "garbage_ok g \<longleftrightarrow> (\<forall>v. entry_ok (g_entry g v))"

text \<open>The server's log lines on the standard output.\<close>

definition log_result :: "string \<Rightarrow> string \<Rightarrow> u8 \<Rightarrow> world \<Rightarrow> world" where
  "log_result op user server_error_code w =
     printf (''s> '' @ op @ '' '' @ user @
       (if server_error_code = SRV_SUCCESS then '' OK'' else '' FAIL'') @ [LF]) w"

definition log_sent :: "u32 \<Rightarrow> string \<Rightarrow> string \<Rightarrow> world \<Rightarrow> world" where
  "log_sent n sender user w =
     printf (''s> SEND MESSAGE '' @ show_u n @ '' FROM '' @ sender @ '' TO '' @ user @ [LF]) w"

definition log_stored :: "u32 \<Rightarrow> string \<Rightarrow> string \<Rightarrow> world \<Rightarrow> world" where
  "log_stored n sender user w =
     printf (''s> MESSAGE '' @ show_u n @ '' FROM '' @ sender @ '' TO '' @ user @ '' STORED'' @ [LF]) w"

subsection \<open>Services called by the server, served by a client's listening thread\<close>

definition aux_connect_clt_listen_thread :: "entry_t \<Rightarrow> world \<Rightarrow> (int \<times> entry_t) \<times> world" where
  "aux_connect_clt_listen_thread entry w =
     (case db_io_op_usr_ent entry READ w of ((r, entry1), w1) \<Rightarrow>
        (if r < 0 then ((DBMS_ERR_ANY, entry1), w1)
         else
           (case sys_socket w1 of (clt_listen_socket, w2) \<Rightarrow>
              CHECK_FUNC_ERROR_WITH_ERRNO clt_listen_socket ((GEN_ERR_ANY, entry1), w2)
              (case sys_connect clt_listen_socket (e_ip entry1) (e_port entry1) w2 of
                 (ret_val, w3) \<Rightarrow>
                   CHECK_FUNC_ERROR_WITH_ERRNO ret_val ((GEN_ERR_ANY, entry1), w3)
                   ((clt_listen_socket, entry1), w3)))))"

text \<open>The sends of one service, ended by the first that fails (the \<open>||\<close> of the condition).\<close>

fun send_strings :: "fd \<Rightarrow> string list \<Rightarrow> world \<Rightarrow> int \<times> world" where
  "send_strings sock [] w = (0, w)"
| "send_strings sock (s # ss) w =
     (case send_string sock s w of (r, w1) \<Rightarrow>
        (if r < 0 then (GEN_ERR_ANY, w1) else send_strings sock ss w1))"

definition clt_send_message :: "request_t \<Rightarrow> entry_t \<Rightarrow> world \<Rightarrow> (int \<times> entry_t) \<times> world" where
  "clt_send_message request entry w =
     (case aux_connect_clt_listen_thread entry w of ((clt_listen_socket, entry1), w1) \<Rightarrow>
        CHECK_FUNC_ERROR clt_listen_socket ((GEN_ERR_ANY, entry1), w1)
           (case send_strings clt_listen_socket
               [cstr (rq_op_code request), cstr (rq_message_sender request),
                show_u (rq_message_id request), cstr (rq_message_content request)] w1 of
              (r, w2) \<Rightarrow>
                (if r < 0 then ((GEN_ERR_ANY, entry1), w2)
                 else ((SRV_SUCCESS, entry1), snd (sys_close clt_listen_socket w2)))))"

definition clt_send_mess_ack :: "request_t \<Rightarrow> entry_t \<Rightarrow> world \<Rightarrow> (int \<times> entry_t) \<times> world" where
  "clt_send_mess_ack request entry w =
     (case aux_connect_clt_listen_thread entry w of ((clt_listen_socket, entry1), w1) \<Rightarrow>
        CHECK_FUNC_ERROR clt_listen_socket ((GEN_ERR_ANY, entry1), w1)
           (case send_string clt_listen_socket (cstr (rq_op_code request)) w1 of (_, w2) \<Rightarrow>
              (case send_string clt_listen_socket (show_u (rq_message_id request)) w2 of (_, w3) \<Rightarrow>
                 ((SRV_SUCCESS, entry1), snd (sys_close clt_listen_socket w3)))))"

subsection \<open>Parts of the SEND service\<close>

definition next_msg_id :: "u32 \<Rightarrow> u32" where
  "next_msg_id n = word_of_int (uint (n + 1) mod MSG_ID_MAX_VALUE)"

definition aux_send_init :: "request_t \<Rightarrow> entry_t \<Rightarrow> world \<Rightarrow> (reply_t \<times> entry_t) \<times> world" where
  "aux_send_init request entry w =
     (case db_user_exists (cstr (rq_message_sender request)) w of (sender_exists, w1) \<Rightarrow>
      (case db_user_exists (cstr (rq_recipient request)) w1 of (recipient_exists, w2) \<Rightarrow>
        (if sender_exists = 0 \<or> recipient_exists = 0 then
           ((SRV_ERR_SEND_USR_NOT_EXISTS, entry), w2)
         else if sender_exists < 0 \<or> recipient_exists < 0 then
           ((SRV_ERR_SEND_ANY, entry), w2)
         else
           (let entry1 = set_e_username (cstr (rq_recipient request)) (set_e_type ENT_TYPE_UD entry)
            in case db_io_op_usr_ent entry1 READ w2 of ((r, entry2), w3) \<Rightarrow>
                 (if r < 0 then ((SRV_ERR_SEND_ANY, entry2), w3)
                  else
                    (let entry3 = set_e_last_msg_id (next_msg_id (e_last_msg_id entry2)) entry2
                     in case db_io_op_usr_ent entry3 MODIFY w3 of ((r2, entry4), w4) \<Rightarrow>
                          (if r2 < 0 then ((SRV_ERR_SEND_ANY, entry4), w4)
                           else ((SRV_SUCCESS, entry4), w4))))))))"

definition send_message_request :: "garbage \<Rightarrow> string \<Rightarrow> string \<Rightarrow> u32 \<Rightarrow> string \<Rightarrow> request_t" where
  "send_message_request g var sender n content =
     (g_request g var)
       \<lparr>rq_op_code := strcpy_buf SEND_MESSAGE (rq_op_code (g_request g var)),
        rq_client_port := strcpy_buf sender (rq_client_port (g_request g var)),
        rq_message_id := n,
        rq_message_content := strcpy_buf content (rq_message_content (g_request g var))\<rparr>"

definition aux_send_msg_pass ::
  "garbage \<Rightarrow> request_t \<Rightarrow> reply_t \<Rightarrow> entry_t \<Rightarrow> entry_t \<Rightarrow> world \<Rightarrow> (reply_t \<times> entry_t \<times> entry_t) \<times> world"
where
  "aux_send_msg_pass g request reply recipient_entry msg_entry w =
     (let sender = cstr (rq_message_sender request);
          user = cstr (rq_recipient request);
          content = cstr (rq_message_content request);
          n = e_last_msg_id recipient_entry;
          msg_entry1 = set_e_msg_id n (set_e_msg_content content (set_e_msg_sender sender
            (set_e_username user (set_e_type ENT_TYPE_P_MSG msg_entry))))
      in if e_status recipient_entry = STATUS_CN then
           (case clt_send_message (send_message_request g ''send_msg_request'' sender n content)
               recipient_entry w of ((send_result, recipient1), w1) \<Rightarrow>
              (if send_result = SRV_SUCCESS then
                 ((reply, recipient1, msg_entry1), log_sent (e_msg_id msg_entry1) sender user w1)
               else
                 (let recipient2 = set_e_status STATUS_DCN recipient1
                  in case db_io_op_usr_ent recipient2 MODIFY w1 of ((r, recipient3), w2) \<Rightarrow>
                       ((if r < 0 then SRV_ERR_SEND_ANY else reply, recipient3, msg_entry1), w2))))
         else ((reply, recipient_entry, msg_entry1), w))"

definition aux_send_first_ack :: "fd \<Rightarrow> reply_t \<Rightarrow> u32 \<Rightarrow> world \<Rightarrow> world" where
  "aux_send_first_ack sock reply msg_id w =
     (case send_server_reply sock reply w of (r, w1) \<Rightarrow>
        (if r < 0 then w1
         else if reply = SRV_SUCCESS then snd (send_string sock (show_u msg_id) w1)
         else w1))"

subsection \<open>Delivery of pending messages\<close>

text \<open>
  The loop of \<open>aux_connect_send_pend_msgs\<close> over the variables it changes: the two requests,
  the entries of the sender, of the recipient and of the pending message.
\<close>

partial_function (option) pend_loop ::
  "request_t \<Rightarrow> request_t \<Rightarrow> entry_t \<Rightarrow> entry_t \<Rightarrow> entry_t \<Rightarrow> world \<Rightarrow> (int \<times> world) option"
where
  "pend_loop msg_req ack_req sender_entry recipient_entry pend w =
     (case db_get_pend_msg pend w of ((r, pend1), w1) \<Rightarrow>
        (if r \<noteq> DBMS_SUCCESS then Some (SRV_SUCCESS, w1)
         else
           (let msg_req1 = msg_req
                  \<lparr>rq_client_port := strcpy_buf (e_msg_sender pend1) (rq_client_port msg_req),
                   rq_message_id := e_msg_id pend1,
                   rq_message_content := strcpy_buf (e_msg_content pend1) (rq_message_content msg_req)\<rparr>;
                ack_req1 = ack_req\<lparr>rq_message_id := e_msg_id pend1\<rparr>;
                sender1 = set_e_username (e_msg_sender pend1) sender_entry
            in case clt_send_message msg_req1 recipient_entry w1 of ((sent, recipient1), w2) \<Rightarrow>
                 (if sent = SRV_SUCCESS then
                    (let w3 = log_sent (rq_message_id msg_req1) (cstr (rq_message_sender msg_req1))
                                (cstr (rq_recipient msg_req1)) w2
                     in case db_io_op_usr_ent pend1 DELETE w3 of ((_, pend2), w4) \<Rightarrow>
                          (case clt_send_mess_ack ack_req1 sender1 w4 of ((_, sender2), w5) \<Rightarrow>
                             pend_loop msg_req1 ack_req1 sender2 recipient1 pend2 w5))
                  else
                    (case db_io_op_usr_ent (set_e_status STATUS_DCN recipient1) MODIFY w2 of
                       (_, w3) \<Rightarrow> Some (SRV_ERR_SEND_ANY, w3))))))"

definition aux_connect_send_pend_msgs :: "garbage \<Rightarrow> entry_t \<Rightarrow> world \<Rightarrow> (int \<times> world) option" where
  "aux_connect_send_pend_msgs g pend_msg_entry w =
     (let m = g_request g ''pend.send_msg_request'';
          a = g_request g ''pend.send_msg_ack_request'';
          msg_req = m\<lparr>rq_op_code := strcpy_buf SEND_MESSAGE (rq_op_code m)\<rparr>;
          ack_req = a\<lparr>rq_op_code := strcpy_buf SEND_MESS_ACK (rq_op_code a)\<rparr>;
          sender_entry = set_e_type ENT_TYPE_UD (g_entry g ''pend.sender_entry'');
          recipient_entry = set_e_username (e_username pend_msg_entry)
            (set_e_type ENT_TYPE_UD (g_entry g ''pend.recipient_entry''))
      in case db_io_op_usr_ent recipient_entry READ w of ((r, recipient1), w1) \<Rightarrow>
           (if r < 0 then Some (DBMS_ERR_ANY, w1)
            else pend_loop msg_req ack_req sender_entry recipient1 pend_msg_entry w1))"

subsection \<open>Services called by the client\<close>

text \<open>\<open>if (recv_string(...) < 0) return;\<close>: the request keeps what had been stored by then.\<close>

definition srv_register :: "garbage \<Rightarrow> fd \<Rightarrow> request_t \<Rightarrow> world \<Rightarrow> request_t \<times> world" where
  "srv_register g sock request w =
     (case recv_string sock (rq_username request) w of ((r, buf), w1) \<Rightarrow>
        (let req = request\<lparr>rq_username := buf\<rparr>
         in if r < 0 then (req, w1)
            else
              (let user = cstr (rq_username req);
                   entry = set_e_last_msg_id 0 (set_e_type ENT_TYPE_UD
                     (set_e_username user (g_entry g ''register.entry'')))
               in case db_creat_usr_tbl entry w1 of ((result, _), w2) \<Rightarrow>
                    (let reply = (if result = DBMS_ERR_EXISTS then SRV_ERR_REG_USR_ALREADY_REG
                                  else SRV_SUCCESS)
                     in (req, snd (send_server_reply sock reply
                          (log_result REGISTER user reply w2)))))))"

definition srv_unregister :: "garbage \<Rightarrow> fd \<Rightarrow> request_t \<Rightarrow> world \<Rightarrow> request_t \<times> world" where
  "srv_unregister g sock request w =
     (case recv_string sock (rq_username request) w of ((r, buf), w1) \<Rightarrow>
        (let req = request\<lparr>rq_username := buf\<rparr>
         in if r < 0 then (req, w1)
            else
              (let user = cstr (rq_username req)
               in case db_user_exists user w1 of (user_exists, w2) \<Rightarrow>
                    (case (if user_exists = TRUE then
                             (case db_del_usr_tbl user w2 of (d, w3) \<Rightarrow>
                                (if d < 0 then SRV_ERR_UNREG_ANY else SRV_SUCCESS, w3))
                           else if user_exists = FALSE then (SRV_ERR_UNREG_USR_NOT_EXISTS, w2)
                           else (SRV_ERR_UNREG_ANY, w2)) of (reply, w4) \<Rightarrow>
                       (req, snd (send_server_reply sock reply
                          (log_result UNREGISTER user reply w4)))))))"

text \<open>The reply code and the database update of \<open>srv_connect\<close>, before it answers.\<close>

definition port_of :: "number option \<Rightarrow> u16" where
  "port_of number = (case number of Some (IntNum p) \<Rightarrow> ucast p | _ \<Rightarrow> 0)"

definition connect_user :: "garbage \<Rightarrow> fd \<Rightarrow> request_t \<Rightarrow> world \<Rightarrow> reply_t \<times> world" where
  "connect_user g sock req w =
     (let reply0 = g_code g ''connect.reply'';
          entry = set_e_type ENT_TYPE_UD
            (set_e_username (cstr (rq_username req)) (g_entry g ''connect.entry''))
      in case db_io_op_usr_ent entry READ w of ((io_result, entry1), w1) \<Rightarrow>
           (if io_result = DBMS_ERR_NOT_EXISTS then (SRV_ERR_CN_USR_NOT_EXISTS, w1)
            else if io_result < 0 then (SRV_ERR_CN_ANY, w1)
            else if e_status entry1 = STATUS_CN then (SRV_ERR_CN_USR_ALREADY_CN, w1)
            else
              (case str_to_num (cstr (rq_client_port req)) INT_T w1 of ((r1, tmp_port), w2) \<Rightarrow>
                 (let reply1 = (if r1 < 0 then SRV_ERR_CN_ANY else reply0)
                  in case sys_getpeername sock w2 of ((r2, sin_addr), w3) \<Rightarrow>
                       (let reply2 = (if r2 < 0 then SRV_ERR_CN_ANY else reply1)
                        in if reply2 \<noteq> SRV_ERR_CN_ANY then
                             (let entry2 = set_e_ip sin_addr
                                    (set_e_port (port_of tmp_port) (set_e_status STATUS_CN entry1))
                              in case db_io_op_usr_ent entry2 MODIFY w3 of ((io2, _), w4) \<Rightarrow>
                                   (if io2 = DBMS_ERR_NOT_EXISTS then (SRV_ERR_CN_USR_NOT_EXISTS, w4)
                                    else if io2 < 0 then (SRV_ERR_CN_ANY, w4)
                                    else (SRV_SUCCESS, w4)))
                           else (reply2, w3))))))"

definition srv_connect :: "garbage \<Rightarrow> fd \<Rightarrow> request_t \<Rightarrow> world \<Rightarrow> (request_t \<times> world) option" where
  "srv_connect g sock request w =
     (case recv_string sock (rq_username request) w of ((r, buf), w1) \<Rightarrow>
        (let req1 = request\<lparr>rq_username := buf\<rparr>
         in if r < 0 then Some (req1, w1)
            else
              (case recv_string sock (rq_client_port req1) w1 of ((r2, buf2), w2) \<Rightarrow>
                 (let req = req1\<lparr>rq_client_port := buf2\<rparr>
                  in if r2 < 0 then Some (req, w2)
                     else
                       (case connect_user g sock req w2 of (reply, w3) \<Rightarrow>
                          (let user = cstr (rq_username req);
                               w4 = snd (send_server_reply sock reply
                                      (log_result CONNECT user reply w3));
                               pend_msg_entry = set_e_username user
                                 (set_e_type ENT_TYPE_P_MSG (g_entry g ''connect.pend_msg_entry''))
                           in case aux_connect_send_pend_msgs g pend_msg_entry w4 of
                                None \<Rightarrow> None
                              | Some (_, w5) \<Rightarrow> Some (req, w5)))))))"

definition disconnect_user :: "garbage \<Rightarrow> request_t \<Rightarrow> world \<Rightarrow> reply_t \<times> world" where
  "disconnect_user g req w =
     (let entry = set_e_type ENT_TYPE_UD
            (set_e_username (cstr (rq_username req)) (g_entry g ''disconnect.entry''))
      in case db_io_op_usr_ent entry READ w of ((io_result, entry1), w1) \<Rightarrow>
           (if io_result = DBMS_ERR_NOT_EXISTS then (SRV_ERR_DCN_USR_NOT_EXISTS, w1)
            else if io_result < 0 then (SRV_ERR_DCN_ANY, w1)
            else if e_status entry1 = STATUS_DCN then (SRV_ERR_DCN_USR_NOT_CN, w1)
            else
              (let entry2 = set_e_port 0 (set_e_ip 0 (set_e_status STATUS_DCN entry1))
               in case db_io_op_usr_ent entry2 MODIFY w1 of ((io2, _), w2) \<Rightarrow>
                    (if io2 = DBMS_ERR_NOT_EXISTS then (SRV_ERR_DCN_USR_NOT_EXISTS, w2)
                     else if io2 < 0 then (SRV_ERR_DCN_ANY, w2)
                     else (SRV_SUCCESS, w2)))))"

definition srv_disconnect :: "garbage \<Rightarrow> fd \<Rightarrow> request_t \<Rightarrow> world \<Rightarrow> request_t \<times> world" where
  "srv_disconnect g sock request w =
     (case recv_string sock (rq_username request) w of ((r, buf), w1) \<Rightarrow>
        (let req = request\<lparr>rq_username := buf\<rparr>
         in if r < 0 then (req, w1)
            else
              (case disconnect_user g req w1 of (reply, w2) \<Rightarrow>
                 (req, snd (send_server_reply sock reply
                    (log_result DISCONNECT (cstr (rq_username req)) reply w2))))))"

text \<open>\<open>srv_send\<close> once its three arguments are in the request.\<close>

definition send_to_user :: "garbage \<Rightarrow> fd \<Rightarrow> request_t \<Rightarrow> world \<Rightarrow> world" where
  "send_to_user g sock req w =
     (case aux_send_init req (g_entry g ''send.recipient_entry'') w of
        ((reply, recipient_entry), w1) \<Rightarrow>
          (if reply \<noteq> SRV_SUCCESS then snd (send_server_reply sock reply w1)
           else
             (case aux_send_msg_pass g req reply recipient_entry (g_entry g ''send.msg_entry'') w1 of
                ((reply1, recipient1, msg_entry), w2) \<Rightarrow>
                  (case (if e_status recipient1 = STATUS_DCN \<or> g_code g ''send.send_msg_reply'' \<noteq> SRV_SUCCESS
                         then
                           (case db_io_op_usr_ent msg_entry CREATE w2 of ((r, msg_entry1), w3) \<Rightarrow>
                              (let reply2 = (if r < 0 then SRV_ERR_SEND_ANY else reply1)
                               in (reply2, msg_entry1,
                                   if reply2 = SRV_SUCCESS then
                                     log_stored (e_msg_id msg_entry1)
                                       (cstr (rq_message_sender req)) (cstr (rq_recipient req)) w3
                                   else w3)))
                         else (reply1, msg_entry, w2)) of
                     (reply3, msg_entry3, w4) \<Rightarrow>
                       (let w5 = aux_send_first_ack sock reply3 (e_msg_id msg_entry3) w4
                        in if e_status recipient1 = STATUS_CN then
                             (let a = g_request g ''send.send_msg_ack_request'';
                                  ack_req = a\<lparr>rq_op_code := strcpy_buf SEND_MESS_ACK (rq_op_code a),
                                              rq_message_id := e_last_msg_id recipient1\<rparr>;
                                  sender_entry = set_e_username (cstr (rq_message_sender req))
                                    (set_e_type ENT_TYPE_UD (g_entry g ''send.sender_entry''))
                              in snd (clt_send_mess_ack ack_req sender_entry w5))
                           else w5)))))"

definition srv_send :: "garbage \<Rightarrow> fd \<Rightarrow> request_t \<Rightarrow> world \<Rightarrow> request_t \<times> world" where
  "srv_send g sock request w =
     (case recv_string sock (rq_message_sender request) w of ((r, buf), w1) \<Rightarrow>
        (let req1 = request\<lparr>rq_client_port := buf\<rparr>
         in if r < 0 then (req1, w1)
            else
              (case recv_string sock (rq_recipient req1) w1 of ((r2, buf2), w2) \<Rightarrow>
                 (let req2 = req1\<lparr>rq_username := buf2\<rparr>
                  in if r2 < 0 then (req2, w2)
                     else
                       (case recv_string sock (rq_message_content req2) w2 of ((r3, buf3), w3) \<Rightarrow>
                          (let req = req2\<lparr>rq_message_content := buf3\<rparr>
                           in if r3 < 0 then (req, w3)
                              else (req, send_to_user g sock req w3)))))))"

end
