(* ===== verification/RemoveTree.thy ===== *)
theory RemoveTree
  imports DbmsUtil
begin

section \<open>What remove_recursive removes\<close>

text \<open>
  \<open>remove_recursive\<close> of \<open>src/dbms/dbmsUtil.c\<close>: without faults it removes exactly the subtree
  below its argument, in whatever order \<open>readdir\<close> lists it; with any faults its recursion
  still ends within the fuel of the model.
\<close>

subsection \<open>The subtree below a path\<close>

abbreviation below_children :: "path \<Rightarrow> string set \<Rightarrow> path \<Rightarrow> bool" where
  "below_children q ns k \<equiv> \<exists>n \<in> ns. prefix (q @ [n]) k"

lemma prune_below_file:
  assumes "files_ok f" and "look f q = Some (FileI c)" and "q \<noteq> []"
  shows "del_node q f = prune (prefix q) f"
  unfolding del_node_prune
proof (rule prune_cong)
  fix k assume "k \<in> set (map fst f)"
  then have "k \<noteq> []" "look f k \<noteq> None"
    using assms(1) look_Some_iff_key [of k f] by (auto simp: files_ok_def)
  then show "(k = q) = prefix q k"
    using files_ok_below_file [OF assms(1,2)] by (auto simp: prefix_def)
qed

lemma files_ok_prune_below: "files_ok f \<Longrightarrow> q \<noteq> [] \<Longrightarrow> files_ok (prune (prefix q) f)"
  by (rule files_ok_prune) auto

lemma look_prune_below: "q \<noteq> [] \<Longrightarrow> look (prune (prefix q) f) k = (if prefix q k then None else look f k)"
  by (rule look_prune) simp

lemma rm_entries_correct:
  assumes rec: "\<And>nm v. calm v \<Longrightarrow> files_ok (w_files v) \<Longrightarrow> order_ok (w_order v) \<Longrightarrow>
      q = w_cwd v @ split_path p \<Longrightarrow> plain_name nm \<Longrightarrow> look (w_files v) (q @ [nm]) = Some DirI \<Longrightarrow>
      (\<And>r. look (w_files v) (q @ nm # r) \<noteq> None \<Longrightarrow> length r < n) \<Longrightarrow>
      \<exists>e. rec (p @ ''/'' @ nm) v =
        Some (0, v\<lparr>w_files := prune (prefix (q @ [nm])) (w_files v), w_errno := e\<rparr>) \<and> e \<noteq> ENOENT"
    and p: "direct p" "q = w_cwd w @ split_path p"
    and w: "calm w" "files_ok (w_files w)" "order_ok (w_order w)" "w_errno w \<noteq> ENOENT"
      "look (w_files w) q = Some DirI"
    and height: "\<And>r. look (w_files w) (q @ r) \<noteq> None \<Longrightarrow> length r \<le> n"
    and es: "distinct (map fst es)"
      "\<And>nm b. (nm, b) \<in> set es \<Longrightarrow> nm \<noteq> ''.'' \<Longrightarrow> nm \<noteq> ''..'' \<Longrightarrow>
        look (w_files w) (q @ [nm]) \<noteq> None \<and> b = (look (w_files w) (q @ [nm]) = Some DirI)"
  shows "\<exists>e. rm_entries rec p es w = Some (0, w
      \<lparr>w_files := prune (below_children q (set (map fst es) - {''.'', ''..''})) (w_files w),
       w_errno := e\<rparr>) \<and> e \<noteq> ENOENT"
  using w p(2) height es
proof (induction es arbitrary: w)
  case Nil
  then show ?case by (auto simp: prune_def intro!: exI [of _ "w_errno w"])
next
  case (Cons x es)
  obtain nm b where x: "x = (nm, b)" by (cases x)
  show ?case
  proof (cases "nm = ''.'' \<or> nm = ''..''")
    case True
    have "\<exists>e. rm_entries rec p es w = Some (0, w
        \<lparr>w_files := prune (below_children q (set (map fst es) - {''.'', ''..''})) (w_files w),
         w_errno := e\<rparr>) \<and> e \<noteq> ENOENT"
    proof (rule Cons.IH)
      show "look (w_files w) (q @ [n']) \<noteq> None \<and> b' = (look (w_files w) (q @ [n']) = Some DirI)"
        if "(n', b') \<in> set es" "n' \<noteq> ''.''" "n' \<noteq> ''..''" for n' b'
        using Cons.prems(9) [of n' b'] that by simp
    qed (use Cons.prems in \<open>auto simp: x\<close>)
    moreover have "set (map fst (x # es)) - {''.'', ''..''} = set (map fst es) - {''.'', ''..''}"
      using True by (auto simp: x)
    ultimately show ?thesis
      using True by (simp add: x)
  next
    case False
    let ?p = "p @ ''/'' @ nm"
    let ?Q = "q @ [nm]"
    have nm: "look (w_files w) ?Q \<noteq> None" "b = (look (w_files w) ?Q = Some DirI)"
      using Cons.prems(9) [of nm b] False by (auto simp: x)
    have plain: "plain_name nm"
      using files_ok_plain [OF Cons.prems(2) nm(1)] by simp
    have dp: "direct ?p" "w_cwd w @ split_path ?p = ?Q"
      using direct_append [OF p(1) plain] plain Cons.prems(6)
      by (auto simp: split_path_append plain_name_def)
    let ?f = "prune (prefix ?Q) (w_files w)"
    have step: "\<exists>e. (if b then rec ?p w else Some (sys_remove ?p w)) =
        Some (0, w\<lparr>w_files := ?f, w_errno := e\<rparr>) \<and> e \<noteq> ENOENT"
    proof (cases b)
      case True
      then show ?thesis
        using rec [of w nm] Cons.prems nm plain by force
    next
      case notdir: False
      obtain i where i: "look (w_files w) ?Q = Some i"
        using nm(1) by blast
      have "i \<noteq> DirI"
        using notdir nm(2) i by blast
      then obtain c where "i = FileI c"
        by (cases i) blast+
      with i have c: "look (w_files w) ?Q = Some (FileI c)"
        by blast
      have "resolve w ?p = Inr ?Q"
        using resolve_direct_exists [OF dp(1) Cons.prems(2)] nm(1) unfolding dp(2) by blast
      then have "sys_remove ?p w = (0, w\<lparr>w_files := del_node ?Q (w_files w)\<rparr>)"
        using remove_file [OF Cons.prems(1) _ c] by blast
      then show ?thesis
        using notdir Cons.prems(4) prune_below_file [OF Cons.prems(2) c]
        by (auto intro!: exI [of _ "w_errno w"])
    qed
    then obtain e where e: "(if b then rec ?p w else Some (sys_remove ?p w)) =
        Some (0, w\<lparr>w_files := ?f, w_errno := e\<rparr>)" "e \<noteq> ENOENT"
      by blast
    let ?w = "w\<lparr>w_files := ?f, w_errno := e\<rparr>"
    have lk: "look ?f k = (if prefix ?Q k then None else look (w_files w) k)" for k
      by (rule look_prune_below) simp
    have "\<exists>e. rm_entries rec p es ?w = Some (0, ?w
        \<lparr>w_files := prune (below_children q (set (map fst es) - {''.'', ''..''})) (w_files ?w),
         w_errno := e\<rparr>) \<and> e \<noteq> ENOENT"
    proof (rule Cons.IH)
      show "files_ok (w_files ?w)"
        using files_ok_prune_below [OF Cons.prems(2)] by simp
      show "look (w_files ?w) (q @ [n']) \<noteq> None \<and> b' = (look (w_files ?w) (q @ [n']) = Some DirI)"
        if "(n', b') \<in> set es" "n' \<noteq> ''.''" "n' \<noteq> ''..''" for n' b'
      proof -
        have "n' \<noteq> nm"
          using Cons.prems(8) that(1) by (force simp: x)
        then show ?thesis
          using Cons.prems(9) [of n' b'] that by (simp add: x lk)
      qed
      show "length r \<le> n" if "look (w_files ?w) (q @ r) \<noteq> None" for r
        using Cons.prems(7) [of r] that
        by (auto simp: lk split: if_splits)
    qed (use Cons.prems e(2) lk in auto)
    then obtain e' where e': "rm_entries rec p es ?w = Some (0, ?w
        \<lparr>w_files := prune (below_children q (set (map fst es) - {''.'', ''..''})) ?f,
         w_errno := e'\<rparr>)" "e' \<noteq> ENOENT"
      by auto
    have "prune (below_children q (set (map fst es) - {''.'', ''..''})) ?f =
        prune (below_children q (set (map fst (x # es)) - {''.'', ''..''})) (w_files w)"
      unfolding prune_prune using False by (intro prune_cong) (auto simp: x)
    then show ?thesis
      using e' e(1) False by (intro exI [of _ e']) (simp add: x)
  qed
qed


lemma prune_to_root:
  assumes "files_ok f" and "look f q = Some DirI" and "q \<noteq> []"
    and "\<And>n. look f (q @ [n]) \<noteq> None \<Longrightarrow> n \<in> ns"
  shows "del_node q (prune (below_children q ns) f) = prune (prefix q) f"
    and "children (prune (below_children q ns) f) q = []"
proof -
  have below: "below_children q ns k" if k: "prefix q k" and ne: "k \<noteq> q" and there: "look f k \<noteq> None" for k
  proof -
    obtain xs where xs: "k = q @ xs"
      using k by (rule prefixE)
    then obtain n r where "xs = n # r"
      using ne by (cases xs) simp_all
    with xs have split: "k = q @ n # r"
      by simp
    then have "look f ((q @ [n]) @ r) \<noteq> None"
      using there by simp
    then have "look f (q @ [n]) \<noteq> None"
      using files_ok_below_none [OF assms(1), of "q @ [n]" r] by argo
    then have "n \<in> ns"
      by (rule assms(4))
    moreover have "prefix (q @ [n]) k"
      by (simp add: split)
    ultimately show ?thesis ..
  qed
  show "del_node q (prune (below_children q ns) f) = prune (prefix q) f"
    unfolding del_node_prune prune_prune
  proof (rule prune_cong)
    fix k assume "k \<in> set (map fst f)"
    then have "k \<noteq> []" "look f k \<noteq> None"
      using assms(1) look_Some_iff_key [of k f] by (auto simp: files_ok_def)
    then show "(below_children q ns k \<or> k = q) = prefix q k"
      using below [of k] by (auto dest: append_prefixD)
  qed
  have "x \<notin> set (children (prune (below_children q ns) f) q)" for x
    using assms(4) [of x] by (cases "look f (q @ [x])") (auto simp: set_children look_prune)
  then show "children (prune (below_children q ns) f) q = []"
    by (metis list.set_sel(1))
qed

lemma clear_errno_fields:
  "w_files (clear_errno w) = w_files w" "w_cwd (clear_errno w) = w_cwd w" "w_order (clear_errno w) = w_order w"
  "w_fates (clear_errno w) = w_fates w" "w_errno (clear_errno w) = E0"
  "w_files_update f (clear_errno w) = clear_errno (w_files_update f w)" "clear_errno w\<lparr>w_errno := e\<rparr> = w\<lparr>w_errno := e\<rparr>"
  by (simp_all add: clear_errno_def)

lemma rm_step_file:
  assumes w: "calm w" "files_ok (w_files w)" "direct p" "q = w_cwd w @ split_path p" and i: "look (w_files w) q = Some (FileI c)"
  shows "\<exists>e. rm_fuel (Suc n) p w = Some (0, w\<lparr>w_files := prune (prefix q) (w_files w), w_errno := e\<rparr>) \<and> e \<noteq> ENOENT"
proof -
  note clear_errno_fields [simp]
  have q: "q \<noteq> []" using w(4) by simp
  have res: "resolve v p = Inr q" if "w_files v = w_files w" "w_cwd v = w_cwd w" for v
    using resolve_direct_exists [OF w(3), of v] that w i by simp
  have "sys_opendir p (clear_errno w) = (None, w\<lparr>w_errno := ENOTDIR\<rparr>)"
    using opendir_file [of "clear_errno w" p q c] w(1) i res by simp
  moreover have "sys_remove p (w\<lparr>w_errno := ENOTDIR\<rparr>) =
      (0, w\<lparr>w_errno := ENOTDIR, w_files := del_node q (w_files w)\<rparr>)"
    using remove_file [of "w\<lparr>w_errno := ENOTDIR\<rparr>" p q c] w(1) i res by simp
  ultimately show ?thesis
    using prune_below_file [OF w(2) _ q] i by (auto intro!: exI [of _ ENOTDIR])
qed

text \<open>A directory whose children have been removed is removed.\<close>

lemma rm_emptied:
  assumes w: "calm w" "files_ok (w_files w)" "direct p" "q = w_cwd w @ split_path p" and i: "look (w_files w) q = Some DirI"
    and ns: "\<And>n. look (w_files w) (q @ [n]) \<noteq> None \<Longrightarrow> n \<in> ns"
  shows "sys_remove p (w\<lparr>w_files := prune (below_children q ns) (w_files w), w_errno := e\<rparr>) =
    (0, w\<lparr>w_files := prune (prefix q) (w_files w), w_errno := EISDIR\<rparr>)"
proof -
  let ?w = "w\<lparr>w_files := prune (below_children q ns) (w_files w), w_errno := e\<rparr>"
  have q: "q \<noteq> []" using w(4) by simp
  have "look (w_files ?w) q = Some DirI" using i by (simp add: look_prune)
  moreover have "files_ok (w_files ?w)"
    using files_ok_prune [OF w(2), of "below_children q ns"] by (auto intro: prefix_prefix)
  then have "resolve ?w p = Inr q"
    using resolve_direct_exists [OF w(3), of ?w] w(4) calculation by simp
  ultimately show ?thesis
    using remove_empty_dir [of ?w p q] w(1) prune_to_root [OF w(2) _ q ns] i by simp
qed

lemma rm_step:
  assumes rec: "\<And>nm v. calm v \<Longrightarrow> files_ok (w_files v) \<Longrightarrow> order_ok (w_order v) \<Longrightarrow>
      q = w_cwd v @ split_path p \<Longrightarrow> plain_name nm \<Longrightarrow> look (w_files v) (q @ [nm]) = Some DirI \<Longrightarrow>
      (\<And>r. look (w_files v) (q @ nm # r) \<noteq> None \<Longrightarrow> length r < n) \<Longrightarrow>
      \<exists>e. rm_fuel n (p @ ''/'' @ nm) v =
        Some (0, v\<lparr>w_files := prune (prefix (q @ [nm])) (w_files v), w_errno := e\<rparr>) \<and> e \<noteq> ENOENT"
    and w: "calm w" "files_ok (w_files w)" "order_ok (w_order w)" "direct p"
      "q = w_cwd w @ split_path p" "look (w_files w) q \<noteq> None"
    and height: "\<And>r. look (w_files w) (q @ r) \<noteq> None \<Longrightarrow> length r \<le> n"
  shows "\<exists>e. rm_fuel (Suc n) p w =
    Some (0, w\<lparr>w_files := prune (prefix q) (w_files w), w_errno := e\<rparr>) \<and> e \<noteq> ENOENT"
proof (cases "look (w_files w) q = Some DirI")
  case False
  then obtain c where "look (w_files w) q = Some (FileI c)"
    using w(6) inode.exhaust by (metis not_None_eq)
  then show ?thesis by (rule rm_step_file [OF w(1,2,4,5)])
next
  case dir: True
  note clear_errno_fields [simp]
  let ?w = "clear_errno w"
  let ?ns = "set (map fst (listing ?w q)) - {''.'', ''..''}"
  have "resolve ?w p = Inr q" using resolve_direct_exists [OF w(4), of ?w] w dir by simp
  then have od: "sys_opendir p ?w = (Some (listing ?w q), ?w)"
    by (rule opendir_dir [rotated]) (use w dir in auto)
  have "\<exists>e. rm_entries (rm_fuel n) p (listing ?w q) ?w = Some (0, ?w
    \<lparr>w_files := prune (below_children q ?ns) (w_files ?w), w_errno := e\<rparr>) \<and> e \<noteq> ENOENT"
  proof (rule rm_entries_correct [where n = n, OF _ w(4)])
    show "distinct (map fst (listing ?w q))"
      by (rule distinct_listing) (use w in simp_all)
    show "look (w_files ?w) (q @ [nm]) \<noteq> None \<and> b = (look (w_files ?w) (q @ [nm]) = Some DirI)"
      if "(nm, b) \<in> set (listing ?w q)" "nm \<noteq> ''.''" "nm \<noteq> ''..''" for nm b
      by (rule listing_names(1)) (use w that in auto)
  qed (use w dir height rec in auto)
  then obtain e where e: "rm_entries (rm_fuel n) p (listing ?w q) ?w = Some (0, w
    \<lparr>w_files := prune (below_children q ?ns) (w_files w), w_errno := e\<rparr>)" "e \<noteq> ENOENT"
    by (auto simp: clear_errno_def)
  have "n \<in> ?ns" if "look (w_files w) (q @ [n]) \<noteq> None" for n
    using listing_names(2) [of ?w q n] files_ok_plain [OF w(2) that, of n] that w
    by (auto simp: plain_name_def)
  then show ?thesis
    using od e rm_emptied [OF w(1,2,4,5) dir, of ?ns e] by (auto intro!: exI [of _ EISDIR])
qed

lemma rm_fuel_correct:
  assumes "calm w" "files_ok (w_files w)" "order_ok (w_order w)" "direct p"
    and "q = w_cwd w @ split_path p" "look (w_files w) q \<noteq> None"
    and "\<And>r. look (w_files w) (q @ r) \<noteq> None \<Longrightarrow> length r \<le> n"
  shows "\<exists>e. rm_fuel (Suc n) p w =
    Some (0, w\<lparr>w_files := prune (prefix q) (w_files w), w_errno := e\<rparr>) \<and> e \<noteq> ENOENT"
  using assms
proof (induction n arbitrary: p q w)
  case (0 p q w)
  show ?case
    by (rule rm_step) (use 0 in auto)
next
  case (Suc n p q w)
  show ?case
  proof (rule rm_step)
    fix nm v
    assume v: "calm v" "files_ok (w_files v)" "order_ok (w_order v)" "q = w_cwd v @ split_path p"
      "plain_name nm" "look (w_files v) (q @ [nm]) = Some DirI"
      "\<And>r. look (w_files v) (q @ nm # r) \<noteq> None \<Longrightarrow> length r < Suc n"
    have "direct (p @ ''/'' @ nm)" "split_path (p @ ''/'' @ nm) = split_path p @ [nm]"
      using direct_append [OF Suc.prems(4) v(5)] v(5) by (auto simp: split_path_append plain_name_def)
    then show "\<exists>e. rm_fuel (Suc n) (p @ ''/'' @ nm) v =
        Some (0, v\<lparr>w_files := prune (prefix (q @ [nm])) (w_files v), w_errno := e\<rparr>) \<and> e \<noteq> ENOENT"
      by (intro Suc.IH) (use v in \<open>auto simp: less_Suc_eq_le\<close>)
  qed (use Suc.prems in auto)
qed

lemma length_le_tree_depth: "k \<in> set (map fst f) \<Longrightarrow> length k \<le> tree_depth f"
  unfolding tree_depth_def by (induction f) (auto simp: le_max_iff_disj)

lemma remove_recursive_correct:
  assumes "calm w" "files_ok (w_files w)" "order_ok (w_order w)" "direct p"
    and "q = w_cwd w @ split_path p" "look (w_files w) q \<noteq> None"
  shows "\<exists>e. remove_recursive p w =
    (0, w\<lparr>w_files := prune (prefix q) (w_files w), w_errno := e\<rparr>) \<and> e \<noteq> ENOENT"
proof -
  have "length r \<le> Suc (tree_depth (w_files w))" if "look (w_files w) (q @ r) \<noteq> None" for r
  proof -
    have "q @ r \<in> set (map fst (w_files w))"
      using that look_Some_iff_key [of "q @ r" "w_files w"] assms(5) by simp
    then show ?thesis
      using length_le_tree_depth by fastforce
  qed
  then show ?thesis
    using rm_fuel_correct [OF assms, of "Suc (tree_depth (w_files w))"]
    by (auto simp: remove_recursive_def)
qed

subsection \<open>Enough fuel\<close>

text \<open>Where a path leads if all its components exist: the dot entries are resolved by name alone.\<close>

fun lexical :: "path \<Rightarrow> string list \<Rightarrow> path" where
  "lexical cur [] = cur"
| "lexical cur (c # cs) =
     (if c = [] \<or> c = ''.'' then lexical cur cs
      else if c = ''..'' then lexical (butlast cur) cs
      else lexical (cur @ [c]) cs)"

definition lexical_path :: "world \<Rightarrow> string \<Rightarrow> path" where
  "lexical_path w p = lexical (if hd p = CHR ''/'' then [] else w_cwd w) (split_path p)"

lemma walk_lexical: "walk f cur cs = Inr r \<Longrightarrow> r = lexical cur cs"
  by (induction f cur cs rule: walk.induct) (auto split: if_splits)

lemma resolve_lexical: "resolve w p = Inr q \<Longrightarrow> q = lexical_path w p \<and> p \<noteq> []"
  by (auto simp: resolve_def lexical_path_def dest: walk_lexical split: list.splits)

lemma lexical_snoc: "plain_name n \<Longrightarrow> lexical cur (cs @ [n]) = lexical cur cs @ [n]"
  by (induction cur cs rule: lexical.induct) (auto simp: plain_name_def)

lemma lexical_path_snoc:
  "p \<noteq> [] \<Longrightarrow> plain_name n \<Longrightarrow> lexical_path w (p @ ''/'' @ n) = lexical_path w p @ [n]"
  by (simp add: lexical_path_def split_path_append lexical_snoc plain_name_def)

text \<open>What the calls of \<open>remove_recursive\<close> keep, whatever their fates: no file appears.\<close>

definition shrinks :: "world \<Rightarrow> world \<Rightarrow> bool" where
  "shrinks w w' \<longleftrightarrow> set (map fst (w_files w')) \<subseteq> set (map fst (w_files w)) \<and>
     w_cwd w' = w_cwd w \<and> w_order w' = w_order w"

lemma shrinks_refl [simp]: "shrinks w w"
  by (simp add: shrinks_def)

lemma shrinks_trans: "shrinks w w1 \<Longrightarrow> shrinks w1 w2 \<Longrightarrow> shrinks w w2"
  by (auto simp: shrinks_def simp del: set_map)

lemma shrinks_errno [simp]: "shrinks w (clear_errno w)" "shrinks w (w\<lparr>w_errno := e\<rparr>)"
  by (simp_all add: shrinks_def clear_errno_def)

lemma next_fate_shrinks: "next_fate w = (ft, w1) \<Longrightarrow> shrinks w w1"
  by (auto simp: next_fate_def shrinks_def split: list.splits)

lemma opendir_shrinks:
  assumes "sys_opendir p w = (d, w')"
  shows "shrinks w w'"
    and "d = Some es \<Longrightarrow> \<exists>q. resolve w p = Inr q \<and> look (w_files w) q = Some DirI \<and> es = listing w q"
  using assms
  by (auto simp: sys_opendir_def may_fail_def failing_def next_fate_def shrinks_def resolve_cong
      listing_def resolve_def
      split: prod.splits fate.splits sum.splits option.splits inode.splits list.splits)

lemma remove_shrinks: "sys_remove p w = (r, w') \<Longrightarrow> shrinks w w'"
  by (auto simp: sys_remove_def may_fail_def failing_def next_fate_def shrinks_def del_node_prune
      keys_prune simp del: set_map
      split: prod.splits fate.splits sum.splits option.splits inode.splits list.splits if_splits)

lemma rm_entries_enough:
  assumes rec: "\<And>nm v. shrinks w v \<Longrightarrow> (nm, True) \<in> set es \<Longrightarrow> nm \<noteq> ''.'' \<Longrightarrow> nm \<noteq> ''..'' \<Longrightarrow>
      \<exists>r v'. rc (p @ ''/'' @ nm) v = Some (r, v') \<and> shrinks v v'"
  shows "shrinks w v \<Longrightarrow> \<exists>r v'. rm_entries rc p es v = Some (r, v') \<and> shrinks v v'"
  using rec
proof (induction es arbitrary: v)
  case (Cons x es)
  obtain nm b where x: "x = (nm, b)" by (cases x)
  have ih: "\<exists>r v'. rm_entries rc p es u = Some (r, v') \<and> shrinks u v'" if "shrinks w u" for u
    by (rule Cons.IH [OF that]) (use Cons.prems(2) in auto)
  show ?case
  proof (cases "nm = ''.'' \<or> nm = ''..''")
    case True
    then show ?thesis using ih [OF Cons.prems(1)] by (simp add: x)
  next
    case False
    have "\<exists>r u. (if b then rc (p @ ''/'' @ nm) v else Some (sys_remove (p @ ''/'' @ nm) v)) = Some (r, u)
        \<and> shrinks v u"
    proof (cases b)
      case True
      then show ?thesis
        using Cons.prems(2) [OF Cons.prems(1), of nm] False by (auto simp: x)
    next
      case False
      then show ?thesis
        using remove_shrinks by (cases "sys_remove (p @ ''/'' @ nm) v") auto
    qed
    then obtain r u where ru: "(if b then rc (p @ ''/'' @ nm) v else Some (sys_remove (p @ ''/'' @ nm) v)) = Some (r, u)"
      "shrinks v u" by blast
    show ?thesis
    proof (cases "r < 0")
      case True
      then show ?thesis using ru False by (simp add: x)
    next
      case nneg: False
      obtain r' v' where "rm_entries rc p es u = Some (r', v')" "shrinks u v'"
        using ih [OF shrinks_trans [OF Cons.prems(1) ru(2)]] by blast
      then show ?thesis
        using ru nneg False shrinks_trans by (auto simp: x)
    qed
  qed
qed auto

definition tame :: "world \<Rightarrow> bool" where
  "tame w \<longleftrightarrow> order_ok (w_order w) \<and>
     (\<forall>k \<in> set (map fst (w_files w)). k \<noteq> [] \<and> (\<forall>c \<in> set k. plain_name c))"

lemma tame_shrinks: "tame w \<Longrightarrow> shrinks w v \<Longrightarrow> tame v"
  unfolding tame_def shrinks_def by (auto simp del: set_map)

lemma tame_child: "tame w \<Longrightarrow> look (w_files w) (q @ [n]) \<noteq> None \<Longrightarrow> plain_name n"
  using look_Some_iff_key [of "q @ [n]" "w_files w"] by (force simp: tame_def)

lemma look_shrinks:
  "shrinks w v \<Longrightarrow> look (w_files v) q \<noteq> None \<Longrightarrow> look (w_files w) q \<noteq> None"
  using look_Some_iff_key [of q "w_files v"] look_Some_iff_key [of q "w_files w"]
  by (cases "q = []") (auto simp: shrinks_def look_def simp del: set_map)

lemma lexical_path_shrinks: "shrinks w v \<Longrightarrow> lexical_path v p = lexical_path w p"
  by (simp add: lexical_path_def shrinks_def)

lemma rm_fuel_enough:
  assumes "tame w" "p \<noteq> []" "look (w_files w) (lexical_path w p) \<noteq> None \<Longrightarrow>
      length (lexical_path w p) + n > D" "0 < n"
    and "\<forall>k \<in> set (map fst (w_files w)). length k \<le> D"
  shows "\<exists>r v. rm_fuel n p w = Some (r, v) \<and> shrinks w v"
  using assms
proof (induction n arbitrary: p w)
  case (Suc n p w)
  obtain d w1 where od: "sys_opendir p (clear_errno w) = (d, w1)"
    by (cases "sys_opendir p (clear_errno w)")
  have s1: "shrinks w w1"
    using opendir_shrinks(1) [OF od] shrinks_trans [OF shrinks_errno(1)] by blast
  have "\<exists>r v. (case d of None \<Rightarrow> Some (0, w1) | Some es \<Rightarrow> rm_entries (rm_fuel n) p es w1) = Some (r, v)
      \<and> shrinks w1 v"
  proof (cases d)
    case (Some es)
    obtain q where q: "resolve (clear_errno w) p = Inr q" "look (w_files w) q = Some DirI"
        "es = listing (clear_errno w) q"
      using opendir_shrinks(2) [OF od, of es] Some by (auto simp: clear_errno_def)
    have lq: "lexical_path w p = q"
      using resolve_lexical [OF q(1)] by (simp add: lexical_path_def clear_errno_def)
    have "\<exists>r v. rm_entries (rm_fuel n) p es w1 = Some (r, v) \<and> shrinks w1 v"
    proof (rule rm_entries_enough [OF _ shrinks_refl])
      fix nm v
      assume v: "shrinks w1 v" "(nm, True) \<in> set es" "nm \<noteq> ''.''" "nm \<noteq> ''..''"
      have lk: "look (w_files w) (q @ [nm]) \<noteq> None"
        using listing_names(1) [of "clear_errno w" nm True q] q(3) v Suc.prems(1)
        by (auto simp: tame_def clear_errno_def)
      have sv: "shrinks w v" using s1 v(1) by (rule shrinks_trans)
      have lp: "lexical_path v (p @ ''/'' @ nm) = q @ [nm]"
        using lexical_path_snoc [OF Suc.prems(2) tame_child [OF Suc.prems(1) lk], of v]
        by (simp add: lexical_path_shrinks [OF sv] lq)
      have "q @ [nm] \<in> set (map fst (w_files w))"
        using lk look_Some_iff_key by blast
      then have "length (q @ [nm]) \<le> D"
        using Suc.prems(5) by blast
      moreover have "length q + Suc n > D"
        using Suc.prems(3) q(2) lq by simp
      ultimately have "0 < n" "length (q @ [nm]) + n > D"
        by simp_all
      then show "\<exists>r v'. rm_fuel n (p @ ''/'' @ nm) v = Some (r, v') \<and> shrinks v v'"
        using Suc.prems(2,5) tame_shrinks [OF Suc.prems(1) sv] sv lp
        by (intro Suc.IH) (auto simp: shrinks_def simp del: set_map)
    qed
    then show ?thesis using Some by simp
  qed auto
  then obtain r v where rv: "(case d of None \<Rightarrow> Some (0, w1) | Some es \<Rightarrow> rm_entries (rm_fuel n) p es w1) = Some (r, v)"
    "shrinks w1 v" by blast
  obtain r2 v2 where rm: "sys_remove p v = (r2, v2)" by fastforce
  note s2 = shrinks_trans [OF s1 rv(2)]
  show ?case
    using rv(1) od rm s2 shrinks_trans [OF s2 remove_shrinks [OF rm]] by auto
qed simp

lemma remove_recursive_fuel_run:
  assumes "tame w"
  shows "\<exists>r v. rm_fuel (Suc (Suc (tree_depth (w_files w)))) p w = Some (r, v) \<and> shrinks w v"
proof (cases "p = []")
  case True
  have "resolve u [] = Inl ENOENT" for u
    by (simp add: resolve_def)
  then have "fst (sys_opendir [] u) = None" for u
    by (auto simp: sys_opendir_def may_fail_def failing_def split: prod.splits fate.splits)
  then obtain w1 where od: "sys_opendir p (clear_errno w) = (None, w1)"
    using True by (metis prod.collapse)
  have s1: "shrinks w w1"
    using opendir_shrinks(1) [OF od] shrinks_trans [OF shrinks_errno(1)] by blast
  obtain r2 v2 where rm: "sys_remove p w1 = (r2, v2)" by fastforce
  then show ?thesis
    using od s1 shrinks_trans [OF s1 remove_shrinks [OF rm]] by auto
next
  case False
  then show ?thesis
    using assms length_le_tree_depth
    by (intro rm_fuel_enough [where D = "tree_depth (w_files w)"]) auto
qed

lemma remove_recursive_missing_file:
  assumes "calm w" and "resolve w p = Inr q" and "look (w_files w) q = None"
  shows "remove_recursive p w = (DBMS_ERR_NOT_EXISTS, w\<lparr>w_errno := ENOENT\<rparr>)"
proof -
  have "resolve (clear_errno w) p = Inr q"
    using assms(2) resolve_cong [of "clear_errno w" w p] by (simp add: clear_errno_def)
  then have "sys_opendir p (clear_errno w) = (None, w\<lparr>w_errno := ENOENT\<rparr>)"
    using assms opendir_missing [of "clear_errno w" p q] by (simp add: clear_errno_def)
  then show ?thesis
    by (simp add: remove_recursive_def)
qed

end
