(* ===== verification/UserStore.thy ===== *)
theory UserStore
  imports RemoveTree Dbms
begin

section \<open>The database as a map of accounts\<close>

text \<open>
  The abstract specification of the database component: a partial map from user names to
  accounts with their pending messages, represented by the file tree below \<open>users\<close>. Each
  operation of \<open>src/dbms/dbms.c\<close> is shown to act on the file tree as the corresponding
  update acts on the map, in a world without injected faults.
\<close>

subsection \<open>Paths of a user\<close>

definition valid_user :: "string \<Rightarrow> bool" where
  "valid_user u \<longleftrightarrow> NUL \<notin> set u \<and> CHR ''/'' \<notin> set u \<and> length u \<le> 249"

definition db_root :: "world \<Rightarrow> path" where
  "db_root w = w_cwd w @ [DB_DIR]"

definition table :: "world \<Rightarrow> string \<Rightarrow> path \<Rightarrow> inode option" where
  "table w u r = look (w_files w) (w_cwd w @ DB_DIR # (u @ ''-table'') # r)"

lemma plain_consts [simp]: "plain_name DB_DIR" "plain_name USERDATA_ENTRY" "plain_name PEND_MSGS_TABLE"
  by (simp_all add: plain_name_def DB_DIR_def USERDATA_ENTRY_def PEND_MSGS_TABLE_def NAME_MAX_def)

lemma plain_table [simp]: "valid_user u \<Longrightarrow> plain_name (u @ ''-table'')"
proof -
  assume u: "valid_user u"
  have "u @ ''-table'' \<noteq> s" if "length s < 6" for s
    using that by auto
  from this [of "[]"] this [of "''.''"] this [of "''..''"] show ?thesis
    using u by (simp add: plain_name_def valid_user_def NAME_MAX_def)
qed

lemma plain_show_u [simp]: "plain_name (show_u n)"
proof -
  have "CHR ''/'' \<notin> set (show_u n)" "CHR ''.'' \<notin> set (show_u n)"
    using show_u_digits [of _ n] digit_char_facts(7,8) by metis+
  moreover have "length (show_u n) \<le> NAME_MAX"
    using length_show_u [of n] by (simp add: NAME_MAX_def MSG_ID_MAX_STR_SIZE_def)
  ultimately show ?thesis
    by (auto simp: plain_name_def)
qed

lemma split_paths:
  assumes "valid_user u"
  shows "split_path (user_table_path u) = [DB_DIR, u @ ''-table'']"
    and "split_path (pend_msgs_path u) = [DB_DIR, u @ ''-table'', PEND_MSGS_TABLE]"
    and "split_path (userdata_path u) = [DB_DIR, u @ ''-table'', USERDATA_ENTRY]"
    and "split_path (pend_msg_path u n) = [DB_DIR, u @ ''-table'', PEND_MSGS_TABLE, show_u n]"
proof -
  have d: "split_path DB_DIR = [DB_DIR]"
    by (rule split_path_simple) (simp add: DB_DIR_def)
  have t: "CHR ''/'' \<notin> set (u @ ''-table'')" "CHR ''/'' \<notin> set PEND_MSGS_TABLE"
      "CHR ''/'' \<notin> set USERDATA_ENTRY" "CHR ''/'' \<notin> set (show_u n)"
    using assms plain_show_u [of n]
    by (auto simp: valid_user_def PEND_MSGS_TABLE_def USERDATA_ENTRY_def plain_name_def)
  show a: "split_path (user_table_path u) = [DB_DIR, u @ ''-table'']"
    using split_path_append [OF t(1), of DB_DIR] d by (simp add: user_table_path_def)
  show b: "split_path (pend_msgs_path u) = [DB_DIR, u @ ''-table'', PEND_MSGS_TABLE]"
    using split_path_append [OF t(2), of "user_table_path u"] a by (simp add: pend_msgs_path_def)
  show "split_path (userdata_path u) = [DB_DIR, u @ ''-table'', USERDATA_ENTRY]"
    using split_path_append [OF t(3), of "user_table_path u"] a by (simp add: userdata_path_def)
  show "split_path (pend_msg_path u n) = [DB_DIR, u @ ''-table'', PEND_MSGS_TABLE, show_u n]"
    using split_path_append [OF t(4), of "pend_msgs_path u"] b by (simp add: pend_msg_path_def)
qed

lemma direct_paths [simp]:
  assumes "valid_user u"
  shows "direct (user_table_path u)" "direct (pend_msgs_path u)" "direct (userdata_path u)"
    "direct (pend_msg_path u n)"
  using assms by (simp_all add: direct_def split_paths)

subsection \<open>Accounts\<close>

record account =
  a_status :: u8
  a_ip :: u32
  a_port :: u16
  a_last :: u32
  a_pend :: "u32 \<Rightarrow> (string \<times> string) option"

type_synonym db = "string \<Rightarrow> account option"

definition entry_account :: "entry_t \<Rightarrow> account" where
  "entry_account e = \<lparr>a_status = e_status e, a_ip = e_ip e, a_port = e_port e,
     a_last = e_last_msg_id e, a_pend = Map.empty\<rparr>"

definition user_entry :: "string \<Rightarrow> entry_t \<Rightarrow> account \<Rightarrow> bool" where
  "user_entry u e a \<longleftrightarrow> entry_ok e \<and> e_username e = u \<and> e_type e = ENT_TYPE_UD \<and>
     entry_account e = a\<lparr>a_pend := Map.empty\<rparr>"

definition msg_entry :: "string \<Rightarrow> u32 \<Rightarrow> string \<times> string \<Rightarrow> entry_t \<Rightarrow> bool" where
  "msg_entry u n m e \<longleftrightarrow> entry_ok e \<and> e_username e = u \<and> e_type e = ENT_TYPE_P_MSG \<and>
     e_msg_id e = n \<and> m = (e_msg_sender e, e_msg_content e) \<and>
     valid_user (fst m) \<and> fits_array 256 (snd m)"

definition pend_files :: "string \<Rightarrow> (path \<Rightarrow> inode option) \<Rightarrow> (u32 \<Rightarrow> (string \<times> string) option) \<Rightarrow> bool" where
  "pend_files u T pend \<longleftrightarrow>
     (\<forall>name. T [PEND_MSGS_TABLE, name] \<noteq> None \<longrightarrow> (\<exists>n. name = show_u n \<and> pend n \<noteq> None)) \<and>
     (\<forall>n m. pend n = Some m \<longrightarrow>
        (\<exists>e. T [PEND_MSGS_TABLE, show_u n] = Some (FileI e) \<and> msg_entry u n m e))"

definition account_files :: "string \<Rightarrow> (path \<Rightarrow> inode option) \<Rightarrow> account \<Rightarrow> bool" where
  "account_files u T a \<longleftrightarrow> T [] = Some DirI \<and>
     (\<exists>e. T [USERDATA_ENTRY] = Some (FileI e) \<and> user_entry u e a) \<and>
     T [PEND_MSGS_TABLE] = Some DirI \<and> pend_files u T (a_pend a)"

definition world_ok :: "world \<Rightarrow> bool" where
  "world_ok w \<longleftrightarrow> files_ok (w_files w) \<and> order_ok (w_order w) \<and> fresh_fds w \<and> calm w \<and>
     look (w_files w) (w_cwd w @ [DB_DIR]) = Some DirI"

definition slot_files :: "string \<Rightarrow> (path \<Rightarrow> inode option) \<Rightarrow> account option \<Rightarrow> bool" where
  "slot_files u T x \<longleftrightarrow> (case x of None \<Rightarrow> T [] = None | Some a \<Rightarrow> account_files u T a)"

lemma slot_files_simps [simp]:
  "slot_files u T None \<longleftrightarrow> T [] = None" "slot_files u T (Some a) \<longleftrightarrow> account_files u T a"
  by (simp_all add: slot_files_def)

definition db_rep :: "world \<Rightarrow> db \<Rightarrow> bool" where
  "db_rep w db \<longleftrightarrow> world_ok w \<and> (\<forall>u \<in> dom db. valid_user u) \<and>
     (\<forall>u. valid_user u \<longrightarrow> slot_files u (table w u) (db u))"

subsection \<open>How the paths resolve\<close>

lemma resolve_walk: "direct p \<Longrightarrow> resolve w p = walk (w_files w) (w_cwd w) (split_path p)"
  using direct_nonempty [of p] by (auto simp: resolve_def simp del: split_path.simps)

lemma world_ok_dirs:
  assumes "world_ok w"
  shows "look (w_files w) (w_cwd w) = Some DirI" "look (w_files w) (w_cwd w @ [DB_DIR]) = Some DirI"
  using assms files_ok_parent [of "w_files w" "w_cwd w" DB_DIR] by (auto simp: world_ok_def)

lemma resolve_user_table:
  "world_ok w \<Longrightarrow> valid_user u \<Longrightarrow>
    resolve w (user_table_path u) = Inr (w_cwd w @ [DB_DIR, u @ ''-table''])"
  using world_ok_dirs [of w] by (simp add: resolve_walk split_paths walk_plain del: walk.simps) simp

lemma resolve_in_table:
  assumes "world_ok w" and "valid_user u" and "table w u [] = Some DirI"
  shows "resolve w (userdata_path u) = Inr (w_cwd w @ [DB_DIR, u @ ''-table'', USERDATA_ENTRY])"
    and "resolve w (pend_msgs_path u) = Inr (w_cwd w @ [DB_DIR, u @ ''-table'', PEND_MSGS_TABLE])"
    and "table w u [PEND_MSGS_TABLE] = Some DirI \<Longrightarrow> resolve w (pend_msg_path u n) =
      Inr (w_cwd w @ [DB_DIR, u @ ''-table'', PEND_MSGS_TABLE, show_u n])"
  using world_ok_dirs [OF assms(1)] assms(2,3)
  by (simp_all add: resolve_walk split_paths walk_plain table_def del: walk.simps) simp_all

lemma resolve_no_table:
  assumes "world_ok w" and "valid_user u" and "table w u [] = None"
  shows "resolve w (userdata_path u) = Inl ENOENT"
    and "resolve w (pend_msgs_path u) = Inl ENOENT"
    and "resolve w (pend_msg_path u n) = Inl ENOENT"
proof -
  have "walk (w_files w) (w_cwd w @ [DB_DIR, u @ ''-table'']) (c # cs) = Inl ENOENT" for c cs
    using assms(3) by (simp add: table_def)
  then show "resolve w (userdata_path u) = Inl ENOENT" "resolve w (pend_msgs_path u) = Inl ENOENT"
    "resolve w (pend_msg_path u n) = Inl ENOENT"
    using world_ok_dirs [OF assms(1)] assms(2)
    by (simp_all add: resolve_walk split_paths walk_plain del: walk.simps)
qed

subsection \<open>What keeps the representation\<close>

lemma table_set_node [simp]:
  "table (w\<lparr>w_files := set_node (w_cwd w @ DB_DIR # (u @ ''-table'') # r) i (w_files w)\<rparr>) v s =
    (if v = u \<and> s = r then Some i else table w v s)"
  by (auto simp: table_def look_set_node)

lemma table_cong:
  "w_files w' = w_files w \<Longrightarrow> w_cwd w' = w_cwd w \<Longrightarrow> table w' = table w"
  by (intro ext) (simp add: table_def)

lemma world_ok_cong:
  assumes "world_ok w" "w_files w' = w_files w" "w_cwd w' = w_cwd w" "w_order w' = w_order w"
    "calm w'" "fresh_fds w'"
  shows "world_ok w'"
  using assms by (simp add: world_ok_def)

lemma db_rep_cong:
  assumes "db_rep w db" "w_files w' = w_files w" "w_cwd w' = w_cwd w" "w_order w' = w_order w"
    "calm w'" "fresh_fds w'"
  shows "db_rep w' db"
  using assms world_ok_cong [of w w'] table_cong [of w' w] by (simp add: db_rep_def)

lemma db_rep_change:
  assumes "db_rep w db" and "valid_user u" and "world_ok w'"
    and "\<And>v s. v \<noteq> u \<Longrightarrow> table w' v s = table w v s"
    and "slot_files u (table w' u) x"
  shows "db_rep w' (db(u := x))"
proof -
  have "table w' v = table w v" if "v \<noteq> u" for v
    using assms(4) [OF that] by auto
  then show ?thesis
    using assms(1,2,3,5) by (auto simp: db_rep_def split: if_splits)
qed

lemma fresh_fds_simps [simp]:
  "fresh_fds w \<Longrightarrow> fresh_fds (w\<lparr>w_next := Suc (w_next w)\<rparr>)"
  "fresh_fds (w\<lparr>w_files := f\<rparr>) = fresh_fds w" "fresh_fds (w\<lparr>w_errno := e\<rparr>) = fresh_fds w"
  "fresh_fds (w\<lparr>w_in := i\<rparr>) = fresh_fds w" "fresh_fds (w\<lparr>w_out := i\<rparr>) = fresh_fds w"
  "fresh_fds (w\<lparr>w_log := l\<rparr>) = fresh_fds w" "fresh_fds (w\<lparr>w_dest := l'\<rparr>) = fresh_fds w"
  by (simp_all add: fresh_fds_def)

lemma world_ok_set_node:
  assumes "world_ok w" and "look (w_files w) q = Some DirI" and "plain_name n"
    and "look (w_files w) (q @ [n]) = Some DirI \<Longrightarrow> i = DirI"
  shows "world_ok (w\<lparr>w_files := set_node (q @ [n]) i (w_files w)\<rparr>)"
  using assms files_ok_set_node [OF _ assms(2-4)]
  by (auto simp: world_ok_def look_set_node)

lemma world_ok_next:
  "world_ok w \<Longrightarrow> world_ok (w\<lparr>w_next := Suc (w_next w)\<rparr>)" "world_ok (w\<lparr>w_errno := e\<rparr>) = world_ok w"
  by (simp_all add: world_ok_def)

lemma db_rep_simps [simp]:
  "db_rep w db \<Longrightarrow> db_rep (w\<lparr>w_next := Suc (w_next w)\<rparr>) db"
  "db_rep w db \<Longrightarrow> db_rep (w\<lparr>w_errno := e\<rparr>) db"
  using db_rep_cong [of w db "w\<lparr>w_next := Suc (w_next w)\<rparr>"] db_rep_cong [of w db "w\<lparr>w_errno := e\<rparr>"]
  by (simp_all add: db_rep_def world_ok_def)

lemma db_rep_user:
  assumes "db_rep w db" and "valid_user u"
  shows "db u = None \<Longrightarrow> table w u [] = None"
    and "db u = Some a \<Longrightarrow> account_files u (table w u) a"
    and "world_ok w"
  using assms by (auto simp: db_rep_def dest!: spec [of _ u])

subsection \<open>The operations on the map\<close>

lemma open_directory_there:
  assumes "calm w" and "resolve w p = Inr q" and "look (w_files w) q = Some DirI"
    and "mode = READ \<or> mode = CREATE \<or> mode = OVERWRITE"
  shows "open_directory p mode w =
    ((if mode = CREATE then DBMS_ERR_EXISTS else DBMS_SUCCESS, Some (listing w q)), clear_errno w)"
proof -
  have "sys_opendir p (clear_errno w) = (Some (listing (clear_errno w) q), clear_errno w)"
    using assms resolve_cong [of "clear_errno w" w p]
    by (intro opendir_dir) (simp_all add: clear_errno_def)
  moreover have "listing (clear_errno w) q = listing w q"
    by (rule listing_cong) (simp_all add: clear_errno_def)
  ultimately show ?thesis
    using assms(4) by (auto simp: open_directory_def)
qed

lemma opendir_gone:
  assumes "calm w" and "missing w p"
  shows "sys_opendir p (clear_errno w) = (None, w\<lparr>w_errno := ENOENT\<rparr>)"
  using assms resolve_cong [of "clear_errno w" w p]
  by (auto simp: missing_def clear_errno_def sys_opendir_def may_fail_calm failing_def)

lemma open_directory_gone:
  assumes "calm w" and "missing w p"
  shows "open_directory p READ w = ((DBMS_ERR_NOT_EXISTS, None), w\<lparr>w_errno := ENOENT\<rparr>)"
  using opendir_gone [OF assms] by (simp add: open_directory_def)

lemma open_directory_new:
  assumes "calm w" and "files_ok (w_files w)" and "direct p"
    and "resolve w p = Inr q" and "look (w_files w) q = None"
    and q: "q = w_cwd w @ split_path p"
    and parent: "look (w_files w) (w_cwd w @ butlast (split_path p)) = Some DirI"
    and mode: "mode = CREATE \<or> mode = OVERWRITE"
  shows "\<exists>es. open_directory p mode w =
    ((DBMS_SUCCESS, Some es), w\<lparr>w_files := set_node q DirI (w_files w), w_errno := ENOENT\<rparr>)"
proof -
  let ?w1 = "w\<lparr>w_errno := ENOENT\<rparr>"
  let ?w2 = "w\<lparr>w_files := set_node q DirI (w_files w), w_errno := ENOENT\<rparr>"
  have qn: "q \<noteq> []" and q': "q = (w_cwd w @ butlast (split_path p)) @ [last (split_path p)]"
    using q by simp_all
  have "plain_name (last (split_path p))"
    using assms(3) by (simp add: direct_def)
  then have ok: "files_ok (w_files ?w2)"
    using files_ok_set_node [OF assms(2) parent, of "last (split_path p)" DirI] q' by simp
  have "sys_mkdir p ?w1 = (0, ?w2)"
    using mkdir_new [of ?w1 p q] assms(1,4,5) resolve_cong [of ?w1 w p] by simp
  moreover have "sys_opendir p ?w2 = (Some (listing ?w2 q), ?w2)"
    using resolve_direct_exists [OF assms(3) ok] q qn assms(1)
    by (intro opendir_dir) (simp_all add: look_set_node)
  ultimately show ?thesis
    using opendir_gone [OF assms(1), of p] assms(4,5) mode
    by (auto simp: open_directory_def missing_def)
qed

text \<open>What an operation on the database may change: files, \<open>errno\<close>, the next descriptor number.\<close>

definition db_only :: "world \<Rightarrow> world \<Rightarrow> bool" where
  "db_only w w' \<longleftrightarrow> w' = w\<lparr>w_files := w_files w', w_errno := w_errno w', w_next := w_next w'\<rparr> \<and>
     w_next w \<le> w_next w'"

lemma db_only_refl [simp]: "db_only w w"
  by (simp add: db_only_def)

lemma db_only_updates [simp]:
  "db_only w (w'\<lparr>w_files := f\<rparr>) = db_only w w'" "db_only w (w'\<lparr>w_errno := e\<rparr>) = db_only w w'"
  "db_only w w' \<Longrightarrow> db_only w (w'\<lparr>w_next := Suc (w_next w')\<rparr>)"
  "db_only w (clear_errno w') = db_only w w'"
  unfolding clear_errno_def
  unfolding db_only_def by (cases w; cases w'; auto)+

lemma db_only_trans: "db_only w w1 \<Longrightarrow> db_only w1 w2 \<Longrightarrow> db_only w w2"
  unfolding db_only_def by (cases w; cases w1; cases w2; auto)

lemma db_only_fields:
  assumes "db_only w w'"
  shows "w_cwd w' = w_cwd w" "w_fds w' = w_fds w" "w_in w' = w_in w" "w_out w' = w_out w"
    "w_fates w' = w_fates w" "w_dest w' = w_dest w" "w_log w' = w_log w" "w_order w' = w_order w"
    "w_accepts w' = w_accepts w" "w_peer_ip w' = w_peer_ip w" "w_strtof w' = w_strtof w"
    "w_next w \<le> w_next w'"
  using assms unfolding db_only_def by (cases w; cases w'; auto)+

lemma user_exists_refines:
  assumes "db_rep w db" and "valid_user u"
  shows "\<exists>e. db_user_exists u w = (of_bool (db u \<noteq> None), w\<lparr>w_errno := e\<rparr>)"
proof (cases "db u")
  case None
  then have "table w u [] = None" and wo: "world_ok w"
    using db_rep_user [OF assms] by auto
  then have "missing w (user_table_path u)"
    using resolve_user_table [OF _ assms(2)] by (auto simp: missing_def table_def)
  then show ?thesis
    using open_directory_gone [of w] wo None by (auto simp: db_user_exists_def world_ok_def)
next
  case (Some a)
  then have "table w u [] = Some DirI" and wo: "world_ok w"
    using db_rep_user [OF assms] by (auto simp: account_files_def)
  then have "look (w_files w) (w_cwd w @ [DB_DIR, u @ ''-table'']) = Some DirI"
    by (simp add: table_def)
  then show ?thesis
    using open_directory_there [OF _ resolve_user_table [OF wo assms(2)], of READ] wo Some
    by (auto simp: db_user_exists_def world_ok_def clear_errno_def)
qed

lemma create_user_exists:
  assumes "db_rep w db" and "valid_user (e_username e)" and "db (e_username e) \<noteq> None"
  shows "\<exists>x. db_creat_usr_tbl e w = ((DBMS_ERR_EXISTS, e), w\<lparr>w_errno := x\<rparr>)"
proof -
  let ?u = "e_username e"
  obtain a where "db ?u = Some a"
    using assms(3) by blast
  then have "table w ?u [] = Some DirI" and wo: "world_ok w"
    using db_rep_user [OF assms(1,2)] by (auto simp: account_files_def)
  then have "look (w_files w) (w_cwd w @ [DB_DIR, ?u @ ''-table'']) = Some DirI"
    by (simp add: table_def)
  then show ?thesis
    using open_directory_there [OF _ resolve_user_table [OF wo assms(2)], of CREATE] wo
    by (auto simp: db_creat_usr_tbl_def world_ok_def clear_errno_def)
qed

text \<open>The three files of a new user, one after the other.\<close>

lemma make_table:
  assumes wo: "world_ok w" and u: "valid_user u" and none: "table w u [] = None"
  shows "\<exists>es w'. open_directory (user_table_path u) CREATE w = ((DBMS_SUCCESS, Some es), w') \<and> world_ok w' \<and> db_only w w' \<and>
    (\<forall>v s. table w' v s = (if v = u \<and> s = [] then Some DirI else table w v s))"
proof -
  let ?t = "w_cwd w @ [DB_DIR, u @ ''-table'']"
  let ?w = "w\<lparr>w_files := set_node ?t DirI (w_files w), w_errno := ENOENT\<rparr>"
  have "\<exists>es. open_directory (user_table_path u) CREATE w = ((DBMS_SUCCESS, Some es), ?w)"
  proof (rule open_directory_new)
    show "look (w_files w) ?t = None"
      using none by (simp add: table_def)
    show "look (w_files w) (w_cwd w @ butlast (split_path (user_table_path u))) = Some DirI"
      using world_ok_dirs [OF wo] u by (simp add: split_paths)
  qed (use wo u resolve_user_table [OF wo u] in \<open>simp_all add: world_ok_def split_paths\<close>)
  moreover have "table ?w v s = (if v = u \<and> s = [] then Some DirI else table w v s)" for v s
    using table_set_node [of w u "[]" DirI v s] by (simp add: table_def)
  moreover have "world_ok ?w"
    using world_ok_set_node [OF wo world_ok_dirs(2) [OF wo] plain_table [OF u], of DirI] by (simp add: world_ok_next)
  moreover have "db_only w ?w" by simp
  ultimately show ?thesis by blast
qed

lemma make_userdata:
  assumes wo: "world_ok w" and u: "e_username e = u" "valid_user u" and e: "e_type e = ENT_TYPE_UD" "entry_ok e"
    and t: "table w u [] = Some DirI" "table w u [USERDATA_ENTRY] = None"
  shows "\<exists>w'. db_io_op_usr_ent e CREATE w = ((DBMS_SUCCESS, e), w') \<and> world_ok w' \<and> db_only w w' \<and>
    (\<forall>v s. table w' v s = (if v = u \<and> s = [USERDATA_ENTRY] then Some (FileI e) else table w v s))"
proof -
  let ?t = "w_cwd w @ [DB_DIR, u @ ''-table'']"
  let ?d = "?t @ [USERDATA_ENTRY]"
  let ?w = "w\<lparr>w_files := set_node ?d (FileI e) (w_files w), w_next := Suc (w_next w)\<rparr>"
  have look: "look (w_files w) ?t = Some DirI" "look (w_files w) ?d = None" using t by (simp_all add: table_def)
  have "db_io_op_usr_ent e CREATE w = ((DBMS_SUCCESS, e), ?w)"
  proof (rule db_create_entry)
    show "resolve w (entry_path e) = Inr ?d"
      using resolve_in_table(1) [OF wo u(2)] t(1) e(1) u(1) by (simp add: entry_path_def)
  qed (use look wo e in \<open>auto simp: world_ok_def entry_type_ok_def\<close>)
  moreover have "table ?w v s = (if v = u \<and> s = [USERDATA_ENTRY] then Some (FileI e) else table w v s)" for v s
    using table_set_node [of w u "[USERDATA_ENTRY]" "FileI e" v s] by (simp add: table_def)
  moreover have "world_ok ?w"
    using world_ok_next(1) [OF world_ok_set_node [OF wo look(1) plain_consts(2), of "FileI e"]] look(2) by simp
  moreover have "db_only w ?w" by (cases w) (simp add: db_only_def)
  ultimately show ?thesis by blast
qed

lemma make_pend_msgs:
  assumes wo: "world_ok w" and u: "valid_user u"
    and t: "table w u [] = Some DirI" "table w u [PEND_MSGS_TABLE] = None"
  shows "\<exists>es w'. open_directory (pend_msgs_path u) CREATE w = ((DBMS_SUCCESS, Some es), w') \<and> world_ok w' \<and> db_only w w' \<and>
    (\<forall>v s. table w' v s = (if v = u \<and> s = [PEND_MSGS_TABLE] then Some DirI else table w v s))"
proof -
  let ?t = "w_cwd w @ [DB_DIR, u @ ''-table'']"
  let ?p = "?t @ [PEND_MSGS_TABLE]"
  let ?w = "w\<lparr>w_files := set_node ?p DirI (w_files w), w_errno := ENOENT\<rparr>"
  have look: "look (w_files w) ?t = Some DirI" "look (w_files w) ?p = None" using t by (simp_all add: table_def)
  have "\<exists>es. open_directory (pend_msgs_path u) CREATE w = ((DBMS_SUCCESS, Some es), ?w)"
  proof (rule open_directory_new)
    show "look (w_files w) (w_cwd w @ butlast (split_path (pend_msgs_path u))) = Some DirI"
      using look(1) u by (simp add: split_paths)
  qed (use wo u look resolve_in_table(2) [OF wo u] t(1) in \<open>simp_all add: world_ok_def split_paths\<close>)
  moreover have "table ?w v s = (if v = u \<and> s = [PEND_MSGS_TABLE] then Some DirI else table w v s)" for v s
    using table_set_node [of w u "[PEND_MSGS_TABLE]" DirI v s] by (simp add: table_def)
  moreover have "world_ok ?w"
    using world_ok_set_node [OF wo look(1) plain_consts(3), of DirI] by (simp add: world_ok_next)
  moreover have "db_only w ?w" by simp
  ultimately show ?thesis by blast
qed

lemma create_user_refines:
  assumes rep: "db_rep w db" and u: "e_username e = u" "valid_user u" and new: "db u = None"
    and e: "e_type e = ENT_TYPE_UD" "entry_ok e"
  shows "\<exists>w'. db_creat_usr_tbl e w = ((DBMS_SUCCESS, e), w') \<and> db_only w w' \<and>
    db_rep w' (db(u \<mapsto> entry_account e))"
proof -
  have wo: "world_ok w" and none: "table w u [] = None"
    using db_rep_user [OF rep u(2)] new by auto
  have below: "table w u r = None" for r
    using files_ok_below_none [of "w_files w" "w_cwd w @ [DB_DIR, u @ ''-table'']" r] wo none
    by (simp add: table_def world_ok_def)
  have ne: "PEND_MSGS_TABLE \<noteq> USERDATA_ENTRY" by (simp add: PEND_MSGS_TABLE_def USERDATA_ENTRY_def)
  obtain es1 w1 where w1: "open_directory (user_table_path u) CREATE w = ((DBMS_SUCCESS, Some es1), w1)" "world_ok w1"
      "db_only w w1" "\<And>v s. table w1 v s = (if v = u \<and> s = [] then Some DirI else table w v s)"
    using make_table [OF wo u(2) none] by blast
  obtain w2 where w2: "db_io_op_usr_ent e CREATE w1 = ((DBMS_SUCCESS, e), w2)" "world_ok w2" "db_only w1 w2"
      "\<And>v s. table w2 v s = (if v = u \<and> s = [USERDATA_ENTRY] then Some (FileI e) else table w1 v s)"
    using make_userdata [OF w1(2) u e] w1(4) below by auto
  obtain es3 w3 where w3: "open_directory (pend_msgs_path u) CREATE w2 = ((DBMS_SUCCESS, Some es3), w3)" "world_ok w3"
      "db_only w2 w3" "\<And>v s. table w3 v s = (if v = u \<and> s = [PEND_MSGS_TABLE] then Some DirI else table w2 v s)"
    using make_pend_msgs [OF w2(2) u(2)] w2(4) w1(4) below ne by auto
  have "account_files u (table w3 u) (entry_account e)"
    using below ne u e
    by (auto simp: account_files_def w3(4) w2(4) w1(4) pend_files_def user_entry_def entry_account_def)
  then have "db_rep w3 (db(u \<mapsto> entry_account e))"
    by (intro db_rep_change [OF rep u(2) w3(2)]) (auto simp: w3(4) w2(4) w1(4))
  moreover have "db_only w w3"
    by (rule db_only_trans [OF db_only_trans [OF w1(3) w2(3)] w3(3)])
  moreover have "db_creat_usr_tbl e w = ((DBMS_SUCCESS, e), w3)"
    using w1(1) w2(1) w3(1) u by (simp add: db_creat_usr_tbl_def)
  ultimately show ?thesis by blast
qed

lemma delete_user_refines:
  assumes rep: "db_rep w db" and u: "valid_user u" and old: "db u \<noteq> None"
  shows "\<exists>w'. db_del_usr_tbl u w = (0, w') \<and> db_only w w' \<and> db_rep w' (db(u := None))"
proof -
  obtain a where a: "db u = Some a"
    using old by blast
  have wo: "world_ok w" and dir: "table w u [] = Some DirI"
    using db_rep_user [OF rep u] a by (auto simp: account_files_def)
  let ?t = "w_cwd w @ [DB_DIR, u @ ''-table'']"
  have "\<exists>e. remove_recursive (user_table_path u) w =
      (0, w\<lparr>w_files := prune (prefix ?t) (w_files w), w_errno := e\<rparr>) \<and> e \<noteq> ENOENT"
    by (rule remove_recursive_correct) (use wo dir u in \<open>auto simp: world_ok_def split_paths table_def\<close>)
  then obtain e where rm: "remove_recursive (user_table_path u) w =
      (0, w\<lparr>w_files := prune (prefix ?t) (w_files w), w_errno := e\<rparr>)"
    by blast
  let ?w = "w\<lparr>w_files := prune (prefix ?t) (w_files w), w_errno := e\<rparr>"
  have lk: "look (w_files ?w) k = (if prefix ?t k then None else look (w_files w) k)" for k
    using look_prune_below [of ?t "w_files w" k] by simp
  have "world_ok ?w"
    using wo files_ok_prune_below [of "w_files w" ?t] lk [of "w_cwd w @ [DB_DIR]"]
    by (simp add: world_ok_def)
  moreover have "table ?w v s = (if v = u then None else table w v s)" for v s
    using lk [of "w_cwd w @ DB_DIR # (v @ ''-table'') # s"] by (auto simp: table_def)
  ultimately have "db_rep ?w (db(u := None))"
    by (intro db_rep_change [OF rep u]) auto
  then show ?thesis
    using rm by (intro exI [of _ ?w]) (simp add: db_del_usr_tbl_def)
qed

subsection \<open>Entries of the map\<close>

lemma account_path:
  "entry_path e = userdata_path u" if "e_type e = ENT_TYPE_UD" "e_username e = u"
  using that by (simp add: entry_path_def)

lemma message_path:
  "entry_path e = pend_msg_path u n" if "e_type e = ENT_TYPE_P_MSG" "e_username e = u" "e_msg_id e = n"
  using that by (simp add: entry_path_def)

lemma account_io_missing:
  assumes "db_rep w db" "valid_user u" "db u = None" "e_username e = u" "entry_type_ok e"
    and "mode = READ \<or> mode = MODIFY"
  shows "db_io_op_usr_ent e mode w = ((DBMS_ERR_NOT_EXISTS, e), w\<lparr>w_errno := ENOENT\<rparr>)"
proof (rule db_io_missing)
  have "table w u [] = None" "world_ok w"
    using db_rep_user [OF assms(1,2)] assms(3) by auto
  then show "missing w (entry_path e)"
    using resolve_no_table assms(2,4,5) by (auto simp: missing_def entry_path_def entry_type_ok_def)
qed (use assms in \<open>auto simp: db_rep_def world_ok_def\<close>)

lemma account_file:
  assumes "db_rep w db" "valid_user u" "db u = Some a"
  obtains c where "is_file w (userdata_path u) (w_cwd w @ [DB_DIR, u @ ''-table'', USERDATA_ENTRY]) c"
    "user_entry u c a" "table w u [] = Some DirI" "table w u [PEND_MSGS_TABLE] = Some DirI"
    "pend_files u (table w u) (a_pend a)" "world_ok w"
proof -
  obtain c where "table w u [USERDATA_ENTRY] = Some (FileI c)" "user_entry u c a"
      "table w u [] = Some DirI" "table w u [PEND_MSGS_TABLE] = Some DirI"
      "pend_files u (table w u) (a_pend a)" "world_ok w"
    using db_rep_user [OF assms(1,2)] assms(3) by (auto simp: account_files_def)
  then show thesis
    using that [of c] resolve_in_table(1) [of w u] assms(2) by (simp add: table_def)
qed

lemma read_account_refines:
  assumes "db_rep w db" "valid_user u" "db u = Some a"
    and "e_username e = u" "e_type e = ENT_TYPE_UD" "entry_ok e"
  shows "\<exists>c. db_io_op_usr_ent e READ w = ((DBMS_SUCCESS, c), w\<lparr>w_next := Suc (w_next w)\<rparr>) \<and>
    user_entry u c a"
proof -
  obtain c where c: "is_file w (userdata_path u) (w_cwd w @ [DB_DIR, u @ ''-table'', USERDATA_ENTRY]) c"
    "user_entry u c a" "world_ok w"
    using account_file [OF assms(1-3)] by blast
  have "db_io_op_usr_ent e READ w = ((DBMS_SUCCESS, c), w\<lparr>w_next := Suc (w_next w)\<rparr>)"
    by (rule db_read_entry [where q = "w_cwd w @ [DB_DIR, u @ ''-table'', USERDATA_ENTRY]"])
      (use c assms in \<open>auto simp: world_ok_def user_entry_def entry_type_ok_def account_path\<close>)
  then show ?thesis using c(2) by blast
qed

lemma pend_files_cong:
  assumes "\<And>r. T' (PEND_MSGS_TABLE # r) = T (PEND_MSGS_TABLE # r)"
  shows "pend_files u T' p = pend_files u T p"
  by (simp add: pend_files_def assms)

lemma modify_account_refines:
  assumes "db_rep w db" "valid_user u" "db u = Some a"
    and e: "user_entry u e a'" and pend: "a_pend a' = a_pend a"
  shows "\<exists>w'. db_io_op_usr_ent e MODIFY w = ((DBMS_SUCCESS, e), w') \<and> db_only w w' \<and>
    db_rep w' (db(u \<mapsto> a'))"
proof -
  let ?d = "w_cwd w @ [DB_DIR, u @ ''-table'', USERDATA_ENTRY]"
  obtain c where c: "is_file w (userdata_path u) ?d c"
    "table w u [] = Some DirI" "table w u [PEND_MSGS_TABLE] = Some DirI"
    "pend_files u (table w u) (a_pend a)" "world_ok w"
    using account_file [OF assms(1-3)] by blast
  let ?w = "w\<lparr>w_files := set_node ?d (FileI e) (w_files w), w_next := Suc (w_next w)\<rparr>"
  have "db_io_op_usr_ent e MODIFY w = ((DBMS_SUCCESS, e), ?w)"
    by (rule db_modify_entry)
      (use c e in \<open>auto simp: world_ok_def user_entry_def entry_type_ok_def account_path\<close>)
  moreover have "world_ok ?w"
    using world_ok_next(1) [OF world_ok_set_node [OF c(5), of "w_cwd w @ [DB_DIR, u @ ''-table'']"
        USERDATA_ENTRY "FileI e"]] c(1,2) by (simp add: table_def)
  moreover have t: "table ?w v s = (if v = u \<and> s = [USERDATA_ENTRY] then Some (FileI e) else table w v s)" for v s
    using table_set_node [of w u "[USERDATA_ENTRY]" "FileI e" v s] by (simp add: table_def)
  moreover have "account_files u (table ?w u) a'"
  proof -
    have ne: "PEND_MSGS_TABLE \<noteq> USERDATA_ENTRY"
      by (simp add: PEND_MSGS_TABLE_def USERDATA_ENTRY_def)
    have "pend_files u (table ?w u) (a_pend a) = pend_files u (table w u) (a_pend a)"
      by (rule pend_files_cong) (simp add: t ne)
    then show ?thesis
      unfolding account_files_def using c ne e pend by (simp add: t)
  qed
  ultimately have "db_rep ?w (db(u \<mapsto> a'))"
    by (intro db_rep_change [OF assms(1,2)]) auto
  moreover have "db_only w ?w" by (simp add: db_only_def)
  ultimately show ?thesis
    using \<open>db_io_op_usr_ent e MODIFY w = ((DBMS_SUCCESS, e), ?w)\<close> by blast
qed

subsection \<open>Pending messages of the map\<close>

lemma pend_filesD:
  assumes "pend_files u T pend"
  shows "T [PEND_MSGS_TABLE, nm] \<noteq> None \<Longrightarrow> \<exists>n. nm = show_u n \<and> pend n \<noteq> None"
    and "pend n = Some m \<Longrightarrow> \<exists>e. T [PEND_MSGS_TABLE, show_u n] = Some (FileI e) \<and> msg_entry u n m e"
  using assms unfolding pend_files_def by blast+

lemma message_file:
  assumes "db_rep w db" "valid_user u" "db u = Some a"
  shows "resolve w (pend_msg_path u n) =
      Inr (w_cwd w @ [DB_DIR, u @ ''-table'', PEND_MSGS_TABLE, show_u n])"
    and "a_pend a n = None \<Longrightarrow> look (w_files w) (w_cwd w @ [DB_DIR, u @ ''-table'', PEND_MSGS_TABLE, show_u n]) = None"
    and "a_pend a n = Some m \<Longrightarrow> \<exists>c. look (w_files w) (w_cwd w @ [DB_DIR, u @ ''-table'', PEND_MSGS_TABLE, show_u n]) = Some (FileI c) \<and> msg_entry u n m c"
proof -
  let ?q = "w_cwd w @ [DB_DIR, u @ ''-table'', PEND_MSGS_TABLE, show_u n]"
  obtain c where c: "table w u [] = Some DirI" "table w u [PEND_MSGS_TABLE] = Some DirI"
    "pend_files u (table w u) (a_pend a)" "world_ok w"
    using account_file [OF assms] by blast
  show "resolve w (pend_msg_path u n) = Inr ?q"
    by (rule resolve_in_table(3)) (use c assms in auto)
  show "look (w_files w) ?q = None" if "a_pend a n = None"
  proof (rule ccontr)
    assume "look (w_files w) ?q \<noteq> None"
    then obtain k where "show_u n = show_u k" "a_pend a k \<noteq> None"
      using pend_filesD(1) [OF c(3), of "show_u n"] by (auto simp: table_def)
    then show False using that by (simp add: show_u_inject)
  qed
  show "\<exists>c. look (w_files w) ?q = Some (FileI c) \<and> msg_entry u n m c" if "a_pend a n = Some m"
    using pend_filesD(2) [OF c(3) that] by (simp add: table_def)
qed

lemma pend_files_store:
  assumes p: "pend_files u T pend" and "msg_entry u n m e"
    and t: "\<And>nm. T' [PEND_MSGS_TABLE, nm] =
      (if nm = show_u n then Some (FileI e) else T [PEND_MSGS_TABLE, nm])"
  shows "pend_files u T' (pend(n \<mapsto> m))"
  unfolding pend_files_def
proof (intro conjI allI impI)
  fix nm assume "T' [PEND_MSGS_TABLE, nm] \<noteq> None"
  then have "nm = show_u n \<or> T [PEND_MSGS_TABLE, nm] \<noteq> None"
    by (simp add: t split: if_splits)
  then show "\<exists>k. nm = show_u k \<and> (pend(n \<mapsto> m)) k \<noteq> None"
  proof
    assume "T [PEND_MSGS_TABLE, nm] \<noteq> None"
    then obtain k where "nm = show_u k" "pend k \<noteq> None"
      using pend_filesD(1) [OF p] by blast
    then show ?thesis by (intro exI [of _ k]) simp
  qed (auto intro: exI [of _ n])
next
  fix k m' assume "(pend(n \<mapsto> m)) k = Some m'"
  then show "\<exists>e. T' [PEND_MSGS_TABLE, show_u k] = Some (FileI e) \<and> msg_entry u k m' e"
    using pend_filesD(2) [OF p, of k m'] assms(2) by (auto simp: t show_u_inject split: if_splits)
qed

lemma pend_files_delete:
  assumes p: "pend_files u T pend"
    and t: "\<And>nm. T' [PEND_MSGS_TABLE, nm] = (if nm = show_u n then None else T [PEND_MSGS_TABLE, nm])"
  shows "pend_files u T' (pend(n := None))"
  unfolding pend_files_def
proof (intro conjI allI impI)
  fix nm assume "T' [PEND_MSGS_TABLE, nm] \<noteq> None"
  then have "nm \<noteq> show_u n" "T [PEND_MSGS_TABLE, nm] \<noteq> None"
    by (auto simp: t split: if_splits)
  moreover obtain k where "nm = show_u k" "pend k \<noteq> None"
    using pend_filesD(1) [OF p calculation(2)] by blast
  ultimately show "\<exists>k. nm = show_u k \<and> (pend(n := None)) k \<noteq> None"
    by (intro exI [of _ k]) auto
next
  fix k m' assume "(pend(n := None)) k = Some m'"
  then show "\<exists>e. T' [PEND_MSGS_TABLE, show_u k] = Some (FileI e) \<and> msg_entry u k m' e"
    using pend_filesD(2) [OF p, of k m'] by (auto simp: t show_u_inject split: if_splits)
qed

lemma store_message_refines:
  assumes rep: "db_rep w db" "valid_user u" "db u = Some a"
    and e: "msg_entry u n m e" and new: "a_pend a n = None"
  shows "\<exists>w'. db_io_op_usr_ent e CREATE w = ((DBMS_SUCCESS, e), w') \<and> db_only w w' \<and>
    db_rep w' (db(u \<mapsto> a\<lparr>a_pend := (a_pend a)(n \<mapsto> m)\<rparr>))"
proof -
  let ?p = "w_cwd w @ [DB_DIR, u @ ''-table'', PEND_MSGS_TABLE]"
  let ?q = "?p @ [show_u n]"
  note f = message_file [OF rep, of n]
  obtain c where c: "table w u [USERDATA_ENTRY] = Some (FileI c)"
    "user_entry u c a" "table w u [] = Some DirI" "table w u [PEND_MSGS_TABLE] = Some DirI"
    "pend_files u (table w u) (a_pend a)" "world_ok w"
    using account_file [OF rep] by (auto simp: table_def)
  define w' where "w' = w\<lparr>w_files := set_node ?q (FileI e) (w_files w), w_next := Suc (w_next w)\<rparr>"
  have run: "db_io_op_usr_ent e CREATE w = ((DBMS_SUCCESS, e), w')"
    unfolding w'_def by (rule db_create_entry)
      (use c e f(1) f(2) [OF new] in \<open>auto simp: world_ok_def msg_entry_def entry_type_ok_def message_path\<close>)
  have wo: "world_ok w'"
    using world_ok_next(1) [OF world_ok_set_node [OF c(6), of ?p "show_u n" "FileI e"]] c(4) f(2) [OF new]
    by (simp add: table_def w'_def)
  have t: "table w' v s = (if v = u \<and> s = [PEND_MSGS_TABLE, show_u n] then Some (FileI e) else table w v s)" for v s
    using table_set_node [of w u "[PEND_MSGS_TABLE, show_u n]" "FileI e" v s] by (simp add: table_def w'_def)
  have "pend_files u (table w' u) ((a_pend a)(n \<mapsto> m))"
    by (rule pend_files_store [OF c(5) e]) (simp add: t)
  then have "account_files u (table w' u) (a\<lparr>a_pend := (a_pend a)(n \<mapsto> m)\<rparr>)"
    unfolding account_files_def using c by (simp add: t user_entry_def)
  then have "db_rep w' (db(u \<mapsto> a\<lparr>a_pend := (a_pend a)(n \<mapsto> m)\<rparr>))"
    by (intro db_rep_change [OF rep(1,2) wo]) (auto simp: t)
  moreover have "db_only w w'" by (simp add: w'_def db_only_def)
  ultimately show ?thesis
    using run by blast
qed

lemma store_message_taken:
  assumes rep: "db_rep w db" "valid_user u" "db u = Some a"
    and e: "msg_entry u n m e" and old: "a_pend a n \<noteq> None"
  shows "db_io_op_usr_ent e CREATE w = ((DBMS_ERR_ANY, e), w\<lparr>w_errno := EEXIST\<rparr>)"
proof -
  obtain m' where "a_pend a n = Some m'" using old by blast
  then show ?thesis
    using message_file [OF rep, of n] e rep(1)
    by (intro db_create_exists)
      (auto simp: msg_entry_def entry_type_ok_def message_path db_rep_def world_ok_def)
qed

lemma delete_message_refines:
  assumes rep: "db_rep w db" "valid_user u" "db u = Some a"
    and e: "msg_entry u n m e" and old: "a_pend a n \<noteq> None"
  shows "\<exists>w'. db_io_op_usr_ent e DELETE w = ((DBMS_SUCCESS, e), w') \<and> db_only w w' \<and>
    db_rep w' (db(u \<mapsto> a\<lparr>a_pend := (a_pend a)(n := None)\<rparr>))"
proof -
  let ?p = "w_cwd w @ [DB_DIR, u @ ''-table'', PEND_MSGS_TABLE]"
  let ?q = "?p @ [show_u n]"
  obtain m' where m': "a_pend a n = Some m'" using old by blast
  obtain f where f: "look (w_files w) ?q = Some (FileI f)"
    using message_file(3) [OF rep m'] by auto
  obtain c where c: "table w u [USERDATA_ENTRY] = Some (FileI c)"
    "user_entry u c a" "table w u [] = Some DirI" "table w u [PEND_MSGS_TABLE] = Some DirI"
    "pend_files u (table w u) (a_pend a)" "world_ok w"
    using account_file [OF rep] by (auto simp: table_def)
  have path: "entry_path e = pend_msg_path u n"
    using e by (simp add: msg_entry_def message_path)
  have "\<exists>x. remove_recursive (entry_path e) w =
      (0, w\<lparr>w_files := prune (prefix ?q) (w_files w), w_errno := x\<rparr>) \<and> x \<noteq> ENOENT"
    unfolding path
    by (rule remove_recursive_correct) (use c(6) f rep(2) in \<open>auto simp: world_ok_def split_paths\<close>)
  then obtain x where rm: "remove_recursive (entry_path e) w =
      (0, w\<lparr>w_files := prune (prefix ?q) (w_files w), w_errno := x\<rparr>)"
    by blast
  define w' where "w' = w\<lparr>w_files := prune (prefix ?q) (w_files w), w_errno := x\<rparr>"
  have lk: "look (w_files w') k = (if prefix ?q k then None else look (w_files w) k)" for k
    using look_prune_below [of ?q "w_files w" k] by (simp add: w'_def)
  have wo: "world_ok w'"
    using c(6) files_ok_prune_below [of "w_files w" ?q] lk [of "w_cwd w @ [DB_DIR]"]
    by (simp add: world_ok_def w'_def)
  have t: "table w' v s = (if v = u \<and> prefix [PEND_MSGS_TABLE, show_u n] s then None else table w v s)" for v s
    using lk [of "w_cwd w @ DB_DIR # (v @ ''-table'') # s"] by (auto simp: table_def w'_def)
  have "pend_files u (table w' u) ((a_pend a)(n := None))"
    by (rule pend_files_delete [OF c(5)]) (auto simp: t)
  then have "account_files u (table w' u) (a\<lparr>a_pend := (a_pend a)(n := None)\<rparr>)"
    unfolding account_files_def using c by (simp add: t user_entry_def)
  then have "db_rep w' (db(u \<mapsto> a\<lparr>a_pend := (a_pend a)(n := None)\<rparr>))"
    by (intro db_rep_change [OF rep(1,2) wo]) (auto simp: t)
  moreover have "db_io_op_usr_ent e DELETE w = ((DBMS_SUCCESS, e), w')"
    using rm e by (auto simp: w'_def db_io_op_usr_ent_def msg_entry_def)
  moreover have "db_only w w'" by (simp add: w'_def db_only_def)
  ultimately show ?thesis by blast
qed

subsection \<open>Taking a pending message\<close>

lemma first_pend_entry_None:
  "first_pend_entry es = None \<longleftrightarrow> (\<forall>x \<in> set es. fst x = ''.'' \<or> fst x = ''..'')"
  by (induction es rule: first_pend_entry.induct) auto

lemma first_pend_entry_Some:
  "first_pend_entry es = Some nm \<Longrightarrow> nm \<noteq> ''.'' \<and> nm \<noteq> ''..'' \<and> (\<exists>b. (nm, b) \<in> set es)"
  by (induction es rule: first_pend_entry.induct) (auto split: if_splits)

lemma open_pend_msgs:
  assumes "db_rep w db" "valid_user u" "db u = Some a"
  defines "q \<equiv> w_cwd w @ [DB_DIR, u @ ''-table'', PEND_MSGS_TABLE]"
  shows "open_directory (pend_msgs_path u) READ w = ((DBMS_SUCCESS, Some (listing w q)), clear_errno w)"
    and "first_pend_entry (listing w q) = None \<longleftrightarrow> a_pend a = Map.empty"
    and "first_pend_entry (listing w q) = Some nm \<Longrightarrow> \<exists>n m. nm = show_u n \<and> a_pend a n = Some m"
proof -
  obtain c where c: "table w u [] = Some DirI" "table w u [PEND_MSGS_TABLE] = Some DirI"
    "pend_files u (table w u) (a_pend a)" "world_ok w"
    using account_file [OF assms(1-3)] by blast
  have ord: "order_ok (w_order w)"
    using c(4) by (simp add: world_ok_def)
  show "open_directory (pend_msgs_path u) READ w = ((DBMS_SUCCESS, Some (listing w q)), clear_errno w)"
    using open_directory_there [of w "pend_msgs_path u" q READ] resolve_in_table(2) [OF c(4) assms(2) c(1)] c
    by (simp add: world_ok_def q_def table_def)
  have lk: "look (w_files w) (q @ [nm]) = table w u [PEND_MSGS_TABLE, nm]" for nm
    by (simp add: q_def table_def)
  show some: "\<exists>n m. nm = show_u n \<and> a_pend a n = Some m"
    if first: "first_pend_entry (listing w q) = Some nm" for nm
  proof -
    obtain b where "(nm, b) \<in> set (listing w q) \<and> nm \<noteq> ''.'' \<and> nm \<noteq> ''..''"
      using first_pend_entry_Some [OF first] by blast
    then have "table w u [PEND_MSGS_TABLE, nm] \<noteq> None"
      using listing_names(1) [OF ord] lk by metis
    then show ?thesis
      using pend_filesD(1) [OF c(3)] by blast
  qed
  show "first_pend_entry (listing w q) = None \<longleftrightarrow> a_pend a = Map.empty"
  proof
    assume none: "first_pend_entry (listing w q) = None"
    have "a_pend a n = None" for n
    proof (cases "a_pend a n")
      case (Some m)
      then have "look (w_files w) (q @ [show_u n]) \<noteq> None"
        using pend_filesD(2) [OF c(3)] lk by fastforce
      then have "show_u n \<in> set (map fst (listing w q))"
        by (rule listing_names(2) [OF ord])
      moreover have "show_u n \<noteq> ''.''" "show_u n \<noteq> ''..''"
        using plain_show_u [of n] by (auto simp: plain_name_def)
      ultimately show ?thesis
        using none by (auto simp: first_pend_entry_None)
    qed
    then show "a_pend a = Map.empty" by auto
  next
    assume "a_pend a = Map.empty"
    then show "first_pend_entry (listing w q) = None"
      using some by (cases "first_pend_entry (listing w q)") auto
  qed
qed

lemma get_pend_none:
  assumes "db_rep w db" "valid_user u" "db u = Some a" "a_pend a = Map.empty"
    and "e_username e = u" "e_type e = ENT_TYPE_P_MSG"
  shows "db_get_pend_msg e w = ((DBMS_ERR_NOT_EXISTS, e), clear_errno w)"
  using open_pend_msgs(1,2) [OF assms(1-3)] assms(4-6) by (simp add: db_get_pend_msg_def)

lemma get_pend_no_user:
  assumes "db_rep w db" "valid_user u" "db u = None"
    and "e_username e = u" "e_type e = ENT_TYPE_P_MSG"
  shows "db_get_pend_msg e w = ((DBMS_ERR_ANY, e), w\<lparr>w_errno := ENOENT\<rparr>)"
proof -
  have "table w u [] = None" "world_ok w"
    using db_rep_user [OF assms(1,2)] assms(3) by auto
  then have "open_directory (pend_msgs_path u) READ w = ((DBMS_ERR_NOT_EXISTS, None), w\<lparr>w_errno := ENOENT\<rparr>)"
    using resolve_no_table assms(2) by (intro open_directory_gone) (auto simp: missing_def world_ok_def)
  then show ?thesis
    using assms(4,5) by (simp add: db_get_pend_msg_def)
qed

lemma get_pend_refines:
  assumes rep: "db_rep w db" "valid_user u" "db u = Some a" and pend: "a_pend a \<noteq> Map.empty"
    and e: "e_username e = u" "e_type e = ENT_TYPE_P_MSG" "entry_ok e"
  shows "\<exists>n m c x. a_pend a n = Some m \<and> msg_entry u n m c \<and>
    db_get_pend_msg e w = ((DBMS_SUCCESS, c), w\<lparr>w_errno := x, w_next := Suc (w_next w)\<rparr>)"
proof -
  let ?q = "w_cwd w @ [DB_DIR, u @ ''-table'', PEND_MSGS_TABLE]"
  note dir = open_pend_msgs [OF rep]
  obtain nm where nm: "first_pend_entry (listing w ?q) = Some nm"
    using dir(2) pend by fastforce
  obtain n m where n: "nm = show_u n" "a_pend a n = Some m"
    using dir(3) [OF nm] by blast
  obtain c where c: "is_file w (pend_msg_path u n) (?q @ [show_u n]) c" "msg_entry u n m c"
    using message_file(1,3) [OF rep] n(2) by (metis append.assoc append_Cons append_Nil)
  let ?w = "clear_errno w" and ?e = "set_e_msg_id n e"
  have "is_file ?w (pend_msg_path u n) (?q @ [show_u n]) c"
    using c(1) resolve_cong [of ?w w] by (simp add: clear_errno_def)
  moreover have "entry_path ?e = pend_msg_path u n" "entry_ok ?e" "entry_type_ok ?e"
    using e by (simp_all add: message_path cmem entry_type_ok_def)
  moreover have "calm ?w" "fresh_fds ?w"
    using rep(1) by (simp_all add: db_rep_def world_ok_def clear_errno_def)
  ultimately have "db_io_op_usr_ent ?e READ ?w = ((DBMS_SUCCESS, c), ?w\<lparr>w_next := Suc (w_next w)\<rparr>)"
    using db_read_entry [of ?w ?e "?q @ [show_u n]" c] c(2) by (simp add: msg_entry_def clear_errno_def)
  then have "db_get_pend_msg e w = ((DBMS_SUCCESS, c), ?w\<lparr>w_next := Suc (w_next w)\<rparr>)"
    using dir(1) nm n(1) e str_to_num_show_u [of n ?w]
    by (simp add: db_get_pend_msg_def store_msg_id_def clear_errno_def)
  then have "db_get_pend_msg e w = ((DBMS_SUCCESS, c), w\<lparr>w_errno := E0, w_next := Suc (w_next w)\<rparr>)"
    by (simp add: clear_errno_def)
  then show ?thesis
    using n(2) c(2) by blast
qed

subsection \<open>Creating and emptying the database\<close>

lemma init_db_refines:
  assumes "files_ok (w_files w)" "order_ok (w_order w)" "fresh_fds w" "calm w"
    and "look (w_files w) (w_cwd w) = Some DirI" "look (w_files w) (w_cwd w @ [DB_DIR]) = None"
  shows "\<exists>w'. db_init_db w = (DBMS_SUCCESS, w') \<and> db_only w w' \<and> db_rep w' Map.empty"
proof -
  let ?q = "w_cwd w @ [DB_DIR]"
  define w' where "w' = w\<lparr>w_files := set_node ?q DirI (w_files w), w_errno := ENOENT\<rparr>"
  have sp: "split_path DB_DIR = [DB_DIR]"
    by (rule split_path_simple) (simp add: DB_DIR_def)
  then have d: "direct DB_DIR"
    by (simp add: direct_def)
  have "\<exists>es. open_directory DB_DIR OVERWRITE w = ((DBMS_SUCCESS, Some es), w')"
    unfolding w'_def
  proof (rule open_directory_new)
    show "resolve w DB_DIR = Inr ?q"
      using assms(5) d by (simp add: resolve_walk sp walk_plain del: walk.simps) simp
  qed (use assms d in \<open>simp_all add: sp\<close>)
  then have "db_init_db w = (DBMS_SUCCESS, w')"
    by (auto simp: db_init_db_def)
  moreover have "files_ok (w_files w')"
    using files_ok_set_node [OF assms(1,5), of DB_DIR DirI] by (simp add: w'_def)
  moreover have "table w' u [] = None" for u
    using files_ok_below_none [OF assms(1,6), of "[u @ ''-table'']"]
    by (simp add: table_def w'_def look_set_node)
  ultimately have "db_rep w' Map.empty"
    using assms by (simp add: db_rep_def world_ok_def w'_def look_set_node)
  then show ?thesis
    using \<open>db_init_db w = (DBMS_SUCCESS, w')\<close> by (intro exI [of _ w']) (simp add: w'_def)
qed

lemma init_db_again:
  assumes "db_rep w db"
  shows "db_init_db w = (DBMS_SUCCESS, clear_errno w)"
proof -
  have wo: "world_ok w" using assms by (simp add: db_rep_def)
  have sp: "split_path DB_DIR = [DB_DIR]"
    by (rule split_path_simple) (simp add: DB_DIR_def)
  have "resolve w DB_DIR = Inr (w_cwd w @ [DB_DIR])"
    using world_ok_dirs [OF wo] by (simp add: resolve_walk direct_def sp walk_plain del: walk.simps) simp
  then show ?thesis
    using open_directory_there [of w DB_DIR _ OVERWRITE] wo
    by (simp add: db_init_db_def world_ok_def)
qed

subsection \<open>The contract the services rely on\<close>

text \<open>
  What \<open>services.c\<close> uses of \<open>db_io_op_usr_ent\<close> on user entries: reading finds the record of a
  key, writing replaces it and no other. Here \<open>image k e v\<close> says that the buffer \<open>e\<close> holds the
  record \<open>v\<close> of key \<open>k\<close>, \<open>asks k e\<close> that it asks for the record of \<open>k\<close>.
\<close>

locale record_store =
  fixes rep :: "'w \<Rightarrow> ('k \<Rightarrow> 'v option) \<Rightarrow> bool"
    and valid :: "'k \<Rightarrow> bool"
    and asks :: "'k \<Rightarrow> 'e \<Rightarrow> bool"
    and image :: "'k \<Rightarrow> 'e \<Rightarrow> 'v \<Rightarrow> bool"
    and compatible :: "'v \<Rightarrow> 'v \<Rightarrow> bool"
    and read_op modify_op :: "'e \<Rightarrow> 'w \<Rightarrow> (int \<times> 'e) \<times> 'w"
  assumes read_law: "rep w db \<Longrightarrow> valid k \<Longrightarrow> db k = Some v \<Longrightarrow> asks k e \<Longrightarrow>
      \<exists>c w'. read_op e w = ((DBMS_SUCCESS, c), w') \<and> image k c v \<and> rep w' db"
    and missing_law: "rep w db \<Longrightarrow> valid k \<Longrightarrow> db k = None \<Longrightarrow> asks k e \<Longrightarrow>
      \<exists>w'. read_op e w = ((DBMS_ERR_NOT_EXISTS, e), w') \<and> rep w' db"
    and modify_law: "rep w db \<Longrightarrow> valid k \<Longrightarrow> db k = Some v \<Longrightarrow> image k e v' \<Longrightarrow> compatible v v' \<Longrightarrow>
      \<exists>w'. modify_op e w = ((DBMS_SUCCESS, e), w') \<and> rep w' (db(k \<mapsto> v'))"
begin

lemma read_after_modify:
  assumes "rep w db" "valid k" "db k = Some v" "image k e v'" "compatible v v'" "asks k e2"
  shows "\<exists>w1 c w2. modify_op e w = ((DBMS_SUCCESS, e), w1) \<and>
    read_op e2 w1 = ((DBMS_SUCCESS, c), w2) \<and> image k c v' \<and> rep w2 (db(k \<mapsto> v'))"
proof -
  obtain w1 where w1: "modify_op e w = ((DBMS_SUCCESS, e), w1)" "rep w1 (db(k \<mapsto> v'))"
    using modify_law [OF assms(1-5)] by blast
  then show ?thesis
    using read_law [OF w1(2) assms(2) _ assms(6)] by fastforce
qed

lemma read_other_after_modify:
  assumes "rep w db" "valid k" "db k = Some v" "image k e v'" "compatible v v'"
    and "valid k2" "k2 \<noteq> k" "asks k2 e2"
  shows "\<exists>w1 r c w2. modify_op e w = ((DBMS_SUCCESS, e), w1) \<and> read_op e2 w1 = ((r, c), w2) \<and>
    (case db k2 of None \<Rightarrow> r = DBMS_ERR_NOT_EXISTS | Some v2 \<Rightarrow> r = DBMS_SUCCESS \<and> image k2 c v2)"
proof -
  obtain w1 where w1: "modify_op e w = ((DBMS_SUCCESS, e), w1)" "rep w1 (db(k \<mapsto> v'))"
    using modify_law [OF assms(1-5)] by blast
  show ?thesis
    using w1(1) missing_law [OF w1(2) assms(6) _ assms(8)] read_law [OF w1(2) assms(6) _ assms(8)] assms(7)
    by (cases "db k2") fastforce+
qed

end

interpretation accounts: record_store db_rep valid_user
  "\<lambda>u e. e_username e = u \<and> e_type e = ENT_TYPE_UD \<and> entry_ok e" user_entry
  "\<lambda>a a'. a_pend a' = a_pend a" "\<lambda>e. db_io_op_usr_ent e READ" "\<lambda>e. db_io_op_usr_ent e MODIFY"
proof
  fix w db u a and e :: entry_t
  assume *: "db_rep w db" "valid_user u"
  show "\<exists>c w'. db_io_op_usr_ent e READ w = ((DBMS_SUCCESS, c), w') \<and> user_entry u c a \<and> db_rep w' db"
    if "db u = Some a" "e_username e = u \<and> e_type e = ENT_TYPE_UD \<and> entry_ok e"
    using read_account_refines [OF * that(1), of e] that(2) db_rep_simps(1) [OF *(1)] by blast
  show "\<exists>w'. db_io_op_usr_ent e READ w = ((DBMS_ERR_NOT_EXISTS, e), w') \<and> db_rep w' db"
    if "db u = None" "e_username e = u \<and> e_type e = ENT_TYPE_UD \<and> entry_ok e"
    using account_io_missing [OF * that(1), of e READ] that(2) db_rep_simps(2) [OF *(1)]
    by (auto simp: entry_type_ok_def)
  show "\<exists>w'. db_io_op_usr_ent e MODIFY w = ((DBMS_SUCCESS, e), w') \<and> db_rep w' (db(u \<mapsto> a'))"
    if "db u = Some a" "user_entry u e a'" "a_pend a' = a_pend a" for a'
    using modify_account_refines [OF * that] by blast
qed

subsection \<open>The arrays the paths are printed into\<close>

lemma path_sizes:
  "length (pend_msgs_path u) + 1 \<le> db_get_pend_msg_path_size u"
  "length (user_table_path u) + 1 \<le> db_del_usr_tbl_path_size u"
  "length (user_table_path u) + 1 \<le> fst (db_creat_usr_tbl_sizes u)"
  "length (userdata_path u) + 1 \<le> fst (snd (db_creat_usr_tbl_sizes u))"
  "length (pend_msgs_path u) + 1 \<le> snd (snd (db_creat_usr_tbl_sizes u))"
  by (simp_all add: pend_msgs_path_def user_table_path_def userdata_path_def db_get_pend_msg_path_size_def
      db_del_usr_tbl_path_size_def db_creat_usr_tbl_sizes_def)

lemma entry_path_size: "length (entry_path e) + 1 \<le> db_io_op_entry_len e"
  using length_show_u [of "e_msg_id e"]
  by (simp add: entry_path_def userdata_path_def pend_msg_path_def pend_msgs_path_def user_table_path_def
      db_io_op_entry_len_def)

lemma user_exists_path_size: "db_user_exists_path_len u + 1 = length (user_table_path u) + 1"
  by (simp add: db_user_exists_path_len_def user_table_path_def)

end
