(* ===== verification/Delivery.thy ===== *)
theory Delivery
  imports Services UserStore
begin

section \<open>Footprints, connections to listening threads, pending messages\<close>

text \<open>
  What a service may change besides its own work, and the functions of \<open>src/services.c\<close> that
  talk to a client's listening thread (\<open>aux_connect_clt_listen_thread\<close>, \<open>clt_send_message\<close>,
  \<open>clt_send_mess_ack\<close>, \<open>aux_connect_send_pend_msgs\<close>) in a world without injected faults: what
  they deliver and what they leave in the map of accounts.
\<close>

subsection \<open>The footprint of a service\<close>

text \<open>
  A service run without faults leaves alone every descriptor that existed before it, apart from
  those of the set \<open>D\<close>; the descriptors it makes are numbered from \<open>w_next\<close> on.
\<close>

definition new_fd :: "world \<Rightarrow> world \<Rightarrow> fd \<Rightarrow> bool" where
  "new_fd w w' d \<longleftrightarrow> int (w_next w) \<le> d \<and> d < int (w_next w')"

definition effects :: "fd set \<Rightarrow> world \<Rightarrow> world \<Rightarrow> bool" where
  "effects D w w' \<longleftrightarrow> w_cwd w' = w_cwd w \<and> w_order w' = w_order w \<and> w_fates w' = w_fates w \<and>
     w_accepts w' = w_accepts w \<and> w_peer_ip w' = w_peer_ip w \<and> w_strtof w' = w_strtof w \<and>
     w_next w \<le> w_next w' \<and>
     (\<forall>d. d \<notin> D \<longrightarrow> \<not> new_fd w w' d \<longrightarrow> w_fds w' d = w_fds w d \<and> w_out w' d = w_out w d \<and>
        w_dest w' d = w_dest w d) \<and>
     (\<forall>d. d \<notin> D \<longrightarrow> w_in w' d = w_in w d)"

lemma effects_refl [simp]: "effects D w w"
  by (simp add: effects_def)

lemma effects_trans: "effects D w w1 \<Longrightarrow> effects D w1 w2 \<Longrightarrow> effects D w w2"
  unfolding effects_def new_fd_def by auto

lemma effects_mono: "effects D w w' \<Longrightarrow> D \<subseteq> D' \<Longrightarrow> effects D' w w'"
  unfolding effects_def by blast

lemma db_only_effects: "db_only w w' \<Longrightarrow> effects D w w'"
  using db_only_fields [of w w'] by (simp add: effects_def)

lemma effects_fields:
  assumes "effects D w w'"
  shows "w_cwd w' = w_cwd w" "w_order w' = w_order w" "w_fates w' = w_fates w"
    "w_accepts w' = w_accepts w" "w_peer_ip w' = w_peer_ip w" "w_next w \<le> w_next w'"
    "d \<notin> D \<Longrightarrow> w_in w' d = w_in w d"
    "d \<notin> D \<Longrightarrow> \<not> new_fd w w' d \<Longrightarrow> w_fds w' d = w_fds w d"
    "d \<notin> D \<Longrightarrow> \<not> new_fd w w' d \<Longrightarrow> w_out w' d = w_out w d"
    "d \<notin> D \<Longrightarrow> \<not> new_fd w w' d \<Longrightarrow> w_dest w' d = w_dest w d"
  using assms by (auto simp: effects_def)

text \<open>
  \<open>delivered w w' ip port bs\<close>: on a connection made in between to the listening thread at that
  address, exactly the bytes \<open>bs\<close> were written.
\<close>

definition delivered :: "world \<Rightarrow> world \<Rightarrow> u32 \<Rightarrow> u16 \<Rightarrow> bytes \<Rightarrow> bool" where
  "delivered w w' ip port bs \<longleftrightarrow> (\<exists>d. new_fd w w' d \<and> w_dest w' d = Some (ip, port) \<and>
     w_out w' d = w_out w d @ bs)"

lemma delivered_later_on:
  assumes "delivered w w1 ip port bs" and "effects D w1 w2" and "\<And>d. d \<in> D \<Longrightarrow> d < int (w_next w)"
  shows "delivered w w2 ip port bs"
proof -
  obtain d where d: "new_fd w w1 d" "w_dest w1 d = Some (ip, port)" "w_out w1 d = w_out w d @ bs"
    using assms(1) by (auto simp: delivered_def)
  then have "\<not> new_fd w1 w2 d" "new_fd w w2 d" "d \<notin> D"
    using effects_fields(6) [OF assms(2)] assms(3) by (force simp: new_fd_def)+
  then show ?thesis
    using d effects_fields(9,10) [OF assms(2), of d] by (auto simp: delivered_def)
qed

lemma delivered_earlier_on:
  assumes "effects D w w1" and "delivered w1 w2 ip port bs" and "\<And>d. d \<in> D \<Longrightarrow> d < int (w_next w)"
  shows "delivered w w2 ip port bs"
proof -
  obtain d where d: "new_fd w1 w2 d" "w_dest w2 d = Some (ip, port)" "w_out w2 d = w_out w1 d @ bs"
    using assms(2) by (auto simp: delivered_def)
  then have "\<not> new_fd w w1 d" "new_fd w w2 d" "d \<notin> D"
    using effects_fields(6) [OF assms(1)] assms(3) by (force simp: new_fd_def)+
  then show ?thesis
    using d effects_fields(9) [OF assms(1), of d] by (auto simp: delivered_def)
qed

lemma delivered_later: "delivered w w1 ip port bs \<Longrightarrow> effects {} w1 w2 \<Longrightarrow> delivered w w2 ip port bs"
  by (rule delivered_later_on) auto

lemma delivered_earlier: "effects {} w w1 \<Longrightarrow> delivered w1 w2 ip port bs \<Longrightarrow> delivered w w2 ip port bs"
  by (rule delivered_earlier_on) auto

text \<open>The bytes of a \<open>SEND_MESSAGE\<close> and of a \<open>SEND_MESS_ACK\<close>.\<close>

definition message_bytes :: "string \<Rightarrow> u32 \<Rightarrow> string \<Rightarrow> bytes" where
  "message_bytes sender n content =
     SEND_MESSAGE @ [NUL] @ sender @ [NUL] @ show_u n @ [NUL] @ content @ [NUL]"

definition ack_bytes :: "u32 \<Rightarrow> bytes" where
  "ack_bytes n = SEND_MESS_ACK @ [NUL] @ show_u n @ [NUL]"

subsection \<open>Connecting to a listening thread\<close>

lemma fresh_fdsD: "fresh_fds w \<Longrightarrow> w_next w \<le> n \<Longrightarrow> w_fds w (int n) = None"
  by (simp add: fresh_fds_def)

lemma world_effects:
  assumes "effects D w w'" "fresh_fds w" "\<And>d. d \<in> D \<Longrightarrow> d < int (w_next w)"
  shows "fresh_fds w'"
  unfolding fresh_fds_def
proof (intro allI impI)
  fix n assume n: "w_next w' \<le> n"
  then have "\<not> new_fd w w' (int n)" "w_next w \<le> n"
    using effects_fields(6) [OF assms(1)] by (auto simp: new_fd_def)
  moreover have "int n \<notin> D"
    using assms(3) [of "int n"] calculation(2) by auto
  ultimately show "w_fds w' (int n) = None"
    using effects_fields(8) [OF assms(1)] assms(2) by (simp add: fresh_fds_def)
qed

lemma db_rep_effects:
  assumes "db_rep w db" "effects D w w'" "w_files w' = w_files w" "\<And>d. d \<in> D \<Longrightarrow> d < int (w_next w)"
  shows "db_rep w' db"
proof -
  have "fresh_fds w" using assms(1) by (simp add: db_rep_def world_ok_def)
  then show ?thesis
    using db_rep_cong [OF assms(1,3)] effects_fields [OF assms(2)] world_effects [OF assms(2) _ assms(4)]
      assms(1) by (simp add: db_rep_def world_ok_def)
qed

text \<open>\<open>listening w a\<close>: the listening thread of the account accepts connections.\<close>

abbreviation listening :: "world \<Rightarrow> account \<Rightarrow> bool" where
  "listening w a \<equiv> w_accepts w (a_ip a) (a_port a)"

lemma connect_listening:
  assumes "db_rep w db" "valid_user u" "db u = Some a"
    and "e_username e = u" "e_type e = ENT_TYPE_UD" "entry_ok e"
  shows "\<exists>c. user_entry u c a \<and> aux_connect_clt_listen_thread e w =
    (let d = int (Suc (w_next w));
         w1 = w\<lparr>w_fds := (w_fds w)(d \<mapsto> SockD), w_next := Suc (Suc (w_next w))\<rparr>
     in if listening w a
        then ((d, c), w1\<lparr>w_dest := (w_dest w)(d \<mapsto> (a_ip a, a_port a))\<rparr>)
        else ((GEN_ERR_ANY, c), w1\<lparr>w_errno := ECONNREFUSED\<rparr>))"
proof -
  obtain c where c: "db_io_op_usr_ent e READ w = ((DBMS_SUCCESS, c), w\<lparr>w_next := Suc (w_next w)\<rparr>)"
    "user_entry u c a"
    using read_account_refines [OF assms] by blast
  have calm: "calm w" using assms(1) by (simp add: db_rep_def world_ok_def)
  have "e_ip c = a_ip a" "e_port c = a_port a"
    using c(2) by (simp_all add: user_entry_def entry_account_def) (metis account.select_convs account.surjective account.update_convs(5))+
  then show ?thesis
    using c calm by (intro exI [of _ c])
      (simp add: aux_connect_clt_listen_thread_def sys_socket_def may_fail_calm alloc_fd_def
        sys_connect_def failing_def Let_def)
qed

lemma connect_missing_user:
  assumes "db_rep w db" "valid_user u" "db u = None"
    and "e_username e = u" "e_type e = ENT_TYPE_UD"
  shows "aux_connect_clt_listen_thread e w = ((DBMS_ERR_ANY, e), w\<lparr>w_errno := ENOENT\<rparr>)"
  using account_io_missing [OF assms(1-4), of READ] assms(5)
  by (simp add: aux_connect_clt_listen_thread_def entry_type_ok_def)

lemma send_strings_calm:
  assumes "calm w" "w_fds w d = Some SockD"
  shows "send_strings d ss w =
    (0, w\<lparr>w_out := (w_out w)(d := w_out w d @ concat (map (\<lambda>s. s @ [NUL]) ss))\<rparr>)"
  using assms
proof (induction ss arbitrary: w)
  case (Cons s ss)
  let ?w = "w\<lparr>w_out := (w_out w)(d := w_out w d @ s @ [NUL])\<rparr>"
  have "send_strings d ss ?w = (0, ?w\<lparr>w_out := (w_out ?w)(d := w_out ?w d @ concat (map (\<lambda>s. s @ [NUL]) ss))\<rparr>)"
    by (rule Cons.IH) (use Cons.prems in auto)
  then show ?case
    using send_string_calm [OF Cons.prems, of s] by (simp add: fun_upd_def cong: if_cong)
qed simp

lemma user_entry_iff:
  "user_entry u c a \<longleftrightarrow> entry_ok c \<and> e_username c = u \<and> e_type c = ENT_TYPE_UD \<and>
     e_status c = a_status a \<and> e_ip c = a_ip a \<and> e_port c = a_port a \<and> e_last_msg_id c = a_last a"
  by (cases a) (auto simp: user_entry_def entry_account_def)

lemma user_entry_facts:
  assumes "user_entry u c a"
  shows "entry_ok c" "e_username c = u" "e_type c = ENT_TYPE_UD" "e_status c = a_status a"
    "e_ip c = a_ip a" "e_port c = a_port a" "e_last_msg_id c = a_last a"
  using assms by (auto simp: user_entry_iff)

lemma send_message_listening:
  assumes "db_rep w db" "valid_user u" "db u = Some a" "listening w a"
    and "e_username e = u" "e_type e = ENT_TYPE_UD" "entry_ok e"
    and rq: "cstr (rq_op_code rq) = SEND_MESSAGE" "cstr (rq_message_sender rq) = sender"
      "rq_message_id rq = n" "cstr (rq_message_content rq) = content"
  shows "\<exists>c w'. clt_send_message rq e w = ((SRV_SUCCESS, c), w') \<and> user_entry u c a \<and>
    effects {} w w' \<and> w_files w' = w_files w \<and>
    delivered w w' (a_ip a) (a_port a) (message_bytes sender n content)"
proof -
  define d where "d = int (Suc (w_next w))"
  define w1 where "w1 = w\<lparr>w_fds := (w_fds w)(d \<mapsto> SockD), w_next := Suc (Suc (w_next w)),
    w_dest := (w_dest w)(d \<mapsto> (a_ip a, a_port a))\<rparr>"
  obtain c where c: "user_entry u c a" "aux_connect_clt_listen_thread e w = ((d, c), w1)"
    using connect_listening [OF assms(1-3,5-7)] assms(4) by (auto simp: Let_def d_def w1_def)
  have calm: "calm w1" and fr: "w_fds w d = None"
    using assms(1) fresh_fdsD [of w "Suc (w_next w)"]
    by (simp_all add: db_rep_def world_ok_def w1_def d_def)
  let ?bs = "message_bytes sender n content"
  define w2 where "w2 = w1\<lparr>w_out := (w_out w)(d := w_out w d @ ?bs)\<rparr>"
  have "send_strings d [SEND_MESSAGE, sender, show_u n, content] w1 = (0, w2)"
    using send_strings_calm [OF calm, of d "[SEND_MESSAGE, sender, show_u n, content]"]
    by (simp add: w1_def w2_def message_bytes_def)
  moreover have "snd (sys_close d w2) = w2\<lparr>w_fds := w_fds w\<rparr>"
    using fr by (simp add: sys_close_def w2_def w1_def fun_upd_idem)
  ultimately have "clt_send_message rq e w = ((SRV_SUCCESS, c), w2\<lparr>w_fds := w_fds w\<rparr>)"
    using c(2) rq by (simp add: clt_send_message_def d_def)
  moreover have "effects {} w (w2\<lparr>w_fds := w_fds w\<rparr>)"
    by (auto simp: effects_def w2_def w1_def new_fd_def d_def)
  moreover have "delivered w (w2\<lparr>w_fds := w_fds w\<rparr>) (a_ip a) (a_port a) ?bs"
    unfolding delivered_def by (rule exI [of _ d]) (simp add: w2_def w1_def new_fd_def d_def)
  ultimately show ?thesis
    using c(1) by (intro exI [of _ c] exI [of _ "w2\<lparr>w_fds := w_fds w\<rparr>"]) (simp add: w2_def w1_def)
qed

lemma send_message_refused:
  assumes "db_rep w db" "valid_user u" "db u = Some a" "\<not> listening w a"
    and "e_username e = u" "e_type e = ENT_TYPE_UD" "entry_ok e"
  shows "\<exists>c w'. clt_send_message rq e w = ((GEN_ERR_ANY, c), w') \<and> user_entry u c a \<and>
    effects {} w w' \<and> w_files w' = w_files w"
proof -
  define w1 where "w1 = w\<lparr>w_fds := (w_fds w)(int (Suc (w_next w)) \<mapsto> SockD),
    w_next := Suc (Suc (w_next w)), w_errno := ECONNREFUSED\<rparr>"
  obtain c where c: "user_entry u c a" "aux_connect_clt_listen_thread e w = ((GEN_ERR_ANY, c), w1)"
    using connect_listening [OF assms(1-3,5-7)] assms(4) by (auto simp: Let_def w1_def)
  then have "clt_send_message rq e w = ((GEN_ERR_ANY, c), w1)"
    by (simp add: clt_send_message_def)
  moreover have "effects {} w w1"
    by (auto simp: effects_def w1_def new_fd_def)
  ultimately show ?thesis
    using c(1) by (auto simp: w1_def)
qed

lemma ack_refused:
  assumes rep: "db_rep w db" "valid_user u" "db u = Some a" and e: "e_username e = u" "e_type e = ENT_TYPE_UD" "entry_ok e"
    and "\<not> listening w a"
  shows "\<exists>c w'. clt_send_mess_ack rq e w = ((GEN_ERR_ANY, c), w') \<and> user_entry u c a \<and> effects {} w w' \<and> w_files w' = w_files w"
proof -
  define w1 where "w1 = w\<lparr>w_fds := (w_fds w)(int (Suc (w_next w)) \<mapsto> SockD),
    w_next := Suc (Suc (w_next w)), w_errno := ECONNREFUSED\<rparr>"
  obtain c where c: "user_entry u c a" "aux_connect_clt_listen_thread e w = ((GEN_ERR_ANY, c), w1)"
    using connect_listening [OF rep e] assms(7) by (auto simp: Let_def w1_def)
  moreover have "effects {} w w1" "w_files w1 = w_files w"
    by (auto simp: effects_def w1_def new_fd_def)
  ultimately show ?thesis by (simp add: clt_send_mess_ack_def)
qed

lemma ack_delivered:
  assumes rep: "db_rep w db" "valid_user u" "db u = Some a" and e: "e_username e = u" "e_type e = ENT_TYPE_UD" "entry_ok e"
    and rq: "cstr (rq_op_code rq) = SEND_MESS_ACK" "rq_message_id rq = n" and l: "listening w a"
  shows "\<exists>c w'. clt_send_mess_ack rq e w = ((SRV_SUCCESS, c), w') \<and> user_entry u c a \<and> effects {} w w' \<and>
    w_files w' = w_files w \<and> delivered w w' (a_ip a) (a_port a) (ack_bytes n)"
proof -
  define d where "d = int (Suc (w_next w))"
  define w1 where "w1 = w\<lparr>w_fds := (w_fds w)(d \<mapsto> SockD), w_next := Suc (Suc (w_next w)),
    w_dest := (w_dest w)(d \<mapsto> (a_ip a, a_port a))\<rparr>"
  obtain c where c: "user_entry u c a" "aux_connect_clt_listen_thread e w = ((d, c), w1)"
    using connect_listening [OF rep e] l by (auto simp: Let_def d_def w1_def)
  have calm: "calm w1" and fr: "w_fds w d = None"
    using rep(1) fresh_fdsD [of w "Suc (w_next w)"]
    by (simp_all add: db_rep_def world_ok_def w1_def d_def)
  define w2 where "w2 = w1\<lparr>w_out := (w_out w)(d := w_out w d @ SEND_MESS_ACK @ [NUL])\<rparr>"
  define w3 where "w3 = w1\<lparr>w_out := (w_out w)(d := w_out w d @ ack_bytes n)\<rparr>"
  have "send_string d SEND_MESS_ACK w1 = (0, w2)"
    using send_string_calm [OF calm, of d SEND_MESS_ACK] by (simp add: w1_def w2_def)
  moreover have "send_string d (show_u n) w2 = (0, w3)"
    using send_string_calm [of w2 d "show_u n"] calm by (simp add: w1_def w2_def w3_def ack_bytes_def)
  moreover have "snd (sys_close d w3) = w3\<lparr>w_fds := w_fds w\<rparr>"
    using fr by (simp add: sys_close_def w3_def w1_def fun_upd_idem)
  ultimately have run: "clt_send_mess_ack rq e w = ((SRV_SUCCESS, c), w3\<lparr>w_fds := w_fds w\<rparr>)"
    using c(2) rq by (simp add: clt_send_mess_ack_def d_def)
  have "effects {} w (w3\<lparr>w_fds := w_fds w\<rparr>)"
    by (auto simp: effects_def w3_def w1_def new_fd_def d_def)
  moreover have "delivered w (w3\<lparr>w_fds := w_fds w\<rparr>) (a_ip a) (a_port a) (ack_bytes n)"
    unfolding delivered_def by (rule exI [of _ d]) (simp add: w3_def w1_def new_fd_def d_def)
  moreover have "w_files (w3\<lparr>w_fds := w_fds w\<rparr>) = w_files w"
    by (simp add: w3_def w1_def)
  ultimately show ?thesis using run c(1) by blast
qed

lemma send_ack:
  assumes "db_rep w db" "valid_user u"
    and "e_username e = u" "e_type e = ENT_TYPE_UD" "entry_ok e"
    and rq: "cstr (rq_op_code rq) = SEND_MESS_ACK" "rq_message_id rq = n"
  shows "\<exists>r c w'. clt_send_mess_ack rq e w = ((r, c), w') \<and> e_type c = ENT_TYPE_UD \<and> entry_ok c \<and>
    effects {} w w' \<and> w_files w' = w_files w \<and>
    (\<forall>a. db u = Some a \<longrightarrow> listening w a \<longrightarrow> delivered w w' (a_ip a) (a_port a) (ack_bytes n))"
proof (cases "db u")
  case None
  have "effects {} w (w\<lparr>w_errno := ENOENT\<rparr>)"
    by (simp add: effects_def)
  then show ?thesis
    using connect_missing_user [OF assms(1,2) None assms(3,4)] None assms(4,5)
    by (simp add: clt_send_mess_ack_def)
next
  case (Some a)
  then show ?thesis
    using ack_refused [OF assms(1,2) Some assms(3-5)] ack_delivered [OF assms(1,2) Some assms(3-5) rq] user_entry_facts(1,3)
    by (cases "listening w a") fastforce+
qed

subsection \<open>Delivery of pending messages\<close>

lemma msg_entry_facts:
  assumes "msg_entry u n m e"
  shows "entry_ok e" "e_username e = u" "e_type e = ENT_TYPE_P_MSG" "e_msg_id e = n"
    "e_msg_sender e = fst m" "e_msg_content e = snd m" "valid_user (fst m)" "fits_array 256 (snd m)"
  using assms by (auto simp: msg_entry_def)

lemma valid_user_fits [simp]: "valid_user u \<Longrightarrow> fits_array 512 u"
  by (simp add: valid_user_def fits_array_def)

lemma effects_log [simp]: "effects D w (log_sent n s u w)" "w_files (log_sent n s u w) = w_files w"
  by (simp_all add: effects_def log_sent_def printf_def)

lemma effects_quiet [simp]:
  "effects D w (w\<lparr>w_errno := x, w_next := Suc (w_next w)\<rparr>)"
  "effects D w (w\<lparr>w_errno := x\<rparr>)" "effects D w (w\<lparr>w_next := Suc (w_next w)\<rparr>)"
  "effects D w (clear_errno w)"
  by (simp_all add: effects_def clear_errno_def)

text \<open>The parts of a round: the message is sent and deleted, the sender is told.\<close>

lemma pend_deliver:
  assumes rep: "db_rep w db" "valid_user u" "db u = Some a" and l: "listening w a" and c: "msg_entry u n m c"
    and n: "a_pend a n = Some m" and r: "e_username r = u" "e_type r = ENT_TYPE_UD" "entry_ok r"
    and mr: "cstr (rq_op_code mr) = SEND_MESSAGE" "cstr (rq_message_sender mr) = fst m"
      "rq_message_id mr = n" "cstr (rq_message_content mr) = snd m"
  shows "\<exists>r' w2 w'. clt_send_message mr r w = ((SRV_SUCCESS, r'), w2) \<and> user_entry u r' a \<and>
    db_io_op_usr_ent c DELETE (log_sent (rq_message_id mr) (cstr (rq_message_sender mr)) (cstr (rq_recipient mr)) w2) =
      ((DBMS_SUCCESS, c), w') \<and> effects {} w w' \<and> db_rep w' (db(u \<mapsto> a\<lparr>a_pend := (a_pend a)(n := None)\<rparr>)) \<and>
    delivered w w' (a_ip a) (a_port a) (message_bytes (fst m) n (snd m))"
proof -
  obtain r2 w2 where s2: "clt_send_message mr r w = ((SRV_SUCCESS, r2), w2)" "user_entry u r2 a"
      "effects {} w w2" "w_files w2 = w_files w"
      "delivered w w2 (a_ip a) (a_port a) (message_bytes (fst m) n (snd m))"
    using send_message_listening [OF rep l r mr] by blast
  define w3 where "w3 = log_sent (rq_message_id mr) (cstr (rq_message_sender mr)) (cstr (rq_recipient mr)) w2"
  have e3: "effects {} w w3" "w_files w3 = w_files w" and e23: "effects {} w2 w3"
    using effects_trans [OF s2(3)] s2(4) by (simp_all add: w3_def)
  have rep3: "db_rep w3 db"
    using db_rep_effects [OF rep(1) e3] by simp
  obtain w4 where w4: "db_io_op_usr_ent c DELETE w3 = ((DBMS_SUCCESS, c), w4)" "db_only w3 w4"
      "db_rep w4 (db(u \<mapsto> a\<lparr>a_pend := (a_pend a)(n := None)\<rparr>))"
    using delete_message_refines [OF rep3 rep(2,3) c] n by auto
  note e34 = db_only_effects [OF w4(2)]
  have "delivered w w4 (a_ip a) (a_port a) (message_bytes (fst m) n (snd m))"
    by (rule delivered_later [OF s2(5) effects_trans [OF e23 e34]])
  then show ?thesis
    using s2(1,2) w4(1,3) effects_trans [OF e3(1) e34] unfolding w3_def by blast
qed

lemma pend_acknowledge:
  assumes rep: "db_rep w (db(u \<mapsto> a\<lparr>a_pend := p\<rparr>))" "db u = Some a" and m: "valid_user v"
    and s: "e_username s = v" "e_type s = ENT_TYPE_UD" "entry_ok s"
    and ar: "cstr (rq_op_code ar) = SEND_MESS_ACK" "rq_message_id ar = n"
  shows "\<exists>x s' w'. clt_send_mess_ack ar s w = ((x, s'), w') \<and> e_type s' = ENT_TYPE_UD \<and> entry_ok s' \<and> effects {} w w' \<and>
    db_rep w' (db(u \<mapsto> a\<lparr>a_pend := p\<rparr>)) \<and>
    (\<forall>b. db v = Some b \<longrightarrow> listening w b \<longrightarrow> delivered w w' (a_ip b) (a_port b) (ack_bytes n))"
proof -
  let ?db = "db(u \<mapsto> a\<lparr>a_pend := p\<rparr>)"
  obtain x s' w' where w': "clt_send_mess_ack ar s w = ((x, s'), w')" "e_type s' = ENT_TYPE_UD" "entry_ok s'"
      "effects {} w w'" "w_files w' = w_files w"
      "\<And>b. ?db v = Some b \<Longrightarrow> listening w b \<Longrightarrow> delivered w w' (a_ip b) (a_port b) (ack_bytes n)"
    using send_ack [OF rep(1) m s ar] by blast
  have "delivered w w' (a_ip b) (a_port b) (ack_bytes n)" if b: "db v = Some b" "listening w b" for b
  proof -
    obtain b' where "?db v = Some b'" "a_ip b' = a_ip b" "a_port b' = a_port b"
      using b(1) rep(2) by (cases "v = u") auto
    then show ?thesis using w'(6) [of b'] b(2) by simp
  qed
  moreover have "db_rep w' ?db" by (rule db_rep_effects [OF rep(1) w'(4,5)]) simp
  ultimately show ?thesis using w'(1-4) by blast
qed

lemma pend_step:
  assumes rep: "db_rep w db" "valid_user u" "db u = Some a" and l: "listening w a"
    and pend: "a_pend a \<noteq> Map.empty"
    and p: "e_username p = u" "e_type p = ENT_TYPE_P_MSG" "entry_ok p"
    and r: "e_username r = u" "e_type r = ENT_TYPE_UD" "entry_ok r"
    and s: "e_type s = ENT_TYPE_UD" "entry_ok s"
    and rq: "cstr (rq_op_code mr) = SEND_MESSAGE" "cstr (rq_op_code ar) = SEND_MESS_ACK"
  shows "\<exists>n m mr' ar' s' r' p' w'. a_pend a n = Some m \<and>
    pend_loop mr ar s r p w = pend_loop mr' ar' s' r' p' w' \<and>
    db_rep w' (db(u \<mapsto> a\<lparr>a_pend := (a_pend a)(n := None)\<rparr>)) \<and> effects {} w w' \<and>
    delivered w w' (a_ip a) (a_port a) (message_bytes (fst m) n (snd m)) \<and>
    (\<forall>b. db (fst m) = Some b \<longrightarrow> listening w b \<longrightarrow> delivered w w' (a_ip b) (a_port b) (ack_bytes n)) \<and>
    e_username p' = u \<and> e_type p' = ENT_TYPE_P_MSG \<and> entry_ok p' \<and>
    e_username r' = u \<and> e_type r' = ENT_TYPE_UD \<and> entry_ok r' \<and>
    e_type s' = ENT_TYPE_UD \<and> entry_ok s' \<and>
    cstr (rq_op_code mr') = SEND_MESSAGE \<and> cstr (rq_op_code ar') = SEND_MESS_ACK"
proof -
  obtain n m c x where n: "a_pend a n = Some m" and c: "msg_entry u n m c"
    and get: "db_get_pend_msg p w = ((DBMS_SUCCESS, c), w\<lparr>w_errno := x, w_next := Suc (w_next w)\<rparr>)"
    using get_pend_refines [OF rep pend p] by blast
  note cf = msg_entry_facts [OF c]
  let ?w = "w\<lparr>w_errno := x, w_next := Suc (w_next w)\<rparr>"
  define mr1 where "mr1 = mr\<lparr>rq_client_port := strcpy_buf (e_msg_sender c) (rq_client_port mr),
    rq_message_id := e_msg_id c, rq_message_content := strcpy_buf (e_msg_content c) (rq_message_content mr)\<rparr>"
  define ar1 where "ar1 = ar\<lparr>rq_message_id := e_msg_id c\<rparr>"
  define s1 where "s1 = set_e_username (e_msg_sender c) s"
  have ops: "cstr (rq_op_code mr1) = SEND_MESSAGE" "cstr (rq_message_sender mr1) = fst m"
      "rq_message_id mr1 = n" "cstr (rq_message_content mr1) = snd m"
      "cstr (rq_op_code ar1) = SEND_MESS_ACK" "rq_message_id ar1 = n"
    using rq cf by (simp_all add: mr1_def ar1_def valid_user_def fits_array_def)
  have s1: "e_username s1 = fst m" "e_type s1 = ENT_TYPE_UD" "entry_ok s1"
    using s cf(5,7) by (simp_all add: s1_def cmem)
  have w1: "db_rep ?w db" "listening ?w a" and e1: "effects {} w ?w"
    using db_rep_effects [OF rep(1), of "{}" ?w] l by simp_all
  obtain r2 w2 w4 where w4: "clt_send_message mr1 r ?w = ((SRV_SUCCESS, r2), w2)" "user_entry u r2 a"
      "db_io_op_usr_ent c DELETE (log_sent (rq_message_id mr1) (cstr (rq_message_sender mr1)) (cstr (rq_recipient mr1)) w2) =
        ((DBMS_SUCCESS, c), w4)" "effects {} ?w w4" "db_rep w4 (db(u \<mapsto> a\<lparr>a_pend := (a_pend a)(n := None)\<rparr>))"
      "delivered ?w w4 (a_ip a) (a_port a) (message_bytes (fst m) n (snd m))"
    using pend_deliver [OF w1(1) rep(2,3) w1(2) c n r ops(1-4)] by blast
  have e14: "effects {} w w4" by (rule effects_trans [OF e1 w4(4)])
  obtain y s5 w5 where w5: "clt_send_mess_ack ar1 s1 w4 = ((y, s5), w5)" "e_type s5 = ENT_TYPE_UD" "entry_ok s5"
      "effects {} w4 w5" "db_rep w5 (db(u \<mapsto> a\<lparr>a_pend := (a_pend a)(n := None)\<rparr>))"
      "\<And>b. db (fst m) = Some b \<Longrightarrow> listening w4 b \<Longrightarrow> delivered w4 w5 (a_ip b) (a_port b) (ack_bytes n)"
    using pend_acknowledge [OF w4(5) rep(3) cf(7) s1 ops(5,6)] by blast
  have "pend_loop mr ar s r p w = pend_loop mr1 ar1 s5 r2 c w5"
    using get w4(1,3) w5(1)
    by (subst pend_loop.simps) (simp add: mr1_def [symmetric] ar1_def [symmetric] s1_def [symmetric] Let_def)
  moreover have "delivered w w5 (a_ip a) (a_port a) (message_bytes (fst m) n (snd m))"
    by (rule delivered_later [OF delivered_earlier [OF e1 w4(6)] w5(4)])
  moreover have "delivered w w5 (a_ip b) (a_port b) (ack_bytes n)" if "db (fst m) = Some b" "listening w b" for b
    using w5(6) [OF that(1)] that(2) effects_fields(4) [OF e14] delivered_earlier [OF e14] by simp
  ultimately show ?thesis
    using n w5(2,3,5) effects_trans [OF e14 w5(4)] cf(1-3) user_entry_facts(1-3) [OF w4(2)] ops(1,5) by blast
qed

lemma pend_loop_empty:
  assumes "db_rep w db" "valid_user u" "db u = Some a" "a_pend a = Map.empty"
    and "e_username p = u" "e_type p = ENT_TYPE_P_MSG"
  shows "pend_loop mr ar s r p w = Some (SRV_SUCCESS, clear_errno w)"
  using get_pend_none [OF assms] by (subst pend_loop.simps) simp

lemma pend_loop_delivers:
  assumes "db_rep w db" "valid_user u" "db u = Some a" "listening w a"
    and "e_username p = u" "e_type p = ENT_TYPE_P_MSG" "entry_ok p"
    and "e_username r = u" "e_type r = ENT_TYPE_UD" "entry_ok r"
    and "e_type s = ENT_TYPE_UD" "entry_ok s"
    and "cstr (rq_op_code mr) = SEND_MESSAGE" "cstr (rq_op_code ar) = SEND_MESS_ACK"
  shows "\<exists>w'. pend_loop mr ar s r p w = Some (SRV_SUCCESS, w') \<and> effects {} w w' \<and>
    db_rep w' (db(u \<mapsto> a\<lparr>a_pend := Map.empty\<rparr>)) \<and>
    (\<forall>n m. a_pend a n = Some m \<longrightarrow> delivered w w' (a_ip a) (a_port a) (message_bytes (fst m) n (snd m))) \<and>
    (\<forall>n m b. a_pend a n = Some m \<longrightarrow> db (fst m) = Some b \<longrightarrow> listening w b \<longrightarrow>
       delivered w w' (a_ip b) (a_port b) (ack_bytes n))"
  using assms
proof (induction "card (dom (a_pend a))" arbitrary: w db a p r s mr ar rule: less_induct)
  case less
  note rep = less.prems(1-3)
  show ?case
  proof (cases "a_pend a = Map.empty")
    case True
    have "a\<lparr>a_pend := Map.empty\<rparr> = a"
      using True by simp
    then have "db(u \<mapsto> a\<lparr>a_pend := Map.empty\<rparr>) = db"
      using rep(3) by (simp add: fun_upd_idem)
    then show ?thesis
      using pend_loop_empty [OF rep True less.prems(5,6)] True db_rep_effects [OF rep(1), of "{}" "clear_errno w"]
      by (simp add: clear_errno_def)
  next
    case False
    obtain n m mr' ar' s' r' p' w1 where st: "a_pend a n = Some m"
      "pend_loop mr ar s r p w = pend_loop mr' ar' s' r' p' w1"
      "db_rep w1 (db(u \<mapsto> a\<lparr>a_pend := (a_pend a)(n := None)\<rparr>))" "effects {} w w1"
      "delivered w w1 (a_ip a) (a_port a) (message_bytes (fst m) n (snd m))"
      "\<And>b. db (fst m) = Some b \<Longrightarrow> listening w b \<Longrightarrow> delivered w w1 (a_ip b) (a_port b) (ack_bytes n)"
      "e_username p' = u" "e_type p' = ENT_TYPE_P_MSG" "entry_ok p'"
      "e_username r' = u" "e_type r' = ENT_TYPE_UD" "entry_ok r'"
      "e_type s' = ENT_TYPE_UD" "entry_ok s'"
      "cstr (rq_op_code mr') = SEND_MESSAGE" "cstr (rq_op_code ar') = SEND_MESS_ACK"
      using pend_step [OF less.prems(1-4) False less.prems(5-14)] by auto
    let ?a = "a\<lparr>a_pend := (a_pend a)(n := None)\<rparr>"
    let ?db = "db(u \<mapsto> ?a)"
    have acc: "w_accepts w1 = w_accepts w"
      using effects_fields(4) [OF st(4)] .
    have "dom (a_pend ?a) \<subset> dom (a_pend a)"
      using st(1) by auto
    then have "card (dom (a_pend ?a)) < card (dom (a_pend a))"
      by (intro psubset_card_mono) auto
    then have "\<exists>w'. pend_loop mr' ar' s' r' p' w1 = Some (SRV_SUCCESS, w') \<and> effects {} w1 w' \<and>
      db_rep w' (?db(u \<mapsto> ?a\<lparr>a_pend := Map.empty\<rparr>)) \<and>
      (\<forall>n m. a_pend ?a n = Some m \<longrightarrow> delivered w1 w' (a_ip ?a) (a_port ?a) (message_bytes (fst m) n (snd m))) \<and>
      (\<forall>n m b. a_pend ?a n = Some m \<longrightarrow> ?db (fst m) = Some b \<longrightarrow> listening w1 b \<longrightarrow>
         delivered w1 w' (a_ip b) (a_port b) (ack_bytes n))"
      using rep(2) st less.prems(4) acc by (intro less.hyps) auto
    then obtain w2 where ih: "pend_loop mr' ar' s' r' p' w1 = Some (SRV_SUCCESS, w2)" "effects {} w1 w2"
      "db_rep w2 (db(u \<mapsto> a\<lparr>a_pend := Map.empty\<rparr>))"
      "\<And>k m. k \<noteq> n \<Longrightarrow> a_pend a k = Some m \<Longrightarrow>
        delivered w1 w2 (a_ip a) (a_port a) (message_bytes (fst m) k (snd m))"
      "\<And>k m b. k \<noteq> n \<Longrightarrow> a_pend a k = Some m \<Longrightarrow> ?db (fst m) = Some b \<Longrightarrow> listening w1 b \<Longrightarrow>
         delivered w1 w2 (a_ip b) (a_port b) (ack_bytes k)"
      by auto
    have d: "delivered w w2 (a_ip a) (a_port a) (message_bytes (fst m') k (snd m'))"
      if "a_pend a k = Some m'" for k m'
      using that st(1,5) ih(2,4) delivered_later delivered_earlier [OF st(4)]
      by (cases "k = n") auto
    have ack: "delivered w w2 (a_ip b) (a_port b) (ack_bytes k)"
      if k: "a_pend a k = Some m'" and b: "db (fst m') = Some b" and lb: "listening w b" for k m' b
    proof (cases "k = n")
      case True
      then show ?thesis
        using delivered_later [OF st(6) [OF _ lb] ih(2)] k b st(1) by simp
    next
      case False
      obtain b' where "?db (fst m') = Some b'" "a_ip b' = a_ip b" "a_port b' = a_port b"
        using b rep(3) by (cases "fst m' = u") auto
      then show ?thesis
        using ih(5) [OF False k, of b'] lb acc delivered_earlier [OF st(4)] by simp
    qed
    show ?thesis
      using st(2) ih(1,3) effects_trans [OF st(4) ih(2)] d ack by auto
  qed
qed

lemma pend_loop_refused:
  assumes rep: "db_rep w db" "valid_user u" "db u = Some a" and l: "\<not> listening w a"
    and pend: "a_pend a \<noteq> Map.empty"
    and p: "e_username p = u" "e_type p = ENT_TYPE_P_MSG" "entry_ok p"
    and r: "e_username r = u" "e_type r = ENT_TYPE_UD" "entry_ok r"
  shows "\<exists>w'. pend_loop mr ar s r p w = Some (SRV_ERR_SEND_ANY, w') \<and> effects {} w w' \<and>
    db_rep w' (db(u \<mapsto> a\<lparr>a_status := STATUS_DCN\<rparr>))"
proof -
  obtain n m c x where n: "a_pend a n = Some m" and c: "msg_entry u n m c"
    and get: "db_get_pend_msg p w = ((DBMS_SUCCESS, c), w\<lparr>w_errno := x, w_next := Suc (w_next w)\<rparr>)"
    using get_pend_refines [OF rep pend p] by blast
  let ?w1 = "w\<lparr>w_errno := x, w_next := Suc (w_next w)\<rparr>"
  define mr1 where "mr1 = mr\<lparr>rq_client_port := strcpy_buf (e_msg_sender c) (rq_client_port mr),
    rq_message_id := e_msg_id c, rq_message_content := strcpy_buf (e_msg_content c) (rq_message_content mr)\<rparr>"
  have rep1: "db_rep ?w1 db" and e1: "effects {} w ?w1"
    using db_rep_effects [OF rep(1), of "{}" ?w1] by simp_all
  obtain r2 w2 where s2: "clt_send_message mr1 r ?w1 = ((GEN_ERR_ANY, r2), w2)" "user_entry u r2 a"
      "effects {} ?w1 w2" "w_files w2 = w_files ?w1"
    using send_message_refused [OF rep1 rep(2,3) _ r, of mr1] l by auto
  have "db_rep w2 db"
    using db_rep_effects [OF rep1 s2(3,4)] by simp
  moreover have "user_entry u (set_e_status STATUS_DCN r2) (a\<lparr>a_status := STATUS_DCN\<rparr>)"
    using s2(2) by (simp add: user_entry_iff cmem)
  ultimately obtain w3 where w3: "db_io_op_usr_ent (set_e_status STATUS_DCN r2) MODIFY w2 =
      ((DBMS_SUCCESS, set_e_status STATUS_DCN r2), w3)" "db_only w2 w3"
      "db_rep w3 (db(u \<mapsto> a\<lparr>a_status := STATUS_DCN\<rparr>))"
    using modify_account_refines [of w2 db u a] rep(2,3) by fastforce
  have "pend_loop mr ar s r p w = Some (SRV_ERR_SEND_ANY, w3)"
    using get s2(1) w3(1) by (subst pend_loop.simps) (simp add: mr1_def [symmetric] Let_def)
  then show ?thesis
    using w3 effects_trans [OF effects_trans [OF e1 s2(3)] db_only_effects [OF w3(2)]] by blast
qed

lemma send_pend_msgs_no_user:
  assumes "db_rep w db" "valid_user u" "db u = None" and "e_username p = u" "garbage_ok g"
  shows "aux_connect_send_pend_msgs g p w = Some (DBMS_ERR_ANY, w\<lparr>w_errno := ENOENT\<rparr>)"
proof -
  have "entry_ok (g_entry g v)" for v
    using assms(5) by (simp add: garbage_ok_def)
  then show ?thesis
    using assms(2,4) account_io_missing [OF assms(1-3), of _ READ]
    by (simp add: aux_connect_send_pend_msgs_def Let_def cmem entry_type_ok_def)
qed

lemma send_pend_msgs_refines:
  assumes rep: "db_rep w db" "valid_user u" "db u = Some a" "listening w a"
    and p: "e_username p = u" "e_type p = ENT_TYPE_P_MSG" "entry_ok p" and g: "garbage_ok g"
  shows "\<exists>w'. aux_connect_send_pend_msgs g p w = Some (SRV_SUCCESS, w') \<and> effects {} w w' \<and>
    db_rep w' (db(u \<mapsto> a\<lparr>a_pend := Map.empty\<rparr>)) \<and>
    (\<forall>n m. a_pend a n = Some m \<longrightarrow> delivered w w' (a_ip a) (a_port a) (message_bytes (fst m) n (snd m))) \<and>
    (\<forall>n m b. a_pend a n = Some m \<longrightarrow> db (fst m) = Some b \<longrightarrow> listening w b \<longrightarrow>
       delivered w w' (a_ip b) (a_port b) (ack_bytes n))"
proof -
  have gok: "entry_ok (g_entry g v)" for v
    using g by (simp add: garbage_ok_def)
  let ?r = "set_e_username u (set_e_type ENT_TYPE_UD (g_entry g ''pend.recipient_entry''))"
  have r: "e_username ?r = u" "e_type ?r = ENT_TYPE_UD" "entry_ok ?r"
    using gok rep(2) by (simp_all add: cmem)
  obtain c where c: "db_io_op_usr_ent ?r READ w = ((DBMS_SUCCESS, c), w\<lparr>w_next := Suc (w_next w)\<rparr>)"
      "user_entry u c a"
    using read_account_refines [OF rep(1-3) r] by blast
  let ?w = "w\<lparr>w_next := Suc (w_next w)\<rparr>"
  let ?m = "g_request g ''pend.send_msg_request''" and ?a = "g_request g ''pend.send_msg_ack_request''"
  let ?mr = "?m\<lparr>rq_op_code := strcpy_buf SEND_MESSAGE (rq_op_code ?m)\<rparr>"
  let ?ar = "?a\<lparr>rq_op_code := strcpy_buf SEND_MESS_ACK (rq_op_code ?a)\<rparr>"
  let ?s = "set_e_type ENT_TYPE_UD (g_entry g ''pend.sender_entry'')"
  note cf = user_entry_facts [OF c(2)]
  have "\<exists>w'. pend_loop ?mr ?ar ?s c p ?w = Some (SRV_SUCCESS, w') \<and> effects {} ?w w' \<and>
    db_rep w' (db(u \<mapsto> a\<lparr>a_pend := Map.empty\<rparr>)) \<and>
    (\<forall>n m. a_pend a n = Some m \<longrightarrow> delivered ?w w' (a_ip a) (a_port a) (message_bytes (fst m) n (snd m))) \<and>
    (\<forall>n m b. a_pend a n = Some m \<longrightarrow> db (fst m) = Some b \<longrightarrow> listening ?w b \<longrightarrow>
       delivered ?w w' (a_ip b) (a_port b) (ack_bytes n))"
    by (rule pend_loop_delivers)
      (use rep p cf gok in \<open>simp_all add: cmem SEND_MESSAGE_def SEND_MESS_ACK_def\<close>)
  then obtain w' where w': "pend_loop ?mr ?ar ?s c p ?w = Some (SRV_SUCCESS, w')" "effects {} ?w w'"
    "db_rep w' (db(u \<mapsto> a\<lparr>a_pend := Map.empty\<rparr>))"
    "\<And>n m. a_pend a n = Some m \<Longrightarrow> delivered ?w w' (a_ip a) (a_port a) (message_bytes (fst m) n (snd m))"
    "\<And>n m b. a_pend a n = Some m \<Longrightarrow> db (fst m) = Some b \<Longrightarrow> listening w b \<Longrightarrow>
       delivered ?w w' (a_ip b) (a_port b) (ack_bytes n)"
    by auto
  have e: "effects {} w ?w" by simp
  have "aux_connect_send_pend_msgs g p w = Some (SRV_SUCCESS, w')"
    using c(1) w'(1) p(1) by (simp add: aux_connect_send_pend_msgs_def Let_def)
  then show ?thesis
    using w'(3-5) effects_trans [OF e w'(2)] delivered_earlier [OF e] by blast
qed

end
