(* ===== verification/AccountServices.thy ===== *)
theory AccountServices
  imports Delivery
begin

section \<open>REGISTER, UNREGISTER, CONNECT, DISCONNECT\<close>

text \<open>
  The four services of \<open>src/services.c\<close> that manage an account, in a world without injected
  faults: the reply on the client's socket and the change of the map of accounts, for every
  case the code distinguishes.
\<close>

subsection \<open>Receiving the arguments and answering\<close>

definition request_ok :: "request_t \<Rightarrow> bool" where
  "request_ok rq \<longleftrightarrow> MAX_MSG_SIZE \<le> length (rq_username rq) \<and> MAX_MSG_SIZE \<le> length (rq_client_port rq) \<and>
     MAX_MSG_SIZE \<le> length (rq_message_content rq)"

definition client :: "world \<Rightarrow> fd \<Rightarrow> bool" where
  "client w sock \<longleftrightarrow> w_fds w sock = Some SockD \<and> sock < int (w_next w)"

definition reply_byte :: "u8 \<Rightarrow> bytes" where
  "reply_byte code = [char_of (unat code)]"

text \<open>
  \<open>served sock w w' rest bs\<close>: the input of the socket was consumed up to \<open>rest\<close> and \<open>bs\<close> was
  written to it; the other descriptors of before are untouched.
\<close>

definition served :: "fd \<Rightarrow> world \<Rightarrow> world \<Rightarrow> bytes \<Rightarrow> bytes \<Rightarrow> bool" where
  "served sock w w' rest bs \<longleftrightarrow> effects {sock} w w' \<and> w_fds w' sock = w_fds w sock \<and>
     w_in w' sock = rest \<and> w_out w' sock = w_out w sock @ bs"

lemma client_calm:
  assumes "db_rep w db" and "client w sock"
  shows "calm w" "w_fds w sock = Some SockD" "\<And>d. d \<in> {sock} \<Longrightarrow> d < int (w_next w)"
  using assms by (auto simp: client_def db_rep_def world_ok_def)

lemma receive:
  assumes "db_rep w db" "client w sock" "MAX_MSG_SIZE \<le> length buf" "wire_ok s"
    and "w_in w sock = s @ NUL # rest"
  shows "\<exists>w1. recv_string sock buf w = ((0, strcpy_buf s buf), w1) \<and> served sock w w1 rest [] \<and>
    db_rep w1 db \<and> client w1 sock"
proof -
  let ?w = "w\<lparr>w_errno := E0, w_in := (w_in w)(sock := rest)\<rparr>"
  have "recv_string sock buf w = ((0, strcpy_buf s buf), ?w)"
    using client_calm [OF assms(1,2)] assms(3-5) by (intro recv_string_calm) auto
  moreover have "effects {sock} w ?w"
    by (auto simp: effects_def)
  moreover have "db_rep ?w db"
    using db_rep_effects [OF assms(1) calculation(2)] client_calm [OF assms(1,2)] by simp
  ultimately show ?thesis
    using assms(2) by (auto simp: served_def client_def)
qed

lemma served_trans:
  "served sock w w1 r1 b1 \<Longrightarrow> served sock w1 w2 r2 b2 \<Longrightarrow> served sock w w2 r2 (b1 @ b2)"
  by (auto simp: served_def dest: effects_trans)

lemma served_effects:
  assumes "served sock w w1 r b" "effects {} w1 w2" "client w1 sock"
  shows "served sock w w2 r b" "client w2 sock"
proof -
  have "\<not> new_fd w1 w2 sock"
    using assms(3) by (simp add: client_def new_fd_def)
  then show "served sock w w2 r b" "client w2 sock"
    using assms effects_fields(6) [OF assms(2)] effects_fields(7-9) [OF assms(2), of sock] effects_trans [OF _ effects_mono [OF assms(2)]]
    by (auto simp: served_def client_def)
qed

lemma reply_served:
  assumes "db_rep w db" "client w sock"
  shows "\<exists>w'. send_server_reply sock code w = (0, w') \<and>
    served sock w w' (w_in w sock) (reply_byte code) \<and> db_rep w' db \<and> client w' sock"
proof -
  let ?w = "w\<lparr>w_out := (w_out w)(sock := w_out w sock @ reply_byte code)\<rparr>"
  have "send_server_reply sock code w = (0, ?w)"
    using send_server_reply_calm [OF client_calm(1,2) [OF assms]] by (simp add: reply_byte_def)
  moreover have "effects {sock} w ?w"
    by (auto simp: effects_def)
  moreover have "db_rep ?w db"
    using db_rep_effects [OF assms(1) calculation(2)] client_calm [OF assms(1,2)] by simp
  ultimately show ?thesis
    using assms(2) by (auto simp: served_def client_def)
qed

lemma string_served:
  assumes "db_rep w db" "client w sock"
  shows "\<exists>w'. send_string sock s w = (0, w') \<and>
    served sock w w' (w_in w sock) (s @ [NUL]) \<and> db_rep w' db \<and> client w' sock"
proof -
  let ?w = "w\<lparr>w_out := (w_out w)(sock := w_out w sock @ s @ [NUL])\<rparr>"
  have "send_string sock s w = (0, ?w)"
    using send_string_calm [OF client_calm(1,2) [OF assms]] by simp
  moreover have "effects {sock} w ?w"
    by (auto simp: effects_def)
  moreover have "db_rep ?w db"
    using db_rep_effects [OF assms(1) calculation(2)] client_calm [OF assms(1,2)] by simp
  ultimately show ?thesis
    using assms(2) by (auto simp: served_def client_def)
qed

text \<open>The common end of a service: what the database did, the log line, the reply.\<close>

lemma answer:
  assumes recv: "served sock w w1 rest []" "client w1 sock"
    and work: "effects {} w1 w2" "db_rep w2 db'"
  shows "\<exists>w'. send_server_reply sock code (log_result op user code w2) = (0, w') \<and>
    served sock w w' rest (reply_byte code) \<and> db_rep w' db' \<and> client w' sock"
proof -
  let ?w = "log_result op user code w2"
  have l: "effects {} w2 ?w" "w_files ?w = w_files w2"
    by (simp_all add: log_result_def printf_def effects_def)
  have s: "served sock w ?w rest []" "client ?w sock"
    using served_effects [OF recv(1) effects_trans [OF work(1) l(1)] recv(2)] by simp_all
  have "db_rep ?w db'"
    using db_rep_effects [OF work(2) l] by simp
  then obtain w' where "send_server_reply sock code ?w = (0, w')" "served sock ?w w' (w_in ?w sock) (reply_byte code)"
      "db_rep w' db'" "client w' sock"
    using reply_served [OF _ s(2)] by blast
  moreover have "w_in ?w sock = rest"
    using s(1) by (simp add: served_def)
  ultimately show ?thesis
    using served_trans [OF s(1)] by fastforce
qed

lemma valid_wire: "valid_user u \<Longrightarrow> LF \<notin> set u \<Longrightarrow> wire_ok u"
  by (simp add: valid_user_def wire_ok_def MAX_MSG_SIZE_def)

lemma valid_user_nul: "valid_user u \<Longrightarrow> NUL \<notin> set u"
  by (simp add: valid_user_def)

subsection \<open>REGISTER and UNREGISTER\<close>

text \<open>The account a registration makes: all but the message number is what the stack held.\<close>

definition new_account :: "garbage \<Rightarrow> account" where
  "new_account g = (entry_account (g_entry g ''register.entry''))\<lparr>a_last := 0\<rparr>"

lemma register_new:
  assumes rep: "db_rep w db" and sock: "client w sock" and rq: "request_ok rq" and g: "garbage_ok g"
    and u: "valid_user u" "wire_ok u" "w_in w sock = u @ NUL # rest" and new: "db u = None"
  shows "\<exists>w'. srv_register g sock rq w = (rq\<lparr>rq_username := strcpy_buf u (rq_username rq)\<rparr>, w') \<and>
    served sock w w' rest (reply_byte SRV_SUCCESS) \<and> db_rep w' (db(u \<mapsto> new_account g))"
proof -
  obtain w1 where w1: "recv_string sock (rq_username rq) w = ((0, strcpy_buf u (rq_username rq)), w1)"
      "served sock w w1 rest []" "db_rep w1 db" "client w1 sock"
    using receive [OF rep sock _ u(2,3), of "rq_username rq"] rq by (auto simp: request_ok_def)
  let ?g = "g_entry g ''register.entry''"
  let ?e = "set_e_last_msg_id 0 (set_e_type ENT_TYPE_UD (set_e_username u ?g))"
  have gok: "entry_ok ?g"
    using g by (simp add: garbage_ok_def)
  have e: "e_username ?e = u" "e_type ?e = ENT_TYPE_UD" "entry_ok ?e"
    and acc: "entry_account ?e = new_account g"
    using gok u(1) by (simp_all add: cmem entry_account_def new_account_def)
  obtain w2 where w2: "db_creat_usr_tbl ?e w1 = ((DBMS_SUCCESS, ?e), w2)" "db_only w1 w2"
      "db_rep w2 (db(u \<mapsto> entry_account ?e))"
    using create_user_refines [OF w1(3) e(1) u(1) new e(2,3)] by blast
  obtain w' where w': "send_server_reply sock SRV_SUCCESS (log_result REGISTER u SRV_SUCCESS w2) = (0, w')"
      "served sock w w' rest (reply_byte SRV_SUCCESS)" "db_rep w' (db(u \<mapsto> entry_account ?e))"
    using answer [OF w1(2,4) db_only_effects [OF w2(2)] w2(3)] by blast
  have "srv_register g sock rq w = (rq\<lparr>rq_username := strcpy_buf u (rq_username rq)\<rparr>, w')"
    using w1(1) w2(1) w'(1) valid_user_nul [OF u(1)] by (simp add: srv_register_def Let_def)
  then show ?thesis
    using w'(2,3) by (simp add: acc)
qed

lemma register_taken:
  assumes rep: "db_rep w db" and sock: "client w sock" and rq: "request_ok rq" and g: "garbage_ok g"
    and u: "valid_user u" "wire_ok u" "w_in w sock = u @ NUL # rest" and old: "db u \<noteq> None"
  shows "\<exists>w'. srv_register g sock rq w = (rq\<lparr>rq_username := strcpy_buf u (rq_username rq)\<rparr>, w') \<and>
    served sock w w' rest (reply_byte SRV_ERR_REG_USR_ALREADY_REG) \<and> db_rep w' db"
proof -
  obtain w1 where w1: "recv_string sock (rq_username rq) w = ((0, strcpy_buf u (rq_username rq)), w1)"
      "served sock w w1 rest []" "db_rep w1 db" "client w1 sock"
    using receive [OF rep sock _ u(2,3), of "rq_username rq"] rq by (auto simp: request_ok_def)
  let ?e = "set_e_last_msg_id 0 (set_e_type ENT_TYPE_UD (set_e_username u (g_entry g ''register.entry'')))"
  have e: "e_username ?e = u"
    using g u(1) by (simp add: garbage_ok_def cmem)
  obtain x where x: "db_creat_usr_tbl ?e w1 = ((DBMS_ERR_EXISTS, ?e), w1\<lparr>w_errno := x\<rparr>)"
    using create_user_exists [OF w1(3), of ?e] e u(1) old by auto
  obtain w' where w': "send_server_reply sock SRV_ERR_REG_USR_ALREADY_REG
        (log_result REGISTER u SRV_ERR_REG_USR_ALREADY_REG (w1\<lparr>w_errno := x\<rparr>)) = (0, w')"
      "served sock w w' rest (reply_byte SRV_ERR_REG_USR_ALREADY_REG)" "db_rep w' db"
    using answer [OF w1(2,4) effects_quiet(2)] w1(3) by (metis db_rep_simps(2))
  have "srv_register g sock rq w = (rq\<lparr>rq_username := strcpy_buf u (rq_username rq)\<rparr>, w')"
    using w1(1) x w'(1) valid_user_nul [OF u(1)] by (simp add: srv_register_def Let_def)
  then show ?thesis
    using w'(2,3) by blast
qed

lemma unregister_known:
  assumes rep: "db_rep w db" and sock: "client w sock" and rq: "request_ok rq"
    and u: "valid_user u" "wire_ok u" "w_in w sock = u @ NUL # rest" and old: "db u \<noteq> None"
  shows "\<exists>w'. srv_unregister g sock rq w = (rq\<lparr>rq_username := strcpy_buf u (rq_username rq)\<rparr>, w') \<and>
    served sock w w' rest (reply_byte SRV_SUCCESS) \<and> db_rep w' (db(u := None))"
proof -
  obtain w1 where w1: "recv_string sock (rq_username rq) w = ((0, strcpy_buf u (rq_username rq)), w1)"
      "served sock w w1 rest []" "db_rep w1 db" "client w1 sock"
    using receive [OF rep sock _ u(2,3), of "rq_username rq"] rq by (auto simp: request_ok_def)
  obtain x where x: "db_user_exists u w1 = (1, w1\<lparr>w_errno := x\<rparr>)"
    using user_exists_refines [OF w1(3) u(1)] old by auto
  obtain w2 where w2: "db_del_usr_tbl u (w1\<lparr>w_errno := x\<rparr>) = (0, w2)" "db_only (w1\<lparr>w_errno := x\<rparr>) w2"
      "db_rep w2 (db(u := None))"
    using delete_user_refines [OF db_rep_simps(2) [OF w1(3)] u(1) old] by blast
  have "effects {} w1 w2"
    by (rule effects_trans [OF _ db_only_effects [OF w2(2)]]) simp
  then obtain w' where w': "send_server_reply sock SRV_SUCCESS (log_result UNREGISTER u SRV_SUCCESS w2) = (0, w')"
      "served sock w w' rest (reply_byte SRV_SUCCESS)" "db_rep w' (db(u := None))"
    using answer [OF w1(2,4) _ w2(3)] by blast
  have "srv_unregister g sock rq w = (rq\<lparr>rq_username := strcpy_buf u (rq_username rq)\<rparr>, w')"
    using w1(1) x w2(1) w'(1) valid_user_nul [OF u(1)] by (simp add: srv_unregister_def Let_def)
  then show ?thesis
    using w'(2,3) by blast
qed

lemma unregister_unknown:
  assumes rep: "db_rep w db" and sock: "client w sock" and rq: "request_ok rq"
    and u: "valid_user u" "wire_ok u" "w_in w sock = u @ NUL # rest" and new: "db u = None"
  shows "\<exists>w'. srv_unregister g sock rq w = (rq\<lparr>rq_username := strcpy_buf u (rq_username rq)\<rparr>, w') \<and>
    served sock w w' rest (reply_byte SRV_ERR_UNREG_USR_NOT_EXISTS) \<and> db_rep w' db"
proof -
  obtain w1 where w1: "recv_string sock (rq_username rq) w = ((0, strcpy_buf u (rq_username rq)), w1)"
      "served sock w w1 rest []" "db_rep w1 db" "client w1 sock"
    using receive [OF rep sock _ u(2,3), of "rq_username rq"] rq by (auto simp: request_ok_def)
  obtain x where x: "db_user_exists u w1 = (0, w1\<lparr>w_errno := x\<rparr>)"
    using user_exists_refines [OF w1(3) u(1)] new by auto
  obtain w' where w': "send_server_reply sock SRV_ERR_UNREG_USR_NOT_EXISTS
        (log_result UNREGISTER u SRV_ERR_UNREG_USR_NOT_EXISTS (w1\<lparr>w_errno := x\<rparr>)) = (0, w')"
      "served sock w w' rest (reply_byte SRV_ERR_UNREG_USR_NOT_EXISTS)" "db_rep w' db"
    using answer [OF w1(2,4) effects_quiet(2)] w1(3) by (metis db_rep_simps(2))
  have "srv_unregister g sock rq w = (rq\<lparr>rq_username := strcpy_buf u (rq_username rq)\<rparr>, w')"
    using w1(1) x w'(1) valid_user_nul [OF u(1)] by (simp add: srv_unregister_def Let_def)
  then show ?thesis
    using w'(2,3) by blast
qed

subsection \<open>CONNECT and DISCONNECT\<close>

lemma garbage_entry [simp]: "garbage_ok g \<Longrightarrow> entry_ok (g_entry g v)"
  by (simp add: garbage_ok_def)

lemma disconnect_user_unknown:
  assumes "db_rep w db" "valid_user u" "db u = None" "cstr (rq_username rq) = u" "garbage_ok g"
  shows "disconnect_user g rq w = (SRV_ERR_DCN_USR_NOT_EXISTS, w\<lparr>w_errno := ENOENT\<rparr>)"
  using account_io_missing [OF assms(1-3), of _ READ] assms(2,4,5)
  by (simp add: disconnect_user_def Let_def cmem entry_type_ok_def)

lemma disconnect_user_known:
  assumes rep: "db_rep w db" "valid_user u" "db u = Some a" and u: "cstr (rq_username rq) = u"
    and g: "garbage_ok g"
  shows "\<exists>w'. disconnect_user g rq w =
      ((if a_status a = STATUS_DCN then SRV_ERR_DCN_USR_NOT_CN else SRV_SUCCESS), w') \<and>
    effects {} w w' \<and>
    db_rep w' (if a_status a = STATUS_DCN then db
      else db(u \<mapsto> a\<lparr>a_status := STATUS_DCN, a_ip := 0, a_port := 0\<rparr>))"
proof -
  let ?e = "set_e_type ENT_TYPE_UD (set_e_username u (g_entry g ''disconnect.entry''))"
  have e: "e_username ?e = u" "e_type ?e = ENT_TYPE_UD" "entry_ok ?e"
    using g rep(2) by (simp_all add: cmem)
  let ?w = "w\<lparr>w_next := Suc (w_next w)\<rparr>"
  obtain c where c: "db_io_op_usr_ent ?e READ w = ((DBMS_SUCCESS, c), ?w)" "user_entry u c a"
    using read_account_refines [OF rep e] by blast
  note cf = user_entry_facts [OF c(2)]
  show ?thesis
  proof (cases "a_status a = STATUS_DCN")
    case True
    have "disconnect_user g rq w = (SRV_ERR_DCN_USR_NOT_CN, ?w)"
      using True c(1) cf(4) u by (simp add: disconnect_user_def Let_def)
    then show ?thesis
      using True rep(1) by (intro exI [of _ ?w]) simp
  next
    case False
    let ?c = "set_e_port 0 (set_e_ip 0 (set_e_status STATUS_DCN c))"
    let ?a = "a\<lparr>a_status := STATUS_DCN, a_ip := 0, a_port := 0\<rparr>"
    have "user_entry u ?c ?a"
      using c(2) by (simp add: user_entry_iff cmem)
    then obtain w' where w': "db_io_op_usr_ent ?c MODIFY ?w = ((DBMS_SUCCESS, ?c), w')" "db_only ?w w'"
        "db_rep w' (db(u \<mapsto> ?a))"
      using modify_account_refines [of ?w db u a ?c ?a] rep by auto
    have "disconnect_user g rq w = (SRV_SUCCESS, w')"
      using False c(1) cf(4) u w'(1) by (simp add: disconnect_user_def Let_def)
    moreover have "effects {} w w'"
      by (rule effects_trans [OF _ db_only_effects [OF w'(2)]]) simp
    ultimately show ?thesis
      using False w'(3) by auto
  qed
qed

lemma disconnect_service:
  assumes rep: "db_rep w db" and sock: "client w sock" and rq: "request_ok rq" and g: "garbage_ok g"
    and u: "valid_user u" "wire_ok u" "w_in w sock = u @ NUL # rest"
  defines "code \<equiv> (case db u of None \<Rightarrow> SRV_ERR_DCN_USR_NOT_EXISTS
      | Some a \<Rightarrow> if a_status a = STATUS_DCN then SRV_ERR_DCN_USR_NOT_CN else SRV_SUCCESS)"
    and "db' \<equiv> (case db u of None \<Rightarrow> db
      | Some a \<Rightarrow> if a_status a = STATUS_DCN then db
          else db(u \<mapsto> a\<lparr>a_status := STATUS_DCN, a_ip := 0, a_port := 0\<rparr>))"
  shows "\<exists>w'. srv_disconnect g sock rq w = (rq\<lparr>rq_username := strcpy_buf u (rq_username rq)\<rparr>, w') \<and>
    served sock w w' rest (reply_byte code) \<and> db_rep w' db'"
proof -
  obtain w1 where w1: "recv_string sock (rq_username rq) w = ((0, strcpy_buf u (rq_username rq)), w1)"
      "served sock w w1 rest []" "db_rep w1 db" "client w1 sock"
    using receive [OF rep sock _ u(2,3), of "rq_username rq"] rq by (auto simp: request_ok_def)
  let ?rq = "rq\<lparr>rq_username := strcpy_buf u (rq_username rq)\<rparr>"
  have user: "cstr (rq_username ?rq) = u"
    using valid_user_nul [OF u(1)] by simp
  have "\<exists>w2. disconnect_user g ?rq w1 = (code, w2) \<and> effects {} w1 w2 \<and> db_rep w2 db'"
  proof (cases "db u")
    case None
    then show ?thesis
      using disconnect_user_unknown [OF w1(3) u(1) None user g] w1(3)
      by (simp add: code_def db'_def)
  next
    case (Some a)
    then show ?thesis
      using disconnect_user_known [OF w1(3) u(1) Some user g]
      by (simp add: code_def db'_def)
  qed
  then obtain w2 where w2: "disconnect_user g ?rq w1 = (code, w2)" "effects {} w1 w2" "db_rep w2 db'"
    by blast
  obtain w' where w': "send_server_reply sock code (log_result DISCONNECT u code w2) = (0, w')"
      "served sock w w' rest (reply_byte code)" "db_rep w' db'"
    using answer [OF w1(2,4) w2(2,3)] by blast
  have "srv_disconnect g sock rq w = (?rq, w')"
    using w1(1) w2(1) w'(1) valid_user_nul [OF u(1)] by (simp add: srv_disconnect_def Let_def)
  then show ?thesis
    using w'(2,3) by blast
qed

lemma str_to_num_show_int:
  "str_to_num (show_u n) INT_T w = ((0, Some (IntNum n)), clear_errno w)"
proof -
  have "uint n < 2 ^ 32" using uint_bounded [of n] by simp
  then have "int (unat n) \<le> LONG_MAX" by (simp add: LONG_MAX_def)
  then have "strtol (show_u n) = (int (unat n), length (show_u n), E0)"
    using strtol_digits [of "show_u n"] show_u_digits by simp
  then show ?thesis
    by (simp add: str_to_num_def clear_errno_def)
qed

lemma getpeername_calm: "calm w \<Longrightarrow> sys_getpeername d w = ((0, w_peer_ip w d), w)"
  by (simp add: sys_getpeername_def may_fail_calm)

lemma connect_user_unknown:
  assumes "db_rep w db" "valid_user u" "db u = None" "cstr (rq_username rq) = u" "garbage_ok g"
  shows "connect_user g sock rq w = (SRV_ERR_CN_USR_NOT_EXISTS, w\<lparr>w_errno := ENOENT\<rparr>)"
  using account_io_missing [OF assms(1-3), of _ READ] assms(2,4,5)
  by (simp add: connect_user_def Let_def cmem entry_type_ok_def)

lemma connect_user_again:
  assumes rep: "db_rep w db" "valid_user u" "db u = Some a" and u: "cstr (rq_username rq) = u"
    and g: "garbage_ok g" and cn: "a_status a = STATUS_CN"
  shows "connect_user g sock rq w = (SRV_ERR_CN_USR_ALREADY_CN, w\<lparr>w_next := Suc (w_next w)\<rparr>)"
proof -
  let ?e = "set_e_type ENT_TYPE_UD (set_e_username u (g_entry g ''connect.entry''))"
  have e: "e_username ?e = u" "e_type ?e = ENT_TYPE_UD" "entry_ok ?e"
    using g rep(2) by (simp_all add: cmem)
  obtain c where c: "db_io_op_usr_ent ?e READ w = ((DBMS_SUCCESS, c), w\<lparr>w_next := Suc (w_next w)\<rparr>)"
      "user_entry u c a"
    using read_account_refines [OF rep e] by blast
  then show ?thesis
    using cn u user_entry_facts(4) [OF c(2)] by (simp add: connect_user_def Let_def)
qed

text \<open>The code decides with a reply code it has not set: only if that is not 3 does it connect.\<close>

lemma connect_user_known:
  assumes rep: "db_rep w db" "valid_user u" "db u = Some a" and u: "cstr (rq_username rq) = u"
    and g: "garbage_ok g" and dcn: "a_status a \<noteq> STATUS_CN" and p: "cstr (rq_client_port rq) = show_u p"
  shows "\<exists>w'. connect_user g sock rq w =
      ((if g_code g ''connect.reply'' = SRV_ERR_CN_ANY then SRV_ERR_CN_ANY else SRV_SUCCESS), w') \<and>
    effects {} w w' \<and>
    db_rep w' (if g_code g ''connect.reply'' = SRV_ERR_CN_ANY then db
      else db(u \<mapsto> a\<lparr>a_status := STATUS_CN, a_ip := w_peer_ip w sock, a_port := ucast p\<rparr>))"
proof -
  let ?e = "set_e_type ENT_TYPE_UD (set_e_username u (g_entry g ''connect.entry''))"
  have e: "e_username ?e = u" "e_type ?e = ENT_TYPE_UD" "entry_ok ?e"
    using g rep(2) by (simp_all add: cmem)
  let ?w = "w\<lparr>w_next := Suc (w_next w)\<rparr>"
  obtain c where c: "db_io_op_usr_ent ?e READ w = ((DBMS_SUCCESS, c), ?w)" "user_entry u c a"
    using read_account_refines [OF rep e] by blast
  note cf = user_entry_facts [OF c(2)]
  let ?w2 = "clear_errno ?w"
  have calm: "calm ?w2"
    using rep(1) by (simp add: db_rep_def world_ok_def clear_errno_def)
  have pre: "effects {} w ?w2" "db_rep ?w2 db"
    using rep(1) by (simp_all add: effects_def clear_errno_def)
  have head: "connect_user g sock rq w =
     (if g_code g ''connect.reply'' \<noteq> SRV_ERR_CN_ANY then
        (case db_io_op_usr_ent (set_e_ip (w_peer_ip w sock) (set_e_port (ucast p) (set_e_status STATUS_CN c))) MODIFY ?w2 of
           ((io2, _), w4) \<Rightarrow>
             (if io2 = DBMS_ERR_NOT_EXISTS then (SRV_ERR_CN_USR_NOT_EXISTS, w4)
              else if io2 < 0 then (SRV_ERR_CN_ANY, w4)
              else (SRV_SUCCESS, w4)))
      else (SRV_ERR_CN_ANY, ?w2))"
    using c(1) cf(4) dcn u p str_to_num_show_int [of p ?w] getpeername_calm [OF calm, of sock]
    by (simp add: connect_user_def Let_def port_of_def clear_errno_def)
  show ?thesis
  proof (cases "g_code g ''connect.reply'' = SRV_ERR_CN_ANY")
    case True
    then show ?thesis using head pre by auto
  next
    case False
    let ?c = "set_e_ip (w_peer_ip w sock) (set_e_port (ucast p) (set_e_status STATUS_CN c))"
    let ?a = "a\<lparr>a_status := STATUS_CN, a_ip := w_peer_ip w sock, a_port := ucast p\<rparr>"
    have "user_entry u ?c ?a"
      using c(2) by (simp add: user_entry_iff cmem)
    then obtain w' where w': "db_io_op_usr_ent ?c MODIFY ?w2 = ((DBMS_SUCCESS, ?c), w')" "db_only ?w2 w'"
        "db_rep w' (db(u \<mapsto> ?a))"
      using modify_account_refines [of ?w2 db u a ?c ?a] rep(2,3) pre(2) by auto
    then show ?thesis
      using False head effects_trans [OF pre(1) db_only_effects [OF w'(2)]] by auto
  qed
qed

lemma receive_two:
  assumes rep: "db_rep w db" "client w sock" and "MAX_MSG_SIZE \<le> length b1" "MAX_MSG_SIZE \<le> length b2"
    and "wire_ok s1" "wire_ok s2" "w_in w sock = s1 @ NUL # s2 @ NUL # rest"
  shows "\<exists>w1 w2. recv_string sock b1 w = ((0, strcpy_buf s1 b1), w1) \<and>
    recv_string sock b2 w1 = ((0, strcpy_buf s2 b2), w2) \<and> served sock w w2 rest [] \<and>
    db_rep w2 db \<and> client w2 sock"
proof -
  obtain w1 where w1: "recv_string sock b1 w = ((0, strcpy_buf s1 b1), w1)"
      "served sock w w1 (s2 @ NUL # rest) []" "db_rep w1 db" "client w1 sock"
    using receive [OF rep assms(3,5,7)] by blast
  obtain w2 where "recv_string sock b2 w1 = ((0, strcpy_buf s2 b2), w2)"
      "served sock w1 w2 rest []" "db_rep w2 db" "client w2 sock"
    using receive [OF w1(3,4) assms(4,6)] w1(2) by (auto simp: served_def)
  then show ?thesis
    using w1 served_trans [OF w1(2)] by fastforce
qed

text \<open>What \<open>srv_connect\<close> does around \<open>connect_user\<close>.\<close>

lemma connect_frame:
  assumes recv: "recv_string sock (rq_username rq) w = ((0, b1), w1)"
      "recv_string sock (rq_client_port rq) w1 = ((0, b2), w2)" "served sock w w2 rest []" "client w2 sock"
    and user: "cstr b1 = u"
    and cu: "connect_user g sock (rq\<lparr>rq_username := b1, rq_client_port := b2\<rparr>) w2 = (code, w3)"
      "effects {} w2 w3" "db_rep w3 db"
    and g: "garbage_ok g" and u: "valid_user u"
  shows "\<exists>w4 p. served sock w w4 rest (reply_byte code) \<and> db_rep w4 db \<and> client w4 sock \<and>
    e_username p = u \<and> e_type p = ENT_TYPE_P_MSG \<and> entry_ok p \<and>
    srv_connect g sock rq w = (case aux_connect_send_pend_msgs g p w4 of
       None \<Rightarrow> None
     | Some (_, w5) \<Rightarrow> Some (rq\<lparr>rq_username := b1, rq_client_port := b2\<rparr>, w5))"
proof -
  obtain w4 where w4: "send_server_reply sock code (log_result CONNECT u code w3) = (0, w4)"
      "served sock w w4 rest (reply_byte code)" "db_rep w4 db" "client w4 sock"
    using answer [OF recv(3,4) cu(2,3)] by blast
  let ?p = "set_e_username u (set_e_type ENT_TYPE_P_MSG (g_entry g ''connect.pend_msg_entry''))"
  have "e_username ?p = u" "e_type ?p = ENT_TYPE_P_MSG" "entry_ok ?p"
    using g u by (simp_all add: cmem)
  moreover have "srv_connect g sock rq w = (case aux_connect_send_pend_msgs g ?p w4 of
       None \<Rightarrow> None
     | Some (_, w5) \<Rightarrow> Some (rq\<lparr>rq_username := b1, rq_client_port := b2\<rparr>, w5))"
    using recv(1,2) user cu(1) w4(1) by (simp add: srv_connect_def Let_def)
  ultimately show ?thesis
    using w4(2-4) by blast
qed

lemma served_later:
  "served sock w w1 rest b \<Longrightarrow> client w1 sock \<Longrightarrow> effects {} w1 w2 \<Longrightarrow> served sock w w2 rest b"
  by (rule served_effects(1))

lemma served_delivered:
  assumes "served sock w w1 rest b" "client w sock" "delivered w1 w2 ip port bs"
  shows "delivered w w2 ip port bs"
  using assms by (intro delivered_earlier_on [of "{sock}" w w1]) (auto simp: served_def client_def)

lemma served_fields:
  assumes "served sock w w1 rest b"
  shows "w_accepts w1 = w_accepts w" "w_peer_ip w1 = w_peer_ip w"
  using assms effects_fields(4,5) [of "{sock}" w w1] by (auto simp: served_def)

lemma wire_show_u: "wire_ok (show_u p)"
proof -
  have "\<not> is_digit LF" "\<not> is_digit NUL"
    by (simp_all add: is_digit_def)
  moreover have "is_digit c" if "c \<in> set (show_u p)" for c
    using show_u_digits [OF that] digit_char_facts(1) by blast
  ultimately have "NUL \<notin> set (show_u p)" "LF \<notin> set (show_u p)"
    by blast+
  then show ?thesis
    using length_show_u [of p] by (simp add: wire_ok_def MAX_MSG_SIZE_def MSG_ID_MAX_STR_SIZE_def)
qed

lemma connect_service:
  assumes rep: "db_rep w db" and sock: "client w sock" and rq: "request_ok rq" and g: "garbage_ok g"
    and u: "valid_user u" "wire_ok u" and input: "w_in w sock = u @ NUL # show_u p @ NUL # rest"
    and a: "db u = Some a" "a_status a \<noteq> STATUS_CN" and luck: "g_code g ''connect.reply'' \<noteq> SRV_ERR_CN_ANY"
    and listens: "w_accepts w (w_peer_ip w sock) (ucast p)"
  shows "\<exists>rq' w'. srv_connect g sock rq w = Some (rq', w') \<and>
    served sock w w' rest (reply_byte SRV_SUCCESS) \<and>
    db_rep w' (db(u \<mapsto> a\<lparr>a_status := STATUS_CN, a_ip := w_peer_ip w sock, a_port := ucast p,
      a_pend := Map.empty\<rparr>)) \<and>
    (\<forall>n m. a_pend a n = Some m \<longrightarrow>
       delivered w w' (w_peer_ip w sock) (ucast p) (message_bytes (fst m) n (snd m)))"
proof -
  note wp = wire_show_u [of p]
  let ?b1 = "strcpy_buf u (rq_username rq)" and ?b2 = "strcpy_buf (show_u p) (rq_client_port rq)"
  obtain w1 w2 where r: "recv_string sock (rq_username rq) w = ((0, ?b1), w1)"
      "recv_string sock (rq_client_port rq) w1 = ((0, ?b2), w2)" "served sock w w2 rest []"
      "db_rep w2 db" "client w2 sock"
    using receive_two [OF rep sock _ _ u(2) wp input, of "rq_username rq" "rq_client_port rq"] rq
    by (auto simp: request_ok_def)
  let ?rq = "rq\<lparr>rq_username := ?b1, rq_client_port := ?b2\<rparr>"
  have cs: "cstr (rq_username ?rq) = u" "cstr (rq_client_port ?rq) = show_u p" "cstr ?b1 = u"
    using valid_user_nul [OF u(1)] wp by (simp_all add: wire_ok_def)
  let ?a = "a\<lparr>a_status := STATUS_CN, a_ip := w_peer_ip w sock, a_port := ucast p\<rparr>"
  obtain w3 where w3: "connect_user g sock ?rq w2 = (SRV_SUCCESS, w3)" "effects {} w2 w3"
      "db_rep w3 (db(u \<mapsto> ?a))"
    using connect_user_known [OF r(4) u(1) a(1) cs(1) g a(2) cs(2), of sock] luck served_fields [OF r(3)]
    by auto
  obtain w4 pm where w4: "served sock w w4 rest (reply_byte SRV_SUCCESS)" "db_rep w4 (db(u \<mapsto> ?a))" "client w4 sock"
      "e_username pm = u" "e_type pm = ENT_TYPE_P_MSG" "entry_ok pm"
      "srv_connect g sock rq w = (case aux_connect_send_pend_msgs g pm w4 of
         None \<Rightarrow> None | Some (_, w5) \<Rightarrow> Some (?rq, w5))"
    using connect_frame [OF r(1-3,5) cs(3) w3 g u(1)] by blast
  obtain w5 where w5: "aux_connect_send_pend_msgs g pm w4 = Some (SRV_SUCCESS, w5)" "effects {} w4 w5"
      "db_rep w5 ((db(u \<mapsto> ?a))(u \<mapsto> ?a\<lparr>a_pend := Map.empty\<rparr>))"
      "\<And>n m. a_pend ?a n = Some m \<Longrightarrow> delivered w4 w5 (a_ip ?a) (a_port ?a) (message_bytes (fst m) n (snd m))"
    using send_pend_msgs_refines [OF w4(2) u(1) _ _ w4(4-6) g, of ?a] served_fields [OF w4(1)] listens
    by auto
  show ?thesis
    using w4(7) w5 served_later [OF w4(1,3) w5(2)] served_delivered [OF w4(1) sock] by auto
qed

lemma connect_service_unknown:
  assumes rep: "db_rep w db" and sock: "client w sock" and rq: "request_ok rq" and g: "garbage_ok g"
    and u: "valid_user u" "wire_ok u" "wire_ok s" and input: "w_in w sock = u @ NUL # s @ NUL # rest"
    and a: "db u = None"
  shows "\<exists>rq' w'. srv_connect g sock rq w = Some (rq', w') \<and>
    served sock w w' rest (reply_byte SRV_ERR_CN_USR_NOT_EXISTS) \<and> db_rep w' db"
proof -
  let ?b1 = "strcpy_buf u (rq_username rq)" and ?b2 = "strcpy_buf s (rq_client_port rq)"
  obtain w1 w2 where r: "recv_string sock (rq_username rq) w = ((0, ?b1), w1)"
      "recv_string sock (rq_client_port rq) w1 = ((0, ?b2), w2)" "served sock w w2 rest []"
      "db_rep w2 db" "client w2 sock"
    using receive_two [OF rep sock _ _ u(2,3) input, of "rq_username rq" "rq_client_port rq"] rq
    by (auto simp: request_ok_def)
  let ?rq = "rq\<lparr>rq_username := ?b1, rq_client_port := ?b2\<rparr>"
  have cs: "cstr (rq_username ?rq) = u" "cstr ?b1 = u"
    using valid_user_nul [OF u(1)] by simp_all
  obtain w4 pm where w4: "served sock w w4 rest (reply_byte SRV_ERR_CN_USR_NOT_EXISTS)" "db_rep w4 db"
      "client w4 sock" "e_username pm = u"
      "srv_connect g sock rq w = (case aux_connect_send_pend_msgs g pm w4 of
         None \<Rightarrow> None | Some (_, w5) \<Rightarrow> Some (?rq, w5))"
    using connect_frame [OF r(1-3,5) cs(2) connect_user_unknown [OF r(4) u(1) a cs(1) g] effects_quiet(2) db_rep_simps(2) [OF r(4)] g u(1)]
    by blast
  let ?w5 = "w4\<lparr>w_errno := ENOENT\<rparr>"
  have "aux_connect_send_pend_msgs g pm w4 = Some (DBMS_ERR_ANY, ?w5)"
    by (rule send_pend_msgs_no_user [OF w4(2) u(1) a w4(4) g])
  then have "srv_connect g sock rq w = Some (?rq, ?w5)"
    using w4(5) by simp
  moreover have "served sock w ?w5 rest (reply_byte SRV_ERR_CN_USR_NOT_EXISTS)"
    by (rule served_later [OF w4(1,3)]) simp
  ultimately show ?thesis
    using db_rep_simps(2) [OF w4(2)] by blast
qed

lemma connect_service_again:
  assumes rep: "db_rep w db" and sock: "client w sock" and rq: "request_ok rq" and g: "garbage_ok g"
    and u: "valid_user u" "wire_ok u" "wire_ok s" and input: "w_in w sock = u @ NUL # s @ NUL # rest"
    and a: "db u = Some a" "a_status a = STATUS_CN" "listening w a"
  shows "\<exists>rq' w'. srv_connect g sock rq w = Some (rq', w') \<and>
    served sock w w' rest (reply_byte SRV_ERR_CN_USR_ALREADY_CN) \<and>
    db_rep w' (db(u \<mapsto> a\<lparr>a_pend := Map.empty\<rparr>)) \<and>
    (\<forall>n m. a_pend a n = Some m \<longrightarrow> delivered w w' (a_ip a) (a_port a) (message_bytes (fst m) n (snd m)))"
proof -
  let ?b1 = "strcpy_buf u (rq_username rq)" and ?b2 = "strcpy_buf s (rq_client_port rq)"
  obtain w1 w2 where r: "recv_string sock (rq_username rq) w = ((0, ?b1), w1)"
      "recv_string sock (rq_client_port rq) w1 = ((0, ?b2), w2)" "served sock w w2 rest []"
      "db_rep w2 db" "client w2 sock"
    using receive_two [OF rep sock _ _ u(2,3) input, of "rq_username rq" "rq_client_port rq"] rq
    by (auto simp: request_ok_def)
  let ?rq = "rq\<lparr>rq_username := ?b1, rq_client_port := ?b2\<rparr>"
  have cs: "cstr (rq_username ?rq) = u" "cstr ?b1 = u"
    using valid_user_nul [OF u(1)] by simp_all
  obtain w4 pm where w4: "served sock w w4 rest (reply_byte SRV_ERR_CN_USR_ALREADY_CN)" "db_rep w4 db"
      "client w4 sock" "e_username pm = u" "e_type pm = ENT_TYPE_P_MSG" "entry_ok pm"
      "srv_connect g sock rq w = (case aux_connect_send_pend_msgs g pm w4 of
         None \<Rightarrow> None | Some (_, w5) \<Rightarrow> Some (?rq, w5))"
    using connect_frame [OF r(1-3,5) cs(2) connect_user_again [OF r(4) u(1) a(1) cs(1) g a(2)] effects_quiet(3) db_rep_simps(1) [OF r(4)] g u(1)]
    by blast
  obtain w5 where w5: "aux_connect_send_pend_msgs g pm w4 = Some (SRV_SUCCESS, w5)" "effects {} w4 w5"
      "db_rep w5 (db(u \<mapsto> a\<lparr>a_pend := Map.empty\<rparr>))"
      "\<And>n m. a_pend a n = Some m \<Longrightarrow> delivered w4 w5 (a_ip a) (a_port a) (message_bytes (fst m) n (snd m))"
    using send_pend_msgs_refines [OF w4(2) u(1) a(1) _ w4(4-6) g] served_fields [OF w4(1)] a(3)
    by auto
  show ?thesis
    using w4(7) w5 served_later [OF w4(1,3) w5(2)] served_delivered [OF w4(1) sock] by auto
qed

end
