(* ===== verification/SendService.thy ===== *)
theory SendService
  imports AccountServices
begin

section \<open>SEND\<close>

text \<open>
  \<open>srv_send\<close> of \<open>src/services.c\<close> and its parts, in a world without injected faults: message
  numbers, delivery to a connected recipient, storage for one that is not, the two
  acknowledgements.
\<close>

subsection \<open>The parts of the service\<close>

lemma send_init_unknown:
  assumes rep: "db_rep w db" and "valid_user s" "valid_user u" "db s = None \<or> db u = None"
    and rq: "cstr (rq_message_sender rq) = s" "cstr (rq_recipient rq) = u"
  shows "\<exists>w'. aux_send_init rq e w = ((SRV_ERR_SEND_USR_NOT_EXISTS, e), w') \<and> effects {} w w' \<and> db_rep w' db"
proof -
  obtain x where x: "db_user_exists s w = (of_bool (db s \<noteq> None), w\<lparr>w_errno := x\<rparr>)"
    using user_exists_refines [OF rep assms(2)] by blast
  obtain y where y: "db_user_exists u (w\<lparr>w_errno := x\<rparr>) = (of_bool (db u \<noteq> None), w\<lparr>w_errno := y\<rparr>)"
    using user_exists_refines [OF db_rep_simps(2) [OF rep] assms(3)] by auto
  have "aux_send_init rq e w = ((SRV_ERR_SEND_USR_NOT_EXISTS, e), w\<lparr>w_errno := y\<rparr>)"
    using x y rq assms(4) by (auto simp: aux_send_init_def)
  then show ?thesis
    using rep by (intro exI [of _ "w\<lparr>w_errno := y\<rparr>"]) simp
qed

lemma send_init_known:
  assumes rep: "db_rep w db" "valid_user u" "db u = Some a" and s: "valid_user s" "db s \<noteq> None"
    and rq: "cstr (rq_message_sender rq) = s" "cstr (rq_recipient rq) = u" and e: "entry_ok e"
  defines "a' \<equiv> a\<lparr>a_last := next_msg_id (a_last a)\<rparr>"
  shows "\<exists>c w'. aux_send_init rq e w = ((SRV_SUCCESS, c), w') \<and> effects {} w w' \<and>
    user_entry u c a' \<and> db_rep w' (db(u \<mapsto> a'))"
proof -
  obtain x where x: "db_user_exists s w = (1, w\<lparr>w_errno := x\<rparr>)"
    using user_exists_refines [OF rep(1) s(1)] s(2) by auto
  obtain y where y: "db_user_exists u (w\<lparr>w_errno := x\<rparr>) = (1, w\<lparr>w_errno := y\<rparr>)"
    using user_exists_refines [OF db_rep_simps(2) [OF rep(1)] rep(2)] rep(3) by auto
  let ?w = "w\<lparr>w_errno := y\<rparr>"
  let ?e = "set_e_username u (set_e_type ENT_TYPE_UD e)"
  have e1: "e_username ?e = u" "e_type ?e = ENT_TYPE_UD" "entry_ok ?e"
    using e rep(2) by (simp_all add: cmem)
  obtain c where c: "db_io_op_usr_ent ?e READ ?w = ((DBMS_SUCCESS, c), ?w\<lparr>w_next := Suc (w_next ?w)\<rparr>)"
      "user_entry u c a"
    using read_account_refines [OF db_rep_simps(2) [OF rep(1)] rep(2,3) e1] by blast
  let ?c = "set_e_last_msg_id (next_msg_id (e_last_msg_id c)) c"
  have "user_entry u ?c a'"
    using c(2) by (simp add: user_entry_iff cmem a'_def)
  moreover obtain w' where w': "db_io_op_usr_ent ?c MODIFY (?w\<lparr>w_next := Suc (w_next ?w)\<rparr>) = ((DBMS_SUCCESS, ?c), w')"
      "db_only (?w\<lparr>w_next := Suc (w_next ?w)\<rparr>) w'" "db_rep w' (db(u \<mapsto> a'))"
    using modify_account_refines [OF db_rep_simps(1) [OF db_rep_simps(2) [OF rep(1)]] rep(2,3) calculation]
    by (auto simp: a'_def)
  moreover have "aux_send_init rq e w = ((SRV_SUCCESS, ?c), w')"
    using x y rq c(1) w'(1) by (simp add: aux_send_init_def Let_def)
  moreover have "effects {} w w'"
    by (rule effects_trans [OF _ db_only_effects [OF w'(2)]]) (simp add: effects_def)
  ultimately show ?thesis by blast
qed

lemma send_pass_entry:
  assumes "valid_user u" "valid_user s" "fits_array 256 m" "entry_ok e"
  shows "msg_entry u n (s, m) (set_e_msg_id n (set_e_msg_content m (set_e_msg_sender s
    (set_e_username u (set_e_type ENT_TYPE_P_MSG e)))))"
  using assms by (simp add: msg_entry_def cmem)

text \<open>The three ways of \<open>aux_send_msg_pass\<close>: delivered, refused, not connected.\<close>

abbreviation passed_entry :: "string \<Rightarrow> string \<Rightarrow> u32 \<Rightarrow> string \<Rightarrow> entry_t \<Rightarrow> entry_t" where
  "passed_entry u s n m e \<equiv>
    set_e_msg_id n (set_e_msg_content m (set_e_msg_sender s (set_e_username u (set_e_type ENT_TYPE_P_MSG e))))"

lemma send_request_strings:
  assumes "valid_user s" "fits_array 256 m"
  shows "cstr (rq_op_code (send_message_request g ''send_msg_request'' s n m)) = SEND_MESSAGE"
    "cstr (rq_message_sender (send_message_request g ''send_msg_request'' s n m)) = s"
    "rq_message_id (send_message_request g ''send_msg_request'' s n m) = n"
    "cstr (rq_message_content (send_message_request g ''send_msg_request'' s n m)) = m"
  using assms by (simp_all add: send_message_request_def SEND_MESSAGE_def valid_user_def fits_array_def)

lemma pass_delivered:
  assumes rep: "db_rep w db" "valid_user u" "db u = Some a" and s: "valid_user s" "fits_array 256 m"
    and rq: "cstr (rq_message_sender rq) = s" "cstr (rq_recipient rq) = u" "cstr (rq_message_content rq) = m"
    and c: "user_entry u c a" and on: "a_status a = STATUS_CN" "listening w a"
  shows "\<exists>c' w'. aux_send_msg_pass g rq code c e w = ((code, c', passed_entry u s (a_last a) m e), w') \<and>
    effects {} w w' \<and> user_entry u c' a \<and> db_rep w' db \<and>
    delivered w w' (a_ip a) (a_port a) (message_bytes s (a_last a) m)"
proof -
  note cf = user_entry_facts [OF c]
  obtain c' w1 where w1: "clt_send_message (send_message_request g ''send_msg_request'' s (a_last a) m) c w =
        ((SRV_SUCCESS, c'), w1)" "user_entry u c' a" "effects {} w w1" "w_files w1 = w_files w"
      "delivered w w1 (a_ip a) (a_port a) (message_bytes s (a_last a) m)"
    using send_message_listening [OF rep on(2) cf(2,3,1) send_request_strings [OF s]] by blast
  let ?w = "log_sent (e_msg_id (passed_entry u s (a_last a) m e)) s u w1"
  have "aux_send_msg_pass g rq code c e w = ((code, c', passed_entry u s (a_last a) m e), ?w)"
    using w1(1) on(1) cf(4,7) rq by (simp add: aux_send_msg_pass_def Let_def)
  moreover have "effects {} w ?w"
    by (rule effects_trans [OF w1(3) effects_log(1)])
  moreover have "db_rep ?w db"
    using db_rep_effects [OF rep(1) calculation(2)] w1(4) by simp
  moreover have "delivered w ?w (a_ip a) (a_port a) (message_bytes s (a_last a) m)"
    by (rule delivered_later [OF w1(5) effects_log(1)])
  ultimately show ?thesis using w1(2) by blast
qed

lemma pass_refused:
  assumes rep: "db_rep w db" "valid_user u" "db u = Some a"
    and rq: "cstr (rq_message_sender rq) = s" "cstr (rq_recipient rq) = u" "cstr (rq_message_content rq) = m"
    and c: "user_entry u c a" and off: "a_status a = STATUS_CN" "\<not> listening w a"
  defines "a' \<equiv> a\<lparr>a_status := STATUS_DCN\<rparr>"
  shows "\<exists>c' w'. aux_send_msg_pass g rq code c e w = ((code, c', passed_entry u s (a_last a) m e), w') \<and>
    effects {} w w' \<and> user_entry u c' a' \<and> db_rep w' (db(u \<mapsto> a'))"
proof -
  note cf = user_entry_facts [OF c]
  obtain c' w1 where w1: "clt_send_message (send_message_request g ''send_msg_request'' s (a_last a) m) c w =
        ((GEN_ERR_ANY, c'), w1)" "user_entry u c' a" "effects {} w w1" "w_files w1 = w_files w"
    using send_message_refused [OF rep off(2) cf(2,3,1)] by blast
  have "db_rep w1 db"
    using db_rep_effects [OF rep(1) w1(3,4)] by simp
  moreover have ue: "user_entry u (set_e_status STATUS_DCN c') a'"
    using w1(2) by (simp add: user_entry_iff cmem a'_def)
  ultimately obtain w2 where w2: "db_io_op_usr_ent (set_e_status STATUS_DCN c') MODIFY w1 =
      ((DBMS_SUCCESS, set_e_status STATUS_DCN c'), w2)" "db_only w1 w2" "db_rep w2 (db(u \<mapsto> a'))"
    using modify_account_refines [of w1 db u a] rep(2,3) by (fastforce simp: a'_def)
  have "aux_send_msg_pass g rq code c e w =
      ((code, set_e_status STATUS_DCN c', passed_entry u s (a_last a) m e), w2)"
    using w1(1) w2(1) off(1) cf(4,7) rq by (simp add: aux_send_msg_pass_def Let_def)
  then show ?thesis
    using ue w2(3) effects_trans [OF w1(3) db_only_effects [OF w2(2)]] by blast
qed

lemma send_pass:
  assumes rep: "db_rep w db" "valid_user u" "db u = Some a" and s: "valid_user s" "fits_array 256 m"
    and rq: "cstr (rq_message_sender rq) = s" "cstr (rq_recipient rq) = u" "cstr (rq_message_content rq) = m"
    and c: "user_entry u c a" and e: "entry_ok e"
  defines "a' \<equiv> (if a_status a = STATUS_CN \<and> \<not> listening w a then a\<lparr>a_status := STATUS_DCN\<rparr> else a)"
  shows "\<exists>c' me w'. aux_send_msg_pass g rq code c e w = ((code, c', me), w') \<and> effects {} w w' \<and>
    user_entry u c' a' \<and> msg_entry u (a_last a) (s, m) me \<and> db_rep w' (db(u \<mapsto> a')) \<and>
    (a_status a = STATUS_CN \<longrightarrow> listening w a \<longrightarrow>
       delivered w w' (a_ip a) (a_port a) (message_bytes s (a_last a) m))"
proof -
  note cf = user_entry_facts [OF c] and me = send_pass_entry [OF rep(2) s e, of "a_last a"]
  have same: "db(u \<mapsto> a) = db"
    using rep(3) by (simp add: fun_upd_idem)
  consider (on) "a_status a = STATUS_CN" "listening w a" | (refused) "a_status a = STATUS_CN" "\<not> listening w a"
    | (off) "a_status a \<noteq> STATUS_CN" by blast
  then show ?thesis
  proof cases
    case on
    then show ?thesis
      using pass_delivered [OF rep s rq c on, of g code e] me same by (auto simp: a'_def)
  next
    case refused
    then show ?thesis
      using pass_refused [OF rep rq c refused, of g code e] me by (auto simp: a'_def)
  next
    case off
    have "aux_send_msg_pass g rq code c e w = ((code, c, passed_entry u s (a_last a) m e), w)"
      using off cf(4,7) rq by (simp add: aux_send_msg_pass_def Let_def)
    then show ?thesis
      using me c rep(1) off same by (auto simp: a'_def)
  qed
qed

lemma first_ack_served:
  assumes "db_rep w db" "client w sock"
  shows "\<exists>w'. aux_send_first_ack sock code n w = w' \<and>
    served sock w w' (w_in w sock) (reply_byte code @ (if code = SRV_SUCCESS then show_u n @ [NUL] else [])) \<and>
    db_rep w' db \<and> client w' sock"
proof -
  obtain w1 where w1: "send_server_reply sock code w = (0, w1)" "served sock w w1 (w_in w sock) (reply_byte code)"
      "db_rep w1 db" "client w1 sock"
    using reply_served [OF assms] by blast
  show ?thesis
  proof (cases "code = SRV_SUCCESS")
    case True
    obtain w2 where w2: "send_string sock (show_u n) w1 = (0, w2)"
        "served sock w1 w2 (w_in w1 sock) (show_u n @ [NUL])" "db_rep w2 db" "client w2 sock"
      using string_served [OF w1(3,4)] by blast
    have "w_in w1 sock = w_in w sock"
      using w1(2) by (simp add: served_def)
    then have "served sock w w2 (w_in w sock) (reply_byte code @ show_u n @ [NUL])"
      using served_trans [OF w1(2) w2(2)] by simp
    then show ?thesis
      using True w1(1) w2 by (simp add: aux_send_first_ack_def)
  next
    case False
    then show ?thesis
      using w1 by (simp add: aux_send_first_ack_def)
  qed
qed

lemma send_to_unknown:
  assumes rep: "db_rep w db" "client w sock" and su: "valid_user s" "valid_user u" "db s = None \<or> db u = None"
    and rq: "cstr (rq_message_sender rq) = s" "cstr (rq_recipient rq) = u"
  shows "\<exists>w'. send_to_user g sock rq w = w' \<and>
    served sock w w' (w_in w sock) (reply_byte SRV_ERR_SEND_USR_NOT_EXISTS) \<and> db_rep w' db"
proof -
  let ?e = "g_entry g ''send.recipient_entry''"
  obtain w1 where w1: "aux_send_init rq ?e w = ((SRV_ERR_SEND_USR_NOT_EXISTS, ?e), w1)"
      "effects {} w w1" "db_rep w1 db"
    using send_init_unknown [OF rep(1) su rq] by blast
  have "served sock w w (w_in w sock) []"
    by (simp add: served_def)
  then have s1: "served sock w w1 (w_in w sock) []" "client w1 sock"
    using served_effects [OF _ w1(2) rep(2)] by auto
  obtain w2 where w2: "send_server_reply sock SRV_ERR_SEND_USR_NOT_EXISTS w1 = (0, w2)"
      "served sock w1 w2 (w_in w1 sock) (reply_byte SRV_ERR_SEND_USR_NOT_EXISTS)" "db_rep w2 db"
    using reply_served [OF w1(3) s1(2)] by blast
  have "w_in w1 sock = w_in w sock"
    using s1(1) by (simp add: served_def)
  then show ?thesis
    using w1(1) w2 served_trans [OF s1(1) w2(2)] by (auto simp: send_to_user_def)
qed

subsection \<open>The whole service\<close>

text \<open>
  The account of the recipient after the message has been passed on: the next message number,
  and disconnected when its listening thread refused the message.
\<close>

definition passed_account :: "(u32 \<Rightarrow> u16 \<Rightarrow> bool) \<Rightarrow> account \<Rightarrow> account" where
  "passed_account acc a =
     (let a1 = a\<lparr>a_last := next_msg_id (a_last a)\<rparr>
      in if a_status a = STATUS_CN \<and> \<not> acc (a_ip a) (a_port a) then a1\<lparr>a_status := STATUS_DCN\<rparr> else a1)"

text \<open>The code stores the message when this holds; the second disjunct reads an unset variable.\<close>

definition stores :: "garbage \<Rightarrow> account \<Rightarrow> bool" where
  "stores g a \<longleftrightarrow> a_status a = STATUS_DCN \<or> g_code g ''send.send_msg_reply'' \<noteq> SRV_SUCCESS"

definition send_outcome :: "garbage \<Rightarrow> (u32 \<Rightarrow> u16 \<Rightarrow> bool) \<Rightarrow> string \<Rightarrow> string \<Rightarrow> account \<Rightarrow> u8 \<times> account" where
  "send_outcome g acc s m a =
     (let n = next_msg_id (a_last a); a2 = passed_account acc a
      in if \<not> stores g a2 then (SRV_SUCCESS, a2)
         else if a_pend a n = None then (SRV_SUCCESS, a2\<lparr>a_pend := (a_pend a)(n \<mapsto> (s, m))\<rparr>)
         else (SRV_ERR_SEND_ANY, a2))"

lemma passed_account_fields:
  "a_ip (passed_account acc a) = a_ip a" "a_port (passed_account acc a) = a_port a"
  "a_pend (passed_account acc a) = a_pend a" "a_last (passed_account acc a) = next_msg_id (a_last a)"
  by (simp_all add: passed_account_def Let_def)

lemma outcome_fields:
  "a_ip (snd (send_outcome g acc s m a)) = a_ip a" "a_port (snd (send_outcome g acc s m a)) = a_port a"
  by (simp_all add: send_outcome_def Let_def passed_account_fields)

lemma send_store:
  assumes rep: "db_rep w2 (db(u \<mapsto> passed_account acc a))" "valid_user u"
    and me: "msg_entry u (next_msg_id (a_last a)) (s, m) me"
    and c: "user_entry u c (passed_account acc a)"
    and rq: "cstr (rq_message_sender rq) = s" "cstr (rq_recipient rq) = u"
  shows "\<exists>w4. (if e_status c = STATUS_DCN \<or> g_code g ''send.send_msg_reply'' \<noteq> SRV_SUCCESS
       then
         (case db_io_op_usr_ent me CREATE w2 of ((r, msg_entry1), w3) \<Rightarrow>
            (let reply2 = (if r < 0 then SRV_ERR_SEND_ANY else SRV_SUCCESS)
             in (reply2, msg_entry1,
                 if reply2 = SRV_SUCCESS then
                   log_stored (e_msg_id msg_entry1)
                     (cstr (rq_message_sender rq)) (cstr (rq_recipient rq)) w3
                 else w3)))
       else (SRV_SUCCESS, me, w2)) = (fst (send_outcome g acc s m a), me, w4) \<and>
     effects {} w2 w4 \<and> db_rep w4 (db(u \<mapsto> snd (send_outcome g acc s m a)))"
proof -
  let ?n = "next_msg_id (a_last a)"
  have st: "(e_status c = STATUS_DCN \<or> g_code g ''send.send_msg_reply'' \<noteq> SRV_SUCCESS) =
      stores g (passed_account acc a)"
    using user_entry_facts(4) [OF c] by (simp add: stores_def)
  show ?thesis
  proof (cases "stores g (passed_account acc a)")
    case False
    then show ?thesis
      using rep(1) by (auto simp: st send_outcome_def Let_def simp del: disj_not1)
  next
    case True
    show ?thesis
    proof (cases "a_pend a ?n = None")
      case new: True
      obtain w3 where w3: "db_io_op_usr_ent me CREATE w2 = ((DBMS_SUCCESS, me), w3)" "db_only w2 w3"
          "db_rep w3 (db(u \<mapsto> (passed_account acc a)\<lparr>a_pend := (a_pend a)(?n \<mapsto> (s, m))\<rparr>))"
        using store_message_refines [OF rep _ me] new by (auto simp: passed_account_fields)
      let ?w = "log_stored (e_msg_id me) (cstr (rq_message_sender rq)) (cstr (rq_recipient rq)) w3"
      have l: "effects {} w3 ?w" "w_files ?w = w_files w3"
        by (simp_all add: log_stored_def printf_def effects_def)
      have "effects {} w2 ?w"
        by (rule effects_trans [OF db_only_effects [OF w3(2)] l(1)])
      moreover have "db_rep ?w (db(u \<mapsto> (passed_account acc a)\<lparr>a_pend := (a_pend a)(?n \<mapsto> (s, m))\<rparr>))"
        by (rule db_rep_effects [OF w3(3) l]) simp
      ultimately show ?thesis
        unfolding st using True new w3(1) by (simp add: send_outcome_def Let_def)
    next
      case False
      then have "db_io_op_usr_ent me CREATE w2 = ((DBMS_ERR_ANY, me), w2\<lparr>w_errno := EEXIST\<rparr>)"
        using store_message_taken [OF rep _ me] by (simp add: passed_account_fields)
      then show ?thesis
        unfolding st using True False rep(1) by (simp add: send_outcome_def Let_def)
    qed
  qed
qed

text \<open>\<open>send_to_user\<close> up to the first acknowledgement, and the second one.\<close>

abbreviation ack_request :: "garbage \<Rightarrow> u32 \<Rightarrow> request_t" where
  "ack_request g n \<equiv> (g_request g ''send.send_msg_ack_request'')
    \<lparr>rq_op_code := strcpy_buf SEND_MESS_ACK (rq_op_code (g_request g ''send.send_msg_ack_request'')), rq_message_id := n\<rparr>"

abbreviation ack_entry :: "garbage \<Rightarrow> string \<Rightarrow> entry_t" where
  "ack_entry g s \<equiv> set_e_username s (set_e_type ENT_TYPE_UD (g_entry g ''send.sender_entry''))"

lemma send_prepares:
  assumes rep: "db_rep w db" and u: "valid_user u" "db u = Some a"
    and s: "valid_user s" "db s = Some b" and m: "fits_array 256 m" and g: "garbage_ok g"
    and rq: "cstr (rq_message_sender rq) = s" "cstr (rq_recipient rq) = u" "cstr (rq_message_content rq) = m"
  defines "n \<equiv> next_msg_id (a_last a)"
    and "code \<equiv> fst (send_outcome g (w_accepts w) s m a)" and "a' \<equiv> snd (send_outcome g (w_accepts w) s m a)"
  shows "\<exists>w4. send_to_user g sock rq w = (let w5 = aux_send_first_ack sock code n w4
      in if a_status (passed_account (w_accepts w) a) = STATUS_CN
         then snd (clt_send_mess_ack (ack_request g n) (ack_entry g s) w5) else w5) \<and>
    effects {} w w4 \<and> db_rep w4 (db(u \<mapsto> a')) \<and>
    (a_status a = STATUS_CN \<longrightarrow> listening w a \<longrightarrow> delivered w w4 (a_ip a) (a_port a) (message_bytes s n m))"
proof -
  let ?e = "g_entry g ''send.recipient_entry''" and ?me = "g_entry g ''send.msg_entry''"
  let ?a1 = "a\<lparr>a_last := n\<rparr>" and ?a2 = "passed_account (w_accepts w) a"
  obtain c w1 where w1: "aux_send_init rq ?e w = ((SRV_SUCCESS, c), w1)" "effects {} w w1"
      "user_entry u c ?a1" "db_rep w1 (db(u \<mapsto> ?a1))"
    using send_init_known [OF rep u s(1) _ rq(1,2), of ?e] s(2) g by (auto simp: n_def)
  have acc1: "w_accepts w1 = w_accepts w"
    using effects_fields(4) [OF w1(2)] .
  have pass: "(if a_status ?a1 = STATUS_CN \<and> \<not> listening w1 ?a1 then ?a1\<lparr>a_status := STATUS_DCN\<rparr> else ?a1) = ?a2"
    by (simp add: passed_account_def n_def acc1 Let_def)
  obtain c' me w2 where w2: "aux_send_msg_pass g rq SRV_SUCCESS c ?me w1 = ((SRV_SUCCESS, c', me), w2)"
      "effects {} w1 w2" "user_entry u c' ?a2" "msg_entry u n (s, m) me" "db_rep w2 (db(u \<mapsto> ?a2))"
      "a_status a = STATUS_CN \<Longrightarrow> listening w a \<Longrightarrow> delivered w1 w2 (a_ip a) (a_port a) (message_bytes s n m)"
    using send_pass [OF w1(4) u(1) _ s(1) m rq w1(3), of ?me g SRV_SUCCESS] g pass acc1 by auto
  note store = send_store [OF w2(5) u(1) w2(4) [unfolded n_def] w2(3) rq(1,2), of g]
  obtain w4 where w4: "effects {} w2 w4" "db_rep w4 (db(u \<mapsto> a'))" and stored: "send_to_user g sock rq w =
      (let w5 = aux_send_first_ack sock code n w4
       in if a_status ?a2 = STATUS_CN then snd (clt_send_mess_ack (ack_request g n) (ack_entry g s) w5) else w5)"
    using store w1(1) w2(1) rq msg_entry_facts(4) [OF w2(4)] user_entry_facts(4,7) [OF w2(3)]
    unfolding code_def a'_def by (fastforce simp: send_to_user_def Let_def passed_account_fields n_def)
  have "delivered w w4 (a_ip a) (a_port a) (message_bytes s n m)" if "a_status a = STATUS_CN" "listening w a"
    by (rule delivered_later [OF delivered_earlier [OF w1(2) w2(6) [OF that]] w4(1)])
  then show ?thesis
    using stored w4(2) effects_trans [OF effects_trans [OF w1(2) w2(2)] w4(1)] by blast
qed

lemma send_to_known:
  assumes rep: "db_rep w db" "client w sock" and u: "valid_user u" "db u = Some a"
    and s: "valid_user s" "db s = Some b" and m: "fits_array 256 m" and g: "garbage_ok g"
    and rq: "cstr (rq_message_sender rq) = s" "cstr (rq_recipient rq) = u" "cstr (rq_message_content rq) = m"
  defines "n \<equiv> next_msg_id (a_last a)"
    and "code \<equiv> fst (send_outcome g (w_accepts w) s m a)" and "a' \<equiv> snd (send_outcome g (w_accepts w) s m a)"
  shows "\<exists>w'. send_to_user g sock rq w = w' \<and>
    served sock w w' (w_in w sock)
      (reply_byte code @ (if code = SRV_SUCCESS then show_u n @ [NUL] else [])) \<and>
    db_rep w' (db(u \<mapsto> a')) \<and>
    (a_status a = STATUS_CN \<longrightarrow> listening w a \<longrightarrow>
       delivered w w' (a_ip a) (a_port a) (message_bytes s n m)) \<and>
    (a_status (passed_account (w_accepts w) a) = STATUS_CN \<longrightarrow> listening w b \<longrightarrow>
       delivered w w' (a_ip b) (a_port b) (ack_bytes n))"
proof -
  let ?db = "db(u \<mapsto> a')" and ?out = "reply_byte code @ (if code = SRV_SUCCESS then show_u n @ [NUL] else [])"
  let ?on = "a_status (passed_account (w_accepts w) a) = STATUS_CN"
  obtain w4 where w4: "send_to_user g sock rq w = (let w5 = aux_send_first_ack sock code n w4
        in if ?on then snd (clt_send_mess_ack (ack_request g n) (ack_entry g s) w5) else w5)"
      "effects {} w w4" "db_rep w4 ?db"
      "a_status a = STATUS_CN \<longrightarrow> listening w a \<longrightarrow> delivered w w4 (a_ip a) (a_port a) (message_bytes s n m)"
    using send_prepares [OF rep(1) u s m g rq] unfolding n_def code_def a'_def by blast
  have "served sock w w (w_in w sock) []" by (simp add: served_def)
  note s4 = served_effects [OF this w4(2) rep(2)]
  obtain w5 where w5: "aux_send_first_ack sock code n w4 = w5" "served sock w4 w5 (w_in w4 sock) ?out"
      "db_rep w5 ?db" "client w5 sock"
    using first_ack_served [OF w4(3) s4(2)] by blast
  have s5: "served sock w w5 (w_in w sock) ?out"
    using served_trans [OF s4(1) w5(2)] s4(1) by (simp add: served_def)
  have e45: "effects {sock} w4 w5" using w5(2) by (simp add: served_def)
  have "\<And>d. d \<in> {sock} \<Longrightarrow> d < int (w_next w)" using rep(2) by (simp add: client_def)
  then have msg5: "a_status a = STATUS_CN \<longrightarrow> listening w a \<longrightarrow> delivered w w5 (a_ip a) (a_port a) (message_bytes s n m)"
    using w4(4) delivered_later_on [OF _ e45] by blast
  have se: "e_username (ack_entry g s) = s" "e_type (ack_entry g s) = ENT_TYPE_UD" "entry_ok (ack_entry g s)"
    using g s(1) by (simp_all add: cmem)
  obtain b' where b': "?db s = Some b'" "a_ip b' = a_ip b" "a_port b' = a_port b"
    using s(2) u(2) outcome_fields [of g "w_accepts w" s m a] by (cases "s = u") (auto simp: a'_def)
  obtain r c5 w6 where w6: "clt_send_mess_ack (ack_request g n) (ack_entry g s) w5 = ((r, c5), w6)" "effects {} w5 w6"
      "w_files w6 = w_files w5" "listening w5 b' \<Longrightarrow> delivered w5 w6 (a_ip b') (a_port b') (ack_bytes n)"
    using send_ack [OF w5(3) s(1) se, of "ack_request g n" n] b'(1) by (auto simp: SEND_MESS_ACK_def)
  have "db_rep w6 ?db" using db_rep_effects [OF w5(3) w6(2,3)] by simp
  moreover have "delivered w w6 (a_ip b) (a_port b) (ack_bytes n)" if "listening w b"
    using served_delivered [OF s5 rep(2) w6(4)] that b'(2,3) served_fields(1) [OF s5] by simp
  ultimately show ?thesis
    using w4(1) w5(1,3) w6(1) s5 served_later [OF s5 w5(4) w6(2)] msg5 delivered_later [OF _ w6(2)]
    by (cases ?on) auto
qed

text \<open>\<open>srv_send\<close> is \<open>send_to_user\<close> on the three strings the client has sent.\<close>

lemma send_receives:
  assumes rep: "db_rep w db" "client w sock" and rq: "request_ok rq"
    and wire: "wire_ok s" "wire_ok u" "wire_ok m"
    and input: "w_in w sock = s @ NUL # u @ NUL # m @ NUL # rest"
  shows "\<exists>rq' w3. srv_send g sock rq w = (rq', send_to_user g sock rq' w3) \<and>
    cstr (rq_message_sender rq') = s \<and> cstr (rq_recipient rq') = u \<and> cstr (rq_message_content rq') = m \<and>
    served sock w w3 rest [] \<and> db_rep w3 db \<and> client w3 sock"
proof -
  let ?b1 = "strcpy_buf s (rq_message_sender rq)" and ?b2 = "strcpy_buf u (rq_recipient rq)"
  let ?b3 = "strcpy_buf m (rq_message_content rq)"
  obtain w1 w2 where r: "recv_string sock (rq_message_sender rq) w = ((0, ?b1), w1)"
      "recv_string sock (rq_recipient rq) w1 = ((0, ?b2), w2)" "served sock w w2 (m @ NUL # rest) []"
      "db_rep w2 db" "client w2 sock"
    using receive_two [OF rep _ _ wire(1,2) input, of "rq_message_sender rq" "rq_recipient rq"] rq
    by (auto simp: request_ok_def)
  have "w_in w2 sock = m @ NUL # rest"
    using r(3) by (simp add: served_def)
  then obtain w3 where w3: "recv_string sock (rq_message_content rq) w2 = ((0, ?b3), w3)"
      "served sock w2 w3 rest []" "db_rep w3 db" "client w3 sock"
    using receive [OF r(4,5) _ wire(3), of "rq_message_content rq"] rq by (auto simp: request_ok_def)
  let ?rq = "rq\<lparr>rq_client_port := ?b1, rq_username := ?b2, rq_message_content := ?b3\<rparr>"
  have "srv_send g sock rq w = (?rq, send_to_user g sock ?rq w3)"
    using r(1,2) w3(1) by (simp add: srv_send_def Let_def)
  moreover have "cstr (rq_message_sender ?rq) = s" "cstr (rq_recipient ?rq) = u" "cstr (rq_message_content ?rq) = m"
    using wire by (simp_all add: wire_ok_def)
  moreover have "served sock w w3 rest []"
    using served_trans [OF r(3) w3(2)] by simp
  ultimately show ?thesis
    using w3(3,4) by blast
qed

lemma send_service:
  assumes rep: "db_rep w db" "client w sock" and rq: "request_ok rq" and g: "garbage_ok g"
    and u: "valid_user u" "db u = Some a" and s: "valid_user s" "db s = Some b"
    and wire: "wire_ok s" "wire_ok u" "wire_ok m"
    and input: "w_in w sock = s @ NUL # u @ NUL # m @ NUL # rest"
  defines "n \<equiv> next_msg_id (a_last a)"
    and "code \<equiv> fst (send_outcome g (w_accepts w) s m a)" and "a' \<equiv> snd (send_outcome g (w_accepts w) s m a)"
  shows "\<exists>rq' w'. srv_send g sock rq w = (rq', w') \<and>
    served sock w w' rest (reply_byte code @ (if code = SRV_SUCCESS then show_u n @ [NUL] else [])) \<and>
    db_rep w' (db(u \<mapsto> a')) \<and>
    (a_status a = STATUS_CN \<longrightarrow> listening w a \<longrightarrow>
       delivered w w' (a_ip a) (a_port a) (message_bytes s n m)) \<and>
    (a_status (passed_account (w_accepts w) a) = STATUS_CN \<longrightarrow> listening w b \<longrightarrow>
       delivered w w' (a_ip b) (a_port b) (ack_bytes n))"
proof -
  obtain rq' w3 where r: "srv_send g sock rq w = (rq', send_to_user g sock rq' w3)"
      "cstr (rq_message_sender rq') = s" "cstr (rq_recipient rq') = u" "cstr (rq_message_content rq') = m"
      "served sock w w3 rest []" "db_rep w3 db" "client w3 sock"
    using send_receives [OF rep rq wire input] by blast
  have acc: "w_accepts w3 = w_accepts w" "w_in w3 sock = rest"
    using served_fields(1) [OF r(5)] r(5) by (auto simp: served_def)
  have m: "fits_array 256 m"
    using wire(3) by (simp add: wire_ok_def fits_array_def MAX_MSG_SIZE_def)
  obtain w' where w': "send_to_user g sock rq' w3 = w'"
      "served sock w3 w' (w_in w3 sock) (reply_byte code @ (if code = SRV_SUCCESS then show_u n @ [NUL] else []))"
      "db_rep w' (db(u \<mapsto> a'))"
      "a_status a = STATUS_CN \<Longrightarrow> listening w a \<Longrightarrow> delivered w3 w' (a_ip a) (a_port a) (message_bytes s n m)"
      "a_status (passed_account (w_accepts w) a) = STATUS_CN \<Longrightarrow> listening w b \<Longrightarrow>
         delivered w3 w' (a_ip b) (a_port b) (ack_bytes n)"
    using send_to_known [OF r(6,7) u s m g r(2-4)] unfolding acc(1) code_def a'_def n_def by blast
  have "served sock w w' rest (reply_byte code @ (if code = SRV_SUCCESS then show_u n @ [NUL] else []))"
    using served_trans [OF r(5) w'(2)] by (simp add: acc)
  moreover have "delivered w w' (a_ip a) (a_port a) (message_bytes s n m)"
    if "a_status a = STATUS_CN" "listening w a"
    using served_delivered [OF r(5) rep(2) w'(4)] that by (simp add: acc)
  moreover have "delivered w w' (a_ip b) (a_port b) (ack_bytes n)"
    if "a_status (passed_account (w_accepts w) a) = STATUS_CN" "listening w b"
    using served_delivered [OF r(5) rep(2) w'(5)] that by (simp add: acc)
  ultimately show ?thesis
    using r(1) w'(1,3) by blast
qed

lemma send_service_unknown:
  assumes rep: "db_rep w db" "client w sock" and rq: "request_ok rq"
    and su: "valid_user s" "valid_user u" "db s = None \<or> db u = None"
    and wire: "wire_ok s" "wire_ok u" "wire_ok m"
    and input: "w_in w sock = s @ NUL # u @ NUL # m @ NUL # rest"
  shows "\<exists>rq' w'. srv_send g sock rq w = (rq', w') \<and>
    served sock w w' rest (reply_byte SRV_ERR_SEND_USR_NOT_EXISTS) \<and> db_rep w' db"
proof -
  obtain rq' w3 where r: "srv_send g sock rq w = (rq', send_to_user g sock rq' w3)"
      "cstr (rq_message_sender rq') = s" "cstr (rq_recipient rq') = u"
      "served sock w w3 rest []" "db_rep w3 db" "client w3 sock"
    using send_receives [OF rep rq wire input] by blast
  have in3: "w_in w3 sock = rest"
    using r(4) by (simp add: served_def)
  obtain w' where "send_to_user g sock rq' w3 = w'"
      "served sock w3 w' (w_in w3 sock) (reply_byte SRV_ERR_SEND_USR_NOT_EXISTS)" "db_rep w' db"
    using send_to_unknown [OF r(5,6) su r(2,3)] by blast
  then show ?thesis
    using r(1) served_trans [OF r(4)] in3 by fastforce
qed

end
