(* ===== verification/ConnQueue.thy ===== *)
theory ConnQueue
  imports Prelude
begin

section \<open>server.c: the connection queue\<close>

text \<open>
  The array \<open>conn_q\<close> of \<open>app/server.c\<close> with its two positions: \<open>producer_pos\<close>, a local of
  \<open>main\<close>, and \<open>service_th_pos\<close>, shared by the service threads. The two operations are the
  bodies of the critical sections, after their guards. The locale is the contract of a bounded
  first-in first-out queue; the ring buffer is shown to keep it.
\<close>

definition MAX_CONN_BACKLOG :: nat where "MAX_CONN_BACKLOG = 10"

record connq =
  conn_q :: "int list"
  conn_q_size :: nat
  service_th_pos :: nat
  producer_pos :: nat

definition init_connq :: connq where
  "init_connq = \<lparr>conn_q = replicate MAX_CONN_BACKLOG 0, conn_q_size = 0, service_th_pos = 0,
     producer_pos = 0\<rparr>"

definition enqueue :: "int \<Rightarrow> connq \<Rightarrow> connq" where
  "enqueue client_sd q = q
     \<lparr>conn_q := (conn_q q)[producer_pos q := client_sd],
      producer_pos := (producer_pos q + 1) mod MAX_CONN_BACKLOG,
      conn_q_size := conn_q_size q + 1\<rparr>"

definition dequeue :: "connq \<Rightarrow> int \<times> connq" where
  "dequeue q = (conn_q q ! service_th_pos q, q
     \<lparr>service_th_pos := (service_th_pos q + 1) mod MAX_CONN_BACKLOG,
      conn_q_size := conn_q_size q - 1\<rparr>)"

subsection \<open>The contract of a bounded queue\<close>

datatype 'a qop = Put 'a | Take

definition puts :: "'a qop list \<Rightarrow> 'a list" where
  "puts ops = concat (map (\<lambda>op. case op of Put x \<Rightarrow> [x] | Take \<Rightarrow> []) ops)"

lemma puts_simps [simp]:
  "puts [] = []" "puts (Put x # ops) = x # puts ops" "puts (Take # ops) = puts ops"
  "puts (ops @ ops') = puts ops @ puts ops'"
  by (simp_all add: puts_def)

text \<open>A run of guarded operations, with the elements it took out; a blocked operation has no run.\<close>

primrec run_ops ::
  "('s \<Rightarrow> nat) \<Rightarrow> ('a \<Rightarrow> 's \<Rightarrow> 's) \<Rightarrow> ('s \<Rightarrow> 'a \<times> 's) \<Rightarrow> nat \<Rightarrow> 'a qop list \<Rightarrow> 's \<Rightarrow> ('a list \<times> 's) option"
where
  "run_ops size_of enq deq cap [] q = Some ([], q)"
| "run_ops size_of enq deq cap (op # ops) q =
     (case op of
        Put x \<Rightarrow> (if size_of q < cap then run_ops size_of enq deq cap ops (enq x q) else None)
      | Take \<Rightarrow>
          (if 0 < size_of q then
             (case run_ops size_of enq deq cap ops (snd (deq q)) of
                None \<Rightarrow> None
              | Some (out, q') \<Rightarrow> Some (fst (deq q) # out, q'))
           else None))"

locale bounded_fifo =
  fixes inv :: "'s \<Rightarrow> bool"
    and contents :: "'s \<Rightarrow> 'a list"
    and size_of :: "'s \<Rightarrow> nat"
    and enq :: "'a \<Rightarrow> 's \<Rightarrow> 's"
    and deq :: "'s \<Rightarrow> 'a \<times> 's"
    and cap :: nat
  assumes size_contents: "inv q \<Longrightarrow> size_of q = length (contents q)"
    and enq_inv: "inv q \<Longrightarrow> size_of q < cap \<Longrightarrow> inv (enq x q)"
    and enq_contents: "inv q \<Longrightarrow> size_of q < cap \<Longrightarrow> contents (enq x q) = contents q @ [x]"
    and deq_inv: "inv q \<Longrightarrow> 0 < size_of q \<Longrightarrow> inv (snd (deq q))"
    and deq_contents: "inv q \<Longrightarrow> 0 < size_of q \<Longrightarrow> contents q = fst (deq q) # contents (snd (deq q))"
begin

lemma enq_size: "inv q \<Longrightarrow> size_of q < cap \<Longrightarrow> size_of (enq x q) = Suc (size_of q)"
  using size_contents [of q] size_contents [of "enq x q"] enq_inv [of q x] enq_contents [of q x] by simp

lemma deq_size: "inv q \<Longrightarrow> 0 < size_of q \<Longrightarrow> Suc (size_of (snd (deq q))) = size_of q"
  using size_contents [of q] size_contents [of "snd (deq q)"] deq_inv [of q] deq_contents [of q] by simp

lemma run_fifo:
  "inv q \<Longrightarrow> run_ops size_of enq deq cap ops q = Some (out, q') \<Longrightarrow> inv q' \<and> contents q @ puts ops = out @ contents q'"
proof (induction ops arbitrary: q out)
  case (Cons op ops)
  show ?case
  proof (cases op)
    case (Put x)
    then have "size_of q < cap" "run_ops size_of enq deq cap ops (enq x q) = Some (out, q')"
      using Cons.prems(2) by (auto split: if_splits)
    then show ?thesis
      using Cons.IH [OF enq_inv [OF Cons.prems(1)]] enq_contents [OF Cons.prems(1)] Put by fastforce
  next
    case Take
    then obtain out' where "0 < size_of q" "run_ops size_of enq deq cap ops (snd (deq q)) = Some (out', q')" "out = fst (deq q) # out'"
      using Cons.prems(2) by (auto split: if_splits option.splits)
    then show ?thesis
      using Cons.IH [OF deq_inv [OF Cons.prems(1)]] deq_contents [OF Cons.prems(1)] Take by fastforce
  qed
qed simp

lemma run_size:
  "inv q \<Longrightarrow> size_of q \<le> cap \<Longrightarrow> run_ops size_of enq deq cap ops q = Some (out, q') \<Longrightarrow> size_of q' \<le> cap"
proof (induction ops arbitrary: q out)
  case (Cons op ops)
  show ?case
  proof (cases op)
    case (Put x)
    then have "size_of q < cap" "run_ops size_of enq deq cap ops (enq x q) = Some (out, q')"
      using Cons.prems(3) by (auto split: if_splits)
    then show ?thesis
      using Cons.IH [OF enq_inv [OF Cons.prems(1)], of x out] Cons.prems(1) enq_size [of q x] by simp
  next
    case Take
    then obtain out' where "0 < size_of q" "run_ops size_of enq deq cap ops (snd (deq q)) = Some (out', q')"
      using Cons.prems(3) by (auto split: if_splits option.splits)
    then show ?thesis
      using Cons.IH [OF deq_inv [OF Cons.prems(1)], of out'] Cons.prems(1,2) deq_size [of q] by simp
  qed
qed simp

end

subsection \<open>The ring buffer keeps the contract\<close>

definition connq_ok :: "connq \<Rightarrow> bool" where
  "connq_ok q \<longleftrightarrow> length (conn_q q) = MAX_CONN_BACKLOG \<and> conn_q_size q \<le> MAX_CONN_BACKLOG \<and>
     service_th_pos q < MAX_CONN_BACKLOG \<and>
     producer_pos q = (service_th_pos q + conn_q_size q) mod MAX_CONN_BACKLOG"

definition queued :: "connq \<Rightarrow> int list" where
  "queued q = map (\<lambda>i. conn_q q ! ((service_th_pos q + i) mod MAX_CONN_BACKLOG)) [0..<conn_q_size q]"

lemma connq_ok_init [simp]: "connq_ok init_connq"
  by (simp add: connq_ok_def init_connq_def MAX_CONN_BACKLOG_def)

lemma queued_init [simp]: "queued init_connq = []" "conn_q_size init_connq = 0"
  by (simp_all add: queued_def init_connq_def)

lemma ring_slots_differ:
  assumes "i < n" "n < (m::nat)"
  shows "(s + i) mod m \<noteq> (s + n) mod m"
proof
  assume "(s + i) mod m = (s + n) mod m"
  then have "m dvd (s + n) - (s + i)"
    using assms by (intro mod_eq_dvd_iff_nat [THEN iffD1]) auto
  then show False
    using assms by (auto dest: dvd_imp_le)
qed

lemma enqueue_ok:
  assumes "connq_ok q" and "conn_q_size q < MAX_CONN_BACKLOG"
  shows "connq_ok (enqueue x q)" and "queued (enqueue x q) = queued q @ [x]"
proof -
  have pos: "0 < MAX_CONN_BACKLOG" by (simp add: MAX_CONN_BACKLOG_def)
  show "connq_ok (enqueue x q)"
    using assms by (simp add: connq_ok_def enqueue_def mod_Suc_eq)
  have "(conn_q q)[producer_pos q := x] ! ((service_th_pos q + i) mod MAX_CONN_BACKLOG) =
      conn_q q ! ((service_th_pos q + i) mod MAX_CONN_BACKLOG)" if "i < conn_q_size q" for i
    using ring_slots_differ [OF that assms(2), of "service_th_pos q"] assms(1)
    by (simp add: connq_ok_def)
  moreover have "(conn_q q)[producer_pos q := x] ! producer_pos q = x"
    using assms(1) pos by (simp add: connq_ok_def)
  ultimately show "queued (enqueue x q) = queued q @ [x]"
    using assms(1) by (simp add: queued_def enqueue_def connq_ok_def)
qed

lemma dequeue_ok:
  assumes "connq_ok q" and "0 < conn_q_size q"
  shows "connq_ok (snd (dequeue q))" and "queued q = fst (dequeue q) # queued (snd (dequeue q))"
proof -
  have pos: "0 < MAX_CONN_BACKLOG" by (simp add: MAX_CONN_BACKLOG_def)
  obtain k where k: "conn_q_size q = Suc k" using assms(2) by (cases "conn_q_size q") auto
  show "connq_ok (snd (dequeue q))"
    using assms pos k by (simp add: connq_ok_def dequeue_def mod_simps)
  have "[0..<Suc k] = 0 # map Suc [0..<k]"
    by (simp add: map_Suc_upt upt_conv_Cons del: upt_Suc)
  then show "queued q = fst (dequeue q) # queued (snd (dequeue q))"
    using assms(1) by (simp add: queued_def dequeue_def k connq_ok_def mod_simps comp_def del: upt_Suc)
qed

interpretation ring: bounded_fifo connq_ok queued conn_q_size enqueue dequeue MAX_CONN_BACKLOG
proof
  show "conn_q_size q = length (queued q)" for q
    by (simp add: queued_def)
qed (fact enqueue_ok dequeue_ok)+

end
