(* ===== verification/Server.thy ===== *)
theory Server
  imports Services ConnQueue
begin

section \<open>server.c: start-up, the dispatch of a request, the accepting loop and the thread pool\<close>

text \<open>
  \<open>app/server.c\<close>. Three models: \<open>server_start\<close> is \<open>main\<close> up to its loop; \<open>service_request\<close> is
  the body of \<open>service_thread\<close> after it has taken a connection; \<open>server_step\<close> is the
  interleaving of the loop of \<open>main\<close> with the service threads. The code between a lock and the
  next unlock or wait of \<open>mutex_conn_q\<close> is one step. \<open>pthread_cond_signal\<close> wakes one sleeper,
  if there is one, and a sleeper may also wake on its own. What a service does to the world is
  not part of a step here: a thread that serves a connection may go on to the next one. The theory
  \<open>System\<close> adds the services.
\<close>

unbundle bit_operations_syntax

subsection \<open>Start-up\<close>

definition set_server_error_code_std :: "int \<Rightarrow> u8 \<Rightarrow> u8" where
  "set_server_error_code_std req_error_code server_error_code =
     (if req_error_code = 0 then SRV_SUCCESS
      else if req_error_code = -1 then SRV_ERR_CN_ANY
      else server_error_code)"

text \<open>
  What the system keeps of the server's own sockets: whether their address may be reused, the address
  and port they are bound to, the length of the queue of connections they listen with. The calls take
  effect on an open socket; the port in the address is in network byte order.
\<close>

record sockets =
  k_reuse :: "fd set"
  k_bound :: "fd \<rightharpoonup> u32 \<times> u16"
  k_backlog :: "fd \<rightharpoonup> int"

record sockaddr_in =
  sin_family :: nat
  sin_addr :: u32
  sin_port :: u16

definition AF_INET :: nat where "AF_INET = 2"
definition INADDR_ANY :: u32 where "INADDR_ANY = 0"
definition LISTEN_BACKLOG :: int where "LISTEN_BACKLOG = 10"

definition htons :: "u16 \<Rightarrow> u16" where
  "htons x = push_bit 8 x OR drop_bit 8 x"

definition on_socket :: "fd \<Rightarrow> (sockets \<Rightarrow> sockets) \<Rightarrow> sockets \<Rightarrow> world \<Rightarrow> (int \<times> sockets) \<times> world" where
  "on_socket sd f k = may_fail (-1, k) (\<lambda>w.
     if w_fds w sd = Some SockD then ((0, f k), w) else failing (-1, k) EBADF w)"

definition sys_setsockopt_reuse :: "fd \<Rightarrow> sockets \<Rightarrow> world \<Rightarrow> (int \<times> sockets) \<times> world" where
  "sys_setsockopt_reuse sd = on_socket sd (\<lambda>k. k\<lparr>k_reuse := insert sd (k_reuse k)\<rparr>)"

definition sys_bind :: "fd \<Rightarrow> sockaddr_in \<Rightarrow> sockets \<Rightarrow> world \<Rightarrow> (int \<times> sockets) \<times> world" where
  "sys_bind sd addr = on_socket sd (\<lambda>k.
     if sin_family addr = AF_INET then k\<lparr>k_bound := (k_bound k)(sd \<mapsto> (sin_addr addr, htons (sin_port addr)))\<rparr> else k)"

definition sys_listen :: "fd \<Rightarrow> int \<Rightarrow> sockets \<Rightarrow> world \<Rightarrow> (int \<times> sockets) \<times> world" where
  "sys_listen sd backlog = on_socket sd (\<lambda>k. k\<lparr>k_backlog := (k_backlog k)(sd \<mapsto> backlog)\<rparr>)"

text \<open>\<open>gethostname\<close>, \<open>gethostbyname\<close>: they succeed or fail.\<close>

definition sys_setup :: "world \<Rightarrow> int \<times> world" where
  "sys_setup = may_fail (-1) (\<lambda>w. (0, w))"

text \<open>The port as the start message prints it.\<close>

definition show_port :: "number option \<Rightarrow> string" where
  "show_port number = (case number of Some (IntNum p) \<Rightarrow> show_i p | _ \<Rightarrow> [])"

text \<open>\<open>setsockopt\<close>, the address, \<open>bind\<close> and \<open>listen\<close>, each with its check.\<close>

definition listen_on :: "fd \<Rightarrow> u16 \<Rightarrow> sockets \<Rightarrow> world \<Rightarrow> int \<times> sockets \<times> world" where
  "listen_on server_sd server_port k w =
     (case sys_setsockopt_reuse server_sd k w of ((ret1, k1), w1) \<Rightarrow>
        (case check_sock_error ret1 server_sd w1 of (r1, w2) \<Rightarrow>
           if r1 < 0 then (r1, k1, w2)
           else
             (let server_addr = \<lparr>sin_family = AF_INET, sin_addr = INADDR_ANY, sin_port = htons server_port\<rparr>
              in case sys_bind server_sd server_addr k1 w2 of ((ret2, k2), w3) \<Rightarrow>
                   (case check_sock_error ret2 server_sd w3 of (r2, w4) \<Rightarrow>
                      if r2 < 0 then (r2, k2, w4)
                      else
                        (case sys_listen server_sd LISTEN_BACKLOG k2 w4 of ((ret3, k3), w5) \<Rightarrow>
                           (case check_sock_error ret3 server_sd w5 of (r3, w6) \<Rightarrow> (r3, k3, w6)))))))"

text \<open>
  \<open>main\<close> up to its loop, for the address of the host. The result is the exit code, or the socket
  on which the loop accepts connections.
\<close>

definition server_start ::
  "string \<Rightarrow> string list \<Rightarrow> sockets \<Rightarrow> world \<Rightarrow> (int + fd) \<times> sockets \<times> world" where
  "server_start host argv k w =
     (if length argv \<noteq> 3 \<or> argv ! 1 \<noteq> ''-p'' then (Inl GEN_ERR_INV_ARGS, k, w)
      else
        (case str_to_num (argv ! 2) INT_T w of ((r, server_port), w1) \<Rightarrow>
           CHECK_ARGS (r < 0) (Inl GEN_ERR_INV_ARGS, k, w1)
           (case db_init_db w1 of (r1, w2) \<Rightarrow>
              CHECK_FUNC_ERROR r1 (Inl GEN_ERR_ANY, k, w2)
              (case sys_socket w2 of (server_sd, w3) \<Rightarrow>
                 CHECK_FUNC_ERROR_WITH_ERRNO server_sd (Inl GEN_ERR_ANY, k, w3)
                 (case listen_on server_sd (port_of server_port) k w3 of (r2, k1, w4) \<Rightarrow>
                    if r2 < 0 then (Inl GEN_ERR_ANY, k1, w4)
                    else
                      (case sys_setup w4 of (r3, w5) \<Rightarrow>
                         CHECK_FUNC_ERROR_WITH_ERRNO r3 (Inl GEN_ERR_ANY, k1, w5)
                         (case sys_setup w5 of (r4, w6) \<Rightarrow>
                            CHECK_ERROR_WITH_ERRNO (r4 < 0) (Inl GEN_ERR_ANY, k1, w6)
                            (Inr server_sd, k1,
                             printf (''s> init server '' @ host @ '':'' @ show_port server_port @ [LF]) w6))))))))"

subsection \<open>One request\<close>

text \<open>
  The body of the loop of \<open>service_thread\<close> for a connection. The request is what the thread's
  stack held; the client's socket is not closed at the end.
\<close>

definition service_request :: "garbage \<Rightarrow> fd \<Rightarrow> request_t \<Rightarrow> world \<Rightarrow> (request_t \<times> world) option" where
  "service_request g client_socket request w =
     (case recv_string client_socket (rq_op_code request) w of ((r, buf), w1) \<Rightarrow>
        (let req = request\<lparr>rq_op_code := buf\<rparr>;
             op = cstr buf
         in if r = -1 then Some (req, w1)
            else if op = REGISTER then Some (srv_register g client_socket req w1)
            else if op = UNREGISTER then Some (srv_unregister g client_socket req w1)
            else if op = CONNECT then srv_connect g client_socket req w1
            else if op = DISCONNECT then Some (srv_disconnect g client_socket req w1)
            else if op = SEND then Some (srv_send g client_socket req w1)
            else Some (req, w1)))"

subsection \<open>The accepting loop and the service threads\<close>

definition THREAD_POOL_SIZE :: nat where "THREAD_POOL_SIZE = 5"

datatype main_pc = MAccept | MLock fd | MSleep fd | MExit int

datatype thread_pc = TLock | TSleep | TServe fd

record server =
  s_q :: connq
  s_main :: main_pc
  s_threads :: "thread_pc list"

definition init_server :: server where
  "init_server = \<lparr>s_q = init_connq, s_main = MAccept,
     s_threads = replicate THREAD_POOL_SIZE TLock\<rparr>"

text \<open>
  The steps of \<open>main\<close>: \<open>accept\<close> returns, with a connection or an error; the critical section,
  which sleeps on a full queue or enqueues and signals; a wake-up. The steps of thread \<open>i\<close>: its
  critical section; a wake-up; the end of a service. And the handler of \<open>SIGINT\<close>.
\<close>

datatype event = Accepted fd | AcceptFailed | MainWaits | Enqueued fd "nat option" | MainWakes
  | Waits nat | Dequeued nat fd | Wakes nat | Served nat | Interrupted

definition running :: "server \<Rightarrow> bool" where
  "running s \<longleftrightarrow> (case s_main s of MExit _ \<Rightarrow> False | _ \<Rightarrow> True)"

definition asleep :: "server \<Rightarrow> nat \<Rightarrow> bool" where
  "asleep s i \<longleftrightarrow> i < length (s_threads s) \<and> s_threads s ! i = TSleep"

definition set_thread :: "nat \<Rightarrow> thread_pc \<Rightarrow> server \<Rightarrow> server" where
  "set_thread i pc s = s\<lparr>s_threads := (s_threads s)[i := pc]\<rparr>"

text \<open>
  \<open>pthread_cond_signal(&cond_conn_q_not_empty)\<close>: \<open>woken\<close> is the thread it wakes, \<open>None\<close> only if
  no thread sleeps.
\<close>

definition may_signal :: "server \<Rightarrow> nat option \<Rightarrow> bool" where
  "may_signal s woken \<longleftrightarrow> (case woken of
      Some i \<Rightarrow> asleep s i
    | None \<Rightarrow> (\<forall>i < length (s_threads s). s_threads s ! i \<noteq> TSleep))"

definition wake :: "nat option \<Rightarrow> server \<Rightarrow> server" where
  "wake woken s = (case woken of Some i \<Rightarrow> set_thread i TLock s | None \<Rightarrow> s)"

definition signal_not_full :: "main_pc \<Rightarrow> main_pc" where
  "signal_not_full pc = (case pc of MSleep fd \<Rightarrow> MLock fd | _ \<Rightarrow> pc)"

text \<open>
  The handler of \<open>SIGINT\<close>: it destroys the mutexes and ends the process, with all its threads, with
  exit code 0; what waits in the ring is not served.
\<close>

definition shutdown_server :: "server \<Rightarrow> server" where
  "shutdown_server s = s\<lparr>s_main := MExit 0\<rparr>"

lemma shutdown_fields [simp]:
  "s_main (shutdown_server s) = MExit 0" "s_q (shutdown_server s) = s_q s"
  "s_threads (shutdown_server s) = s_threads s"
  by (simp_all add: shutdown_server_def)

inductive server_step :: "server \<Rightarrow> event \<Rightarrow> server \<Rightarrow> bool" where
  accepted: "s_main s = MAccept \<Longrightarrow> server_step s (Accepted fd) (s\<lparr>s_main := MLock fd\<rparr>)"
| accept_failed: "s_main s = MAccept \<Longrightarrow> server_step s AcceptFailed (s\<lparr>s_main := MExit (-1)\<rparr>)"
| main_waits: "s_main s = MLock fd \<Longrightarrow> conn_q_size (s_q s) = MAX_CONN_BACKLOG \<Longrightarrow>
    server_step s MainWaits (s\<lparr>s_main := MSleep fd\<rparr>)"
| enqueued: "s_main s = MLock fd \<Longrightarrow> conn_q_size (s_q s) \<noteq> MAX_CONN_BACKLOG \<Longrightarrow>
    q' = enqueue fd (s_q s) \<Longrightarrow>
    (if conn_q_size q' = 1 then may_signal s woken else woken = None) \<Longrightarrow>
    server_step s (Enqueued fd woken) (wake woken (s\<lparr>s_q := q', s_main := MAccept\<rparr>))"
| main_wakes: "s_main s = MSleep fd \<Longrightarrow> server_step s MainWakes (s\<lparr>s_main := MLock fd\<rparr>)"
| waits: "running s \<Longrightarrow> i < length (s_threads s) \<Longrightarrow> s_threads s ! i = TLock \<Longrightarrow>
    conn_q_size (s_q s) = 0 \<Longrightarrow> server_step s (Waits i) (set_thread i TSleep s)"
| dequeued: "running s \<Longrightarrow> i < length (s_threads s) \<Longrightarrow> s_threads s ! i = TLock \<Longrightarrow>
    conn_q_size (s_q s) \<noteq> 0 \<Longrightarrow> dequeue (s_q s) = (fd, q') \<Longrightarrow>
    m' = (if conn_q_size q' = MAX_CONN_BACKLOG - 1 then signal_not_full (s_main s) else s_main s) \<Longrightarrow>
    server_step s (Dequeued i fd) (set_thread i (TServe fd) (s\<lparr>s_q := q', s_main := m'\<rparr>))"
| wakes: "running s \<Longrightarrow> asleep s i \<Longrightarrow> server_step s (Wakes i) (set_thread i TLock s)"
| served: "running s \<Longrightarrow> i < length (s_threads s) \<Longrightarrow> s_threads s ! i = TServe fd \<Longrightarrow>
    server_step s (Served i) (set_thread i TLock s)"
| interrupted: "running s \<Longrightarrow> server_step s Interrupted (shutdown_server s)"

inductive_cases server_stepE [elim]: "server_step s e s'"

text \<open>The same steps as a function of the event, for running concrete traces.\<close>

definition exec_event :: "server \<Rightarrow> event \<Rightarrow> server option" where
  "exec_event s e = (case e of
      Accepted fd \<Rightarrow> (if s_main s = MAccept then Some (s\<lparr>s_main := MLock fd\<rparr>) else None)
    | AcceptFailed \<Rightarrow> (if s_main s = MAccept then Some (s\<lparr>s_main := MExit (-1)\<rparr>) else None)
    | MainWaits \<Rightarrow> (case s_main s of
          MLock fd \<Rightarrow> (if conn_q_size (s_q s) = MAX_CONN_BACKLOG then Some (s\<lparr>s_main := MSleep fd\<rparr>) else None)
        | _ \<Rightarrow> None)
    | Enqueued fd woken \<Rightarrow>
        (let q' = enqueue fd (s_q s)
         in if s_main s = MLock fd \<and> conn_q_size (s_q s) \<noteq> MAX_CONN_BACKLOG \<and>
              (if conn_q_size q' = 1 then may_signal s woken else woken = None)
            then Some (wake woken (s\<lparr>s_q := q', s_main := MAccept\<rparr>)) else None)
    | MainWakes \<Rightarrow> (case s_main s of MSleep fd \<Rightarrow> Some (s\<lparr>s_main := MLock fd\<rparr>) | _ \<Rightarrow> None)
    | Waits i \<Rightarrow>
        (if running s \<and> i < length (s_threads s) \<and> s_threads s ! i = TLock \<and> conn_q_size (s_q s) = 0
         then Some (set_thread i TSleep s) else None)
    | Dequeued i fd \<Rightarrow>
        (let (fd', q') = dequeue (s_q s);
             m' = (if conn_q_size q' = MAX_CONN_BACKLOG - 1 then signal_not_full (s_main s) else s_main s)
         in if running s \<and> i < length (s_threads s) \<and> s_threads s ! i = TLock \<and>
              conn_q_size (s_q s) \<noteq> 0 \<and> fd = fd'
            then Some (set_thread i (TServe fd) (s\<lparr>s_q := q', s_main := m'\<rparr>)) else None)
    | Wakes i \<Rightarrow> (if running s \<and> asleep s i then Some (set_thread i TLock s) else None)
    | Served i \<Rightarrow>
        (if running s \<and> i < length (s_threads s) \<and> (case s_threads s ! i of TServe _ \<Rightarrow> True | _ \<Rightarrow> False)
         then Some (set_thread i TLock s) else None)
    | Interrupted \<Rightarrow> (if running s then Some (shutdown_server s) else None))"

lemma dequeued_quietly:
  assumes "running s" "i < length (s_threads s)" "s_threads s ! i = TLock" "conn_q_size (s_q s) \<noteq> 0"
    and "dequeue (s_q s) = (fd, q')" "conn_q_size q' \<noteq> MAX_CONN_BACKLOG - 1"
  shows "server_step s (Dequeued i fd) (set_thread i (TServe fd) (s\<lparr>s_q := q'\<rparr>))"
  using server_step.dequeued [OF assms(1-5) refl] assms(6) by simp

lemma exec_event_step: "exec_event s e = Some s' \<longleftrightarrow> server_step s e s'"
proof
  assume "exec_event s e = Some s'"
  then show "server_step s e s'"
    by (cases e)
      (auto simp: exec_event_def Let_def split: if_splits main_pc.splits thread_pc.splits prod.splits
        intro: server_step.intros dequeued_quietly simp del: One_nat_def)
next
  assume "server_step s e s'"
  then show "exec_event s e = Some s'"
    by (cases rule: server_step.cases) (simp_all add: exec_event_def Let_def split: prod.splits)
qed

inductive server_trace :: "server \<Rightarrow> event list \<Rightarrow> server \<Rightarrow> bool" where
  start: "server_trace s [] s"
| snoc: "server_trace s es s1 \<Longrightarrow> server_step s1 e s2 \<Longrightarrow> server_trace s (es @ [e]) s2"

fun exec_events :: "server \<Rightarrow> event list \<Rightarrow> server option" where
  "exec_events s [] = Some s"
| "exec_events s (e # es) = (case exec_event s e of None \<Rightarrow> None | Some s1 \<Rightarrow> exec_events s1 es)"

abbreviation reachable :: "server \<Rightarrow> bool" where
  "reachable s \<equiv> \<exists>es. server_trace init_server es s"

lemma exec_events_trace: "exec_events s es = Some s' \<Longrightarrow> server_trace s0 es0 s \<Longrightarrow> server_trace s0 (es0 @ es) s'"
proof (induction es arbitrary: s es0)
  case (Cons e es)
  then obtain s1 where "exec_event s e = Some s1" "exec_events s1 es = Some s'"
    by (auto split: option.splits)
  then have "server_trace s0 ((es0 @ [e]) @ es) s'"
    using Cons.IH server_trace.snoc [OF Cons.prems(2)] exec_event_step by blast
  then show ?case by simp
qed simp

subsection \<open>The invariant\<close>

text \<open>
  The ring buffer is well formed; \<open>main\<close> sleeps only on a full queue; when there is work, not
  every service thread sleeps.
\<close>

definition server_ok :: "server \<Rightarrow> bool" where
  "server_ok s \<longleftrightarrow> connq_ok (s_q s) \<and> length (s_threads s) = THREAD_POOL_SIZE \<and>
     (\<forall>fd. s_main s = MSleep fd \<longrightarrow> conn_q_size (s_q s) = MAX_CONN_BACKLOG) \<and>
     (0 < conn_q_size (s_q s) \<longrightarrow> (\<exists>i < length (s_threads s). s_threads s ! i \<noteq> TSleep))"

lemma server_ok_init: "server_ok init_server"
  by (simp add: server_ok_def init_server_def)

lemma some_awake:
  assumes "may_signal s woken" and "0 < length (s_threads s)"
  shows "\<exists>i < length (s_threads s). s_threads (wake woken s) ! i \<noteq> TSleep"
  using assms by (cases woken) (auto simp: may_signal_def wake_def set_thread_def asleep_def)

lemma wake_fields [simp]:
  "s_q (wake k s) = s_q s" "s_main (wake k s) = s_main s"
  "length (s_threads (wake k s)) = length (s_threads s)"
  "s_q (set_thread i pc s) = s_q s" "s_main (set_thread i pc s) = s_main s"
  "length (s_threads (set_thread i pc s)) = length (s_threads s)"
  by (simp_all add: wake_def set_thread_def split: option.splits)

lemma wake_none [simp]: "wake None s = s"
  by (simp add: wake_def)

lemma thread_set:
  "i < length (s_threads s) \<Longrightarrow> s_threads (set_thread i pc s) ! j = (if j = i then pc else s_threads s ! j)"
  by (simp add: set_thread_def)

lemma may_signal_cong: "s_threads s' = s_threads s \<Longrightarrow> may_signal s' k = may_signal s k"
  by (simp add: may_signal_def asleep_def split: option.splits)

lemma signal_not_full_awake [simp]: "signal_not_full m \<noteq> MSleep fd"
  by (simp add: signal_not_full_def split: main_pc.splits)

lemma enqueue_size [simp]: "conn_q_size (enqueue x q) = Suc (conn_q_size q)"
  by (simp add: enqueue_def)

lemma dequeue_size: "dequeue q = (fd, q') \<Longrightarrow> conn_q_size q' = conn_q_size q - 1"
  by (auto simp: dequeue_def)

lemma server_ok_step:
  assumes ok: "server_ok s" and "server_step s e s'"
  shows "server_ok s'"
  using assms(2)
proof (cases rule: server_step.cases)
  case (enqueued fd q' woken)
  let ?s = "s\<lparr>s_q := q', s_main := MAccept\<rparr>"
  have size: "conn_q_size (s_q s) < MAX_CONN_BACKLOG"
    using enqueued(4) ok by (simp add: server_ok_def connq_ok_def)
  have "\<exists>i < length (s_threads s'). s_threads s' ! i \<noteq> TSleep"
  proof (cases "conn_q_size q' = 1")
    case True
    then have "may_signal ?s woken"
      using enqueued(6) by (simp add: may_signal_def asleep_def split: option.splits)
    moreover have "0 < length (s_threads ?s)"
      using ok by (simp add: server_ok_def THREAD_POOL_SIZE_def)
    ultimately have "\<exists>i < length (s_threads ?s). s_threads (wake woken ?s) ! i \<noteq> TSleep"
      by (rule some_awake)
    then show ?thesis
      using enqueued(2) by simp
  next
    case False
    then show ?thesis
      using enqueued ok by (auto simp: server_ok_def)
  qed
  then show ?thesis
    using ok size enqueue_ok(1) [of "s_q s" fd] enqueued by (simp add: server_ok_def)
next
  case (dequeued i fd q' m')
  have "connq_ok q'"
    using dequeue_ok(1) [of "s_q s"] ok dequeued by (simp add: server_ok_def)
  moreover have "s_threads s' ! i \<noteq> TSleep" "i < length (s_threads s')"
    using dequeued by (simp_all add: thread_set set_thread_def)
  moreover have "conn_q_size q' = MAX_CONN_BACKLOG" if "m' = MSleep f" for f
    using that dequeued(8) ok dequeue_size [OF dequeued(7)] by (auto simp: server_ok_def split: if_splits)
  ultimately show ?thesis
    using ok dequeued(2) by (auto simp: server_ok_def)
next
  case (wakes i)
  then show ?thesis
    using ok by (auto simp: server_ok_def asleep_def thread_set)
next
  case (served i fd)
  then show ?thesis
    using ok by (auto simp: server_ok_def thread_set)
qed (use ok in \<open>auto simp: server_ok_def\<close>)

lemma server_ok_trace: "server_trace s es s' \<Longrightarrow> server_ok s \<Longrightarrow> server_ok s'"
  by (induction rule: server_trace.induct) (auto dest: server_ok_step)

lemma server_ok_reachable: "reachable s \<Longrightarrow> server_ok s"
  using server_ok_trace server_ok_init by blast

subsection \<open>First in, first out\<close>

definition enqueued_fds :: "event list \<Rightarrow> fd list" where
  "enqueued_fds es = concat (map (\<lambda>e. case e of Enqueued fd _ \<Rightarrow> [fd] | _ \<Rightarrow> []) es)"

definition dequeued_fds :: "event list \<Rightarrow> fd list" where
  "dequeued_fds es = concat (map (\<lambda>e. case e of Dequeued _ fd \<Rightarrow> [fd] | _ \<Rightarrow> []) es)"

definition queue_ops :: "event list \<Rightarrow> fd qop list" where
  "queue_ops es = concat (map (\<lambda>e. case e of Enqueued fd _ \<Rightarrow> [Put fd] | Dequeued _ _ \<Rightarrow> [Take] | _ \<Rightarrow> []) es)"

lemma puts_queue_ops: "puts (queue_ops es) = enqueued_fds es"
proof (induction es)
  case (Cons e es)
  then show ?case by (cases e) (simp_all add: queue_ops_def enqueued_fds_def)
qed (simp_all add: queue_ops_def enqueued_fds_def)

lemma run_ops_append:
  "run_ops sz enq deq cap (ops @ ops') q = (case run_ops sz enq deq cap ops q of
     None \<Rightarrow> None
   | Some (out, q') \<Rightarrow> (case run_ops sz enq deq cap ops' q' of
        None \<Rightarrow> None | Some (out', q'') \<Rightarrow> Some (out @ out', q'')))"
  by (induction ops arbitrary: q) (auto split: qop.splits option.splits)

text \<open>A trace of the server runs its queue operations, each inside its guard.\<close>

lemma trace_runs_queue:
  assumes "server_trace s es s'" and "server_ok s"
  shows "run_ops conn_q_size enqueue dequeue MAX_CONN_BACKLOG (queue_ops es) (s_q s) =
    Some (dequeued_fds es, s_q s')"
  using assms
proof (induction rule: server_trace.induct)
  case (start s)
  then show ?case by (simp add: queue_ops_def dequeued_fds_def)
next
  case (snoc s es s1 e s2)
  have ok: "server_ok s1"
    using server_ok_trace [OF snoc.hyps(1) snoc.prems] .
  have "run_ops conn_q_size enqueue dequeue MAX_CONN_BACKLOG (queue_ops [e]) (s_q s1) =
      Some (dequeued_fds [e], s_q s2)"
    using snoc.hyps(2)
  proof (cases rule: server_step.cases)
    case (enqueued fd q' woken)
    then have "conn_q_size (s_q s1) < MAX_CONN_BACKLOG"
      using ok by (simp add: server_ok_def connq_ok_def)
    then show ?thesis
      using enqueued by (simp add: queue_ops_def dequeued_fds_def)
  qed (simp_all add: queue_ops_def dequeued_fds_def)
  then show ?case
    using snoc.IH [OF snoc.prems]
    by (simp add: queue_ops_def dequeued_fds_def run_ops_append)
qed

subsection \<open>No connection waits for nobody\<close>

lemma awake_thread_dequeues:
  assumes "server_ok s" "running s" "0 < conn_q_size (s_q s)"
  shows "\<exists>es s'. server_trace s es s' \<and> length es \<le> 2 \<and>
    dequeued_fds es = [hd (queued (s_q s))] \<and> enqueued_fds es = [] \<and>
    s_q s' = snd (dequeue (s_q s)) \<and>
    s_main s' = (if conn_q_size (s_q s) = MAX_CONN_BACKLOG then signal_not_full (s_main s) else s_main s)"
proof -
  obtain i where i: "i < length (s_threads s)" "s_threads s ! i \<noteq> TSleep"
    using assms(1,3) by (auto simp: server_ok_def)
  obtain fd q' where dq: "dequeue (s_q s) = (fd, q')" by fastforce
  have hd: "hd (queued (s_q s)) = fd"
    using dequeue_ok(2) [of "s_q s"] assms(1,3) dq by (simp add: server_ok_def)
  have size: "(conn_q_size q' = MAX_CONN_BACKLOG - 1) = (conn_q_size (s_q s) = MAX_CONN_BACKLOG)"
    using dequeue_size [OF dq] assms(3) by (auto simp: MAX_CONN_BACKLOG_def)
  have take: "\<exists>s'. server_step v (Dequeued i fd) s' \<and> s_q s' = q' \<and>
      s_main s' = (if conn_q_size (s_q s) = MAX_CONN_BACKLOG then signal_not_full (s_main s) else s_main s)"
    if v: "s_q v = s_q s" "s_main v = s_main s" "s_threads v ! i = TLock" "i < length (s_threads v)" for v
  proof -
    have "running v" using assms(2) v(2) by (simp add: running_def)
    then show ?thesis
      using server_step.dequeued [OF _ v(4,3), of fd q'] v(1,2) dq assms(3) size by fastforce
  qed
  show ?thesis
  proof (cases "s_threads s ! i")
    case TLock
    obtain s' where s': "server_step s (Dequeued i fd) s'" "s_q s' = q'"
        "s_main s' = (if conn_q_size (s_q s) = MAX_CONN_BACKLOG then signal_not_full (s_main s) else s_main s)"
      using take [OF refl refl TLock i(1)] by blast
    have "server_trace s ([] @ [Dequeued i fd]) s'"
      by (rule server_trace.snoc [OF server_trace.start s'(1)])
    moreover have "dequeued_fds [Dequeued i fd] = [fd]" "enqueued_fds [Dequeued i fd] = []"
      by (simp_all add: dequeued_fds_def enqueued_fds_def)
    ultimately show ?thesis
      using s'(2,3) dq hd by (intro exI [of _ "[Dequeued i fd]"] exI [of _ s']) simp
  next
    case TSleep
    then show ?thesis using i(2) by simp
  next
    case (TServe f)
    let ?v = "set_thread i TLock s"
    have step: "server_step s (Served i) ?v"
      by (rule server_step.served [OF assms(2) i(1) TServe])
    obtain s' where s': "server_step ?v (Dequeued i fd) s'" "s_q s' = q'"
        "s_main s' = (if conn_q_size (s_q s) = MAX_CONN_BACKLOG then signal_not_full (s_main s) else s_main s)"
      using take [of ?v] i(1) by (auto simp: thread_set)
    have "server_trace s (([] @ [Served i]) @ [Dequeued i fd]) s'"
      by (rule server_trace.snoc [OF server_trace.snoc [OF server_trace.start step] s'(1)])
    moreover have "dequeued_fds [Served i, Dequeued i fd] = [fd]" "enqueued_fds [Served i, Dequeued i fd] = []"
      by (simp_all add: dequeued_fds_def enqueued_fds_def)
    ultimately show ?thesis
      using s'(2,3) dq hd by (intro exI [of _ "[Served i, Dequeued i fd]"] exI [of _ s']) simp
  qed
qed

end
