(* ===== verification/Refinement.thy ===== *)
theory Refinement
  imports Prelude
begin

section \<open>Refinement of a specification by a sequence of operations\<close>

text \<open>
  The contract between a component with state \<open>'w\<close> and its specification with state \<open>'d\<close>:
  an operation that is ready returns what the specification says and leads to related states;
  operations that are apart do not disturb each other's readiness. Then whole runs refine.
\<close>

primrec run_all :: "('c \<Rightarrow> 'w \<Rightarrow> ('r \<times> 'w) option) \<Rightarrow> 'c list \<Rightarrow> 'w \<Rightarrow> ('r list \<times> 'w) option" where
  "run_all step [] w = Some ([], w)"
| "run_all step (c # cs) w =
     (case step c w of
        None \<Rightarrow> None
      | Some (r, w1) \<Rightarrow>
          (case run_all step cs w1 of None \<Rightarrow> None | Some (rs, w2) \<Rightarrow> Some (r # rs, w2)))"

primrec spec_all :: "('c \<Rightarrow> 'd \<Rightarrow> 'r \<times> 'd) \<Rightarrow> 'c list \<Rightarrow> 'd \<Rightarrow> 'r list \<times> 'd" where
  "spec_all spec [] d = ([], d)"
| "spec_all spec (c # cs) d =
     (let (r, d1) = spec c d; (rs, d2) = spec_all spec cs d1 in (r # rs, d2))"

locale simulation =
  fixes rep :: "'w \<Rightarrow> 'd \<Rightarrow> bool"
    and step :: "'c \<Rightarrow> 'w \<Rightarrow> ('r \<times> 'w) option"
    and spec :: "'c \<Rightarrow> 'd \<Rightarrow> 'r \<times> 'd"
    and ready :: "'c \<Rightarrow> 'w \<Rightarrow> bool"
    and apart :: "'c \<Rightarrow> 'c \<Rightarrow> bool"
  assumes step_refines: "rep w d \<Longrightarrow> ready c w \<Longrightarrow>
      \<exists>w'. step c w = Some (fst (spec c d), w') \<and> rep w' (snd (spec c d))"
    and stays_ready: "rep w d \<Longrightarrow> ready c w \<Longrightarrow> step c w = Some (r, w') \<Longrightarrow> apart c c' \<Longrightarrow>
      ready c' w \<Longrightarrow> ready c' w'"
begin

lemma run_refines:
  assumes "rep w d" and "\<forall>c \<in> set cs. ready c w" and "sorted_wrt apart cs"
  shows "\<exists>w'. run_all step cs w = Some (fst (spec_all spec cs d), w') \<and> rep w' (snd (spec_all spec cs d))"
  using assms
proof (induction cs arbitrary: w d)
  case (Cons c cs)
  obtain w1 where w1: "step c w = Some (fst (spec c d), w1)" "rep w1 (snd (spec c d))"
    using step_refines [OF Cons.prems(1), of c] Cons.prems(2) by auto
  have "\<forall>c' \<in> set cs. ready c' w1"
    using stays_ready [OF Cons.prems(1) _ w1(1)] Cons.prems(2,3) by simp
  then obtain w2 where "run_all step cs w1 = Some (fst (spec_all spec cs (snd (spec c d))), w2)"
      "rep w2 (snd (spec_all spec cs (snd (spec c d))))"
    using Cons.IH [OF w1(2)] Cons.prems(3) by auto
  then show ?case
    using w1(1) by (simp add: case_prod_unfold Let_def)
qed simp

end

end
