(* ===== verification/Session.thy ===== *)
theory Session
  imports SendService Server Refinement
begin

section \<open>Requests as commands on the map of accounts\<close>

text \<open>
  The abstract specification of the whole server, one request at a time: \<open>chat_spec\<close> gives for
  every well-formed command the bytes of the answer and the new map of accounts. What the
  server does for the command on a socket, from the operation code to the reply, is shown to
  refine it, and so is a whole session of commands on as many sockets.
\<close>

subsection \<open>All outcomes of a delivery of pending messages\<close>

definition pend_outcome :: "(u32 \<Rightarrow> u16 \<Rightarrow> bool) \<Rightarrow> account \<Rightarrow> account" where
  "pend_outcome acc a =
     (if a_pend a = Map.empty then a
      else if acc (a_ip a) (a_port a) then a\<lparr>a_pend := Map.empty\<rparr>
      else a\<lparr>a_status := STATUS_DCN\<rparr>)"

lemma send_pend_msgs_outcome:
  assumes rep: "db_rep w db" "valid_user u" "db u = Some a"
    and p: "e_username p = u" "e_type p = ENT_TYPE_P_MSG" "entry_ok p" and g: "garbage_ok g"
  shows "\<exists>r w'. aux_connect_send_pend_msgs g p w = Some (r, w') \<and> effects {} w w' \<and>
    db_rep w' (db(u \<mapsto> pend_outcome (w_accepts w) a))"
proof (cases "listening w a")
  case True
  then have "pend_outcome (w_accepts w) a = a\<lparr>a_pend := Map.empty\<rparr>"
    by (simp add: pend_outcome_def)
  then show ?thesis
    using send_pend_msgs_refines [OF rep True p g] by auto
next
  case False
  let ?r = "set_e_username u (set_e_type ENT_TYPE_UD (g_entry g ''pend.recipient_entry''))"
  have r: "e_username ?r = u" "e_type ?r = ENT_TYPE_UD" "entry_ok ?r"
    using g rep(2) by (simp_all add: cmem)
  let ?w = "w\<lparr>w_next := Suc (w_next w)\<rparr>"
  obtain c where c: "db_io_op_usr_ent ?r READ w = ((DBMS_SUCCESS, c), ?w)" "user_entry u c a"
    using read_account_refines [OF rep r] by blast
  note cf = user_entry_facts [OF c(2)]
  obtain mr ar s where run: "aux_connect_send_pend_msgs g p w = pend_loop mr ar s c p ?w"
    using c(1) p(1) by (simp add: aux_connect_send_pend_msgs_def Let_def)
  have e: "effects {} w ?w" by simp
  have rep': "db_rep ?w db" using rep(1) by simp
  show ?thesis
  proof (cases "a_pend a = Map.empty")
    case True
    have "db(u \<mapsto> a) = db" using rep(3) by (simp add: fun_upd_idem)
    then have "db_rep (clear_errno ?w) (db(u \<mapsto> pend_outcome (w_accepts w) a))"
      using True db_rep_effects [OF rep', of "{}" "clear_errno ?w"]
      by (simp add: pend_outcome_def clear_errno_def)
    then show ?thesis
      using run pend_loop_empty [OF rep' rep(2,3) True p(1,2)]
        effects_trans [OF e effects_quiet(4)] by metis
  next
    case nonempty: False
    have "\<not> listening ?w a" using False by simp
    then obtain w' where "pend_loop mr ar s c p ?w = Some (SRV_ERR_SEND_ANY, w')" "effects {} ?w w'"
        "db_rep w' (db(u \<mapsto> a\<lparr>a_status := STATUS_DCN\<rparr>))"
      using pend_loop_refused [OF rep' rep(2,3) _ nonempty p cf(2,3,1)] by blast
    then show ?thesis
      using run nonempty False effects_trans [OF e] by (auto simp: pend_outcome_def)
  qed
qed

subsection \<open>All outcomes of CONNECT\<close>

definition connect_outcome ::
  "garbage \<Rightarrow> (u32 \<Rightarrow> u16 \<Rightarrow> bool) \<Rightarrow> u32 \<Rightarrow> u32 \<Rightarrow> account option \<Rightarrow> u8 \<times> account option"
where
  "connect_outcome g acc ip p x =
     (case x of
        None \<Rightarrow> (SRV_ERR_CN_USR_NOT_EXISTS, None)
      | Some a \<Rightarrow>
          (if a_status a = STATUS_CN then (SRV_ERR_CN_USR_ALREADY_CN, Some (pend_outcome acc a))
           else if g_code g ''connect.reply'' = SRV_ERR_CN_ANY then
             (SRV_ERR_CN_ANY, Some (pend_outcome acc a))
           else (SRV_SUCCESS, Some (pend_outcome acc
             (a\<lparr>a_status := STATUS_CN, a_ip := ip, a_port := ucast p\<rparr>)))))"

lemma connect_user_outcome:
  assumes rep: "db_rep w db" "client w sock" "valid_user u" "db u = Some a" and g: "garbage_ok g"
    and rq: "cstr (rq_username rq) = u" "cstr (rq_client_port rq) = show_u p"
  shows "\<exists>a' w'. connect_user g sock rq w = (fst (connect_outcome g (w_accepts w) (w_peer_ip w sock) p (db u)), w') \<and>
    effects {} w w' \<and> db_rep w' (db(u \<mapsto> a')) \<and>
    snd (connect_outcome g (w_accepts w) (w_peer_ip w sock) p (db u)) = Some (pend_outcome (w_accepts w) a')"
proof (cases "a_status a = STATUS_CN")
  case True
  have "db(u \<mapsto> a) = db" using rep(4) by (simp add: fun_upd_idem)
  then show ?thesis
    using connect_user_again [OF rep(1,3,4) rq(1) g True, of sock] rep True
    by (intro exI [of _ a]) (simp add: connect_outcome_def)
next
  case False
  let ?a = "if g_code g ''connect.reply'' = SRV_ERR_CN_ANY then a
    else a\<lparr>a_status := STATUS_CN, a_ip := w_peer_ip w sock, a_port := ucast p\<rparr>"
  let ?code = "if g_code g ''connect.reply'' = SRV_ERR_CN_ANY then SRV_ERR_CN_ANY else SRV_SUCCESS"
  have same: "(if g_code g ''connect.reply'' = SRV_ERR_CN_ANY then db
      else db(u \<mapsto> a\<lparr>a_status := STATUS_CN, a_ip := w_peer_ip w sock, a_port := ucast p\<rparr>)) = db(u \<mapsto> ?a)"
    using rep(4) by (simp add: fun_upd_idem)
  obtain w' where w': "connect_user g sock rq w = (?code, w') \<and> effects {} w w' \<and> db_rep w' (db(u \<mapsto> ?a))"
    using connect_user_known [OF rep(1,3,4) rq(1) g False rq(2), of sock] unfolding same by blast
  have code: "fst (connect_outcome g (w_accepts w) (w_peer_ip w sock) p (db u)) = ?code"
    using rep(4) False by (simp add: connect_outcome_def)
  have "snd (connect_outcome g (w_accepts w) (w_peer_ip w sock) p (db u)) = Some (pend_outcome (w_accepts w) ?a)"
    using rep(4) False by (simp add: connect_outcome_def)
  then show ?thesis
    unfolding code using w' by (intro exI [of _ ?a] exI [of _ w']) blast
qed

lemma connect_service_outcome:
  assumes rep: "db_rep w db" and sock: "client w sock" and rq: "request_ok rq" and g: "garbage_ok g"
    and u: "valid_user u" "wire_ok u" and input: "w_in w sock = u @ NUL # show_u p @ NUL # rest"
  shows "\<exists>rq' w'. srv_connect g sock rq w = Some (rq', w') \<and>
    served sock w w' rest (reply_byte (fst (connect_outcome g (w_accepts w) (w_peer_ip w sock) p (db u)))) \<and>
    db_rep w' (db(u := snd (connect_outcome g (w_accepts w) (w_peer_ip w sock) p (db u))))"
proof (cases "db u")
  case None
  have "db(u := None) = db" using None by (simp add: fun_upd_idem)
  then show ?thesis
    using connect_service_unknown [OF rep sock rq g u wire_show_u input None] None
    by (simp add: connect_outcome_def)
next
  case (Some a)
  let ?b1 = "strcpy_buf u (rq_username rq)" and ?b2 = "strcpy_buf (show_u p) (rq_client_port rq)"
  obtain w1 w2 where r: "recv_string sock (rq_username rq) w = ((0, ?b1), w1)"
      "recv_string sock (rq_client_port rq) w1 = ((0, ?b2), w2)" "served sock w w2 rest []"
      "db_rep w2 db" "client w2 sock"
    using receive_two [OF rep sock _ _ u(2) wire_show_u input, of "rq_username rq" "rq_client_port rq"] rq
    by (auto simp: request_ok_def)
  let ?rq = "rq\<lparr>rq_username := ?b1, rq_client_port := ?b2\<rparr>"
  have cs: "cstr (rq_username ?rq) = u" "cstr (rq_client_port ?rq) = show_u p" "cstr ?b1 = u"
    using valid_user_nul [OF u(1)] wire_show_u [of p] by (simp_all add: wire_ok_def)
  let ?code = "fst (connect_outcome g (w_accepts w) (w_peer_ip w sock) p (db u))"
  obtain a' w3 where w3: "connect_user g sock ?rq w2 = (?code, w3)" "effects {} w2 w3" "db_rep w3 (db(u \<mapsto> a'))"
      "snd (connect_outcome g (w_accepts w) (w_peer_ip w sock) p (db u)) = Some (pend_outcome (w_accepts w) a')"
    using connect_user_outcome [OF r(4,5) u(1) Some g cs(1,2)] unfolding served_fields [OF r(3)] by blast
  obtain w4 pm where w4: "served sock w w4 rest (reply_byte ?code)" "db_rep w4 (db(u \<mapsto> a'))" "client w4 sock"
      "e_username pm = u" "e_type pm = ENT_TYPE_P_MSG" "entry_ok pm"
      "srv_connect g sock rq w = (case aux_connect_send_pend_msgs g pm w4 of
         None \<Rightarrow> None | Some (_, w5) \<Rightarrow> Some (?rq, w5))"
    using connect_frame [OF r(1-3,5) cs(3) w3(1-3) g u(1)] by blast
  obtain res w5 where w5: "aux_connect_send_pend_msgs g pm w4 = Some (res, w5)" "effects {} w4 w5"
      "db_rep w5 ((db(u \<mapsto> a'))(u \<mapsto> pend_outcome (w_accepts w) a'))"
    using send_pend_msgs_outcome [OF w4(2) u(1) _ w4(4-6) g, of a'] served_fields(1) [OF w4(1)] by auto
  show ?thesis
    using w4(7) w5(1,3) served_later [OF w4(1,3) w5(2)] w3(4) by simp
qed

subsection \<open>Commands\<close>

datatype command = Register string | Unregister string | Connect string u32 | Disconnect string
  | Send string string string

primrec command_bytes :: "command \<Rightarrow> bytes" where
  "command_bytes (Register u) = REGISTER @ NUL # u @ [NUL]"
| "command_bytes (Unregister u) = UNREGISTER @ NUL # u @ [NUL]"
| "command_bytes (Connect u p) = CONNECT @ NUL # u @ NUL # show_u p @ [NUL]"
| "command_bytes (Disconnect u) = DISCONNECT @ NUL # u @ [NUL]"
| "command_bytes (Send s u m) = SEND @ NUL # s @ NUL # u @ NUL # m @ [NUL]"

definition name_ok :: "string \<Rightarrow> bool" where
  "name_ok u \<longleftrightarrow> valid_user u \<and> wire_ok u"

primrec command_ok :: "command \<Rightarrow> bool" where
  "command_ok (Register u) = name_ok u"
| "command_ok (Unregister u) = name_ok u"
| "command_ok (Connect u p) = name_ok u"
| "command_ok (Disconnect u) = name_ok u"
| "command_ok (Send s u m) = (name_ok s \<and> name_ok u \<and> wire_ok m)"

definition disconnect_outcome :: "account option \<Rightarrow> u8 \<times> account option" where
  "disconnect_outcome x = (case x of
      None \<Rightarrow> (SRV_ERR_DCN_USR_NOT_EXISTS, None)
    | Some a \<Rightarrow> (if a_status a = STATUS_DCN then (SRV_ERR_DCN_USR_NOT_CN, Some a)
        else (SRV_SUCCESS, Some (a\<lparr>a_status := STATUS_DCN, a_ip := 0, a_port := 0\<rparr>))))"

primrec chat_spec ::
  "garbage \<Rightarrow> (u32 \<Rightarrow> u16 \<Rightarrow> bool) \<Rightarrow> u32 \<Rightarrow> command \<Rightarrow> db \<Rightarrow> bytes \<times> db"
where
  "chat_spec g acc ip (Register u) db =
     (if db u = None then (reply_byte SRV_SUCCESS, db(u \<mapsto> new_account g))
      else (reply_byte SRV_ERR_REG_USR_ALREADY_REG, db))"
| "chat_spec g acc ip (Unregister u) db =
     (if db u = None then (reply_byte SRV_ERR_UNREG_USR_NOT_EXISTS, db)
      else (reply_byte SRV_SUCCESS, db(u := None)))"
| "chat_spec g acc ip (Connect u p) db =
     (case connect_outcome g acc ip p (db u) of (code, x) \<Rightarrow> (reply_byte code, db(u := x)))"
| "chat_spec g acc ip (Disconnect u) db =
     (case disconnect_outcome (db u) of (code, x) \<Rightarrow> (reply_byte code, db(u := x)))"
| "chat_spec g acc ip (Send s u m) db =
     (case (db s, db u) of
        (Some _, Some a) \<Rightarrow>
          (case send_outcome g acc s m a of (code, a') \<Rightarrow>
             (reply_byte code @ (if code = SRV_SUCCESS then show_u (next_msg_id (a_last a)) @ [NUL] else []),
              db(u \<mapsto> a')))
      | _ \<Rightarrow> (reply_byte SRV_ERR_SEND_USR_NOT_EXISTS, db))"

text \<open>A command on the wire: its operation code and its arguments; the service it is for.\<close>

primrec op_of :: "command \<Rightarrow> string" where
  "op_of (Register u) = REGISTER"
| "op_of (Unregister u) = UNREGISTER"
| "op_of (Connect u p) = CONNECT"
| "op_of (Disconnect u) = DISCONNECT"
| "op_of (Send s u m) = SEND"

primrec args_of :: "command \<Rightarrow> bytes" where
  "args_of (Register u) = u @ [NUL]"
| "args_of (Unregister u) = u @ [NUL]"
| "args_of (Connect u p) = u @ NUL # show_u p @ [NUL]"
| "args_of (Disconnect u) = u @ [NUL]"
| "args_of (Send s u m) = s @ NUL # u @ NUL # m @ [NUL]"

primrec service_of :: "command \<Rightarrow> garbage \<Rightarrow> fd \<Rightarrow> request_t \<Rightarrow> world \<Rightarrow> (request_t \<times> world) option" where
  "service_of (Register u) g sock rq w = Some (srv_register g sock rq w)"
| "service_of (Unregister u) g sock rq w = Some (srv_unregister g sock rq w)"
| "service_of (Connect u p) g sock rq w = srv_connect g sock rq w"
| "service_of (Disconnect u) g sock rq w = Some (srv_disconnect g sock rq w)"
| "service_of (Send s u m) g sock rq w = Some (srv_send g sock rq w)"

lemma op_of_facts: "command_bytes c = op_of c @ NUL # args_of c" "wire_ok (op_of c)"
  by (cases c; simp add: wire_ok_def MAX_MSG_SIZE_def REGISTER_def UNREGISTER_def CONNECT_def DISCONNECT_def SEND_def)+

lemma dispatch:
  assumes "recv_string sock (rq_op_code rq) w = ((0, buf), w1)" "cstr buf = op_of c"
  shows "service_request g sock rq w = service_of c g sock (rq\<lparr>rq_op_code := buf\<rparr>) w1"
proof -
  have ops: "UNREGISTER \<noteq> REGISTER" "CONNECT \<noteq> REGISTER" "CONNECT \<noteq> UNREGISTER"
      "DISCONNECT \<noteq> REGISTER" "DISCONNECT \<noteq> UNREGISTER" "DISCONNECT \<noteq> CONNECT"
      "SEND \<noteq> REGISTER" "SEND \<noteq> UNREGISTER" "SEND \<noteq> CONNECT" "SEND \<noteq> DISCONNECT"
    by (simp_all add: REGISTER_def UNREGISTER_def CONNECT_def DISCONNECT_def SEND_def)
  show ?thesis using assms ops by (cases c) (simp_all add: service_request_def Let_def)
qed

lemma send_outcome:
  assumes rep: "db_rep w db" "client w sock" and rq: "request_ok rq" and g: "garbage_ok g"
    and names: "valid_user s" "valid_user u" "wire_ok s" "wire_ok u" "wire_ok m"
    and inp: "w_in w sock = s @ NUL # u @ NUL # m @ [NUL]"
  shows "\<exists>rq' w'. srv_send g sock rq w = (rq', w') \<and>
    served sock w w' [] (fst (chat_spec g (w_accepts w) (w_peer_ip w sock) (Send s u m) db)) \<and>
    db_rep w' (snd (chat_spec g (w_accepts w) (w_peer_ip w sock) (Send s u m) db))"
proof (cases "db s = None \<or> db u = None")
  case True
  then have "chat_spec g (w_accepts w) (w_peer_ip w sock) (Send s u m) db = (reply_byte SRV_ERR_SEND_USR_NOT_EXISTS, db)"
    by (auto split: option.splits)
  then show ?thesis
    using send_service_unknown [OF rep rq names(1,2) True names(3-5) inp, of g] by auto
next
  case False
  then obtain a b where ab: "db u = Some a" "db s = Some b" by auto
  then show ?thesis
    using send_service [OF rep rq g names(2) ab(1) names(1) ab(2) names(3-5) inp] by (auto split: prod.splits)
qed

lemma service_outcome:
  assumes rep: "db_rep w db" "client w sock" and rq: "request_ok rq" and g: "garbage_ok g"
    and ok: "command_ok c" and inp: "w_in w sock = args_of c"
  shows "\<exists>rq' w'. service_of c g sock rq w = Some (rq', w') \<and>
    served sock w w' [] (fst (chat_spec g (w_accepts w) (w_peer_ip w sock) c db)) \<and>
    db_rep w' (snd (chat_spec g (w_accepts w) (w_peer_ip w sock) c db))"
proof (cases c)
  case (Register u)
  then have "valid_user u" "wire_ok u" "w_in w sock = u @ NUL # []" using ok inp by (simp_all add: name_ok_def)
  note outcome = register_new [OF rep rq g this] register_taken [OF rep rq g this]
  show ?thesis using outcome Register by (cases "db u") auto
next
  case (Unregister u)
  then have "valid_user u" "wire_ok u" "w_in w sock = u @ NUL # []" using ok inp by (simp_all add: name_ok_def)
  note outcome = unregister_known [OF rep rq this, of g] unregister_unknown [OF rep rq this, of g]
  show ?thesis using outcome Unregister by (cases "db u") auto
next
  case (Connect u p)
  then have "valid_user u" "wire_ok u" "w_in w sock = u @ NUL # show_u p @ NUL # []"
    using ok inp by (simp_all add: name_ok_def)
  note outcome = connect_service_outcome [OF rep rq g this]
  show ?thesis using outcome Connect by (auto split: prod.splits)
next
  case (Disconnect u)
  then have "valid_user u" "wire_ok u" "w_in w sock = u @ NUL # []" using ok inp by (simp_all add: name_ok_def)
  note outcome = disconnect_service [OF rep rq g this]
  have same: "db u = x \<Longrightarrow> db(u := x) = db" for x by auto
  show ?thesis
    using outcome Disconnect by (cases "db u") (auto simp: disconnect_outcome_def same split: if_splits)
next
  case (Send s u m)
  then have "valid_user s" "valid_user u" "wire_ok s" "wire_ok u" "wire_ok m" "w_in w sock = s @ NUL # u @ NUL # m @ [NUL]"
    using ok inp by (simp_all add: name_ok_def)
  note outcome = send_outcome [OF rep rq g this]
  show ?thesis using outcome Send by auto
qed

lemma command_service:
  assumes rep: "db_rep w db" and sock: "client w sock" and rq: "request_ok rq"
    and op: "MAX_MSG_SIZE \<le> length (rq_op_code rq)" and g: "garbage_ok g"
    and ok: "command_ok c" and input: "w_in w sock = command_bytes c"
  shows "\<exists>rq' w'. service_request g sock rq w = Some (rq', w') \<and>
    served sock w w' [] (fst (chat_spec g (w_accepts w) (w_peer_ip w sock) c db)) \<and>
    db_rep w' (snd (chat_spec g (w_accepts w) (w_peer_ip w sock) c db))"
proof -
  note opc = op_of_facts [of c]
  let ?buf = "strcpy_buf (op_of c) (rq_op_code rq)" and ?spec = "chat_spec g (w_accepts w) (w_peer_ip w sock) c db"
  obtain w1 where w1: "recv_string sock (rq_op_code rq) w = ((0, ?buf), w1)"
      "served sock w w1 (args_of c) []" "db_rep w1 db" "client w1 sock"
    using receive [OF rep sock op opc(2)] input opc(1) by auto
  have in1: "w_in w1 sock = args_of c" using w1(2) by (simp add: served_def)
  have rq1: "request_ok (rq\<lparr>rq_op_code := ?buf\<rparr>)" using rq by (simp add: request_ok_def)
  obtain rq' w' where "service_of c g sock (rq\<lparr>rq_op_code := ?buf\<rparr>) w1 = Some (rq', w')"
      "served sock w1 w' [] (fst ?spec)" "db_rep w' (snd ?spec)"
    using service_outcome [OF w1(3,4) rq1 g ok in1] unfolding served_fields [OF w1(2)] by blast
  moreover have "cstr ?buf = op_of c" using opc(2) by (simp add: wire_ok_def)
  ultimately show ?thesis
    using dispatch [OF w1(1)] served_trans [OF w1(2)] by fastforce
qed

subsection \<open>Sessions\<close>

text \<open>
  A job is one connection: the socket, the command its client has sent, and what the stack of
  the thread that serves it holds. The answer is what the service adds to the socket's output.
\<close>

record job =
  j_sock :: fd
  j_command :: command
  j_garbage :: garbage
  j_request :: request_t

definition serve_job :: "job \<Rightarrow> world \<Rightarrow> (bytes \<times> world) option" where
  "serve_job j w = (case service_request (j_garbage j) (j_sock j) (j_request j) w of
      None \<Rightarrow> None
    | Some (_, w') \<Rightarrow> Some (drop (length (w_out w (j_sock j))) (w_out w' (j_sock j)), w'))"

definition spec_job :: "(u32 \<Rightarrow> u16 \<Rightarrow> bool) \<Rightarrow> (fd \<Rightarrow> u32) \<Rightarrow> job \<Rightarrow> db \<Rightarrow> bytes \<times> db" where
  "spec_job acc ip j db = chat_spec (j_garbage j) acc (ip (j_sock j)) (j_command j) db"

definition job_ready :: "job \<Rightarrow> world \<Rightarrow> bool" where
  "job_ready j w \<longleftrightarrow> client w (j_sock j) \<and> w_in w (j_sock j) = command_bytes (j_command j) \<and>
     command_ok (j_command j) \<and> garbage_ok (j_garbage j) \<and> request_ok (j_request j) \<and>
     MAX_MSG_SIZE \<le> length (rq_op_code (j_request j))"

definition jobs_apart :: "job \<Rightarrow> job \<Rightarrow> bool" where
  "jobs_apart j j' \<longleftrightarrow> j_sock j \<noteq> j_sock j'"

definition chat_rep :: "(u32 \<Rightarrow> u16 \<Rightarrow> bool) \<Rightarrow> (fd \<Rightarrow> u32) \<Rightarrow> world \<Rightarrow> db \<Rightarrow> bool" where
  "chat_rep acc ip w db \<longleftrightarrow> db_rep w db \<and> w_accepts w = acc \<and> w_peer_ip w = ip"

lemma job_served:
  assumes "chat_rep acc ip w db" and "job_ready j w"
  shows "\<exists>w'. serve_job j w = Some (fst (spec_job acc ip j db), w') \<and>
    served (j_sock j) w w' [] (fst (spec_job acc ip j db)) \<and> chat_rep acc ip w' (snd (spec_job acc ip j db))"
proof -
  obtain rq' w' where w': "service_request (j_garbage j) (j_sock j) (j_request j) w = Some (rq', w')"
      "served (j_sock j) w w' [] (fst (spec_job acc ip j db))" "db_rep w' (snd (spec_job acc ip j db))"
    using command_service [of w db "j_sock j" "j_request j" "j_garbage j" "j_command j"] assms
    by (auto simp: chat_rep_def job_ready_def spec_job_def)
  have "w_out w' (j_sock j) = w_out w (j_sock j) @ fst (spec_job acc ip j db)"
    using w'(2) by (simp add: served_def)
  then show ?thesis
    using w' served_fields [OF w'(2)] assms(1) by (simp add: serve_job_def chat_rep_def)
qed

lemma job_stays_ready:
  assumes "served sock w w' [] b" and "job_ready j w" and "sock \<noteq> j_sock j"
  shows "job_ready j w'"
proof -
  have e: "effects {sock} w w'"
    using assms(1) by (simp add: served_def)
  have "\<not> new_fd w w' (j_sock j)"
    using assms(2) by (simp add: job_ready_def client_def new_fd_def)
  then show ?thesis
    using assms effects_fields(6) [OF e] effects_fields(7,8) [OF e, of "j_sock j"]
    by (auto simp: job_ready_def client_def)
qed

interpretation chat: simulation "chat_rep acc ip" serve_job "spec_job acc ip" job_ready jobs_apart
  for acc ip
proof
  fix w db j
  assume *: "chat_rep acc ip w db" "job_ready j w"
  then show "\<exists>w'. serve_job j w = Some (fst (spec_job acc ip j db), w') \<and> chat_rep acc ip w' (snd (spec_job acc ip j db))"
    using job_served by blast
  fix r w' j'
  assume "serve_job j w = Some (r, w')" "jobs_apart j j'" "job_ready j' w"
  then show "job_ready j' w'"
    using job_served [OF *] job_stays_ready by (auto simp: jobs_apart_def)
qed

end
