(* ===== verification/Examples.thy ===== *)
theory Examples
  imports Session
begin

section \<open>Concrete worlds\<close>

text \<open>
  A database with users in given states, three clients with given input on the descriptors 3, 4
  and 5, and memory filled with given values: the inputs on which the properties are applied.
\<close>

definition base_world :: "(fd \<Rightarrow> bytes) \<Rightarrow> world" where
  "base_world inp = \<lparr>w_files = [([DB_DIR], DirI)], w_cwd = [], w_order = rev, w_fates = [],
     w_errno = E0, w_fds = (\<lambda>d. if 3 \<le> d \<and> d < 6 then Some SockD else None), w_next = 6,
     w_in = inp, w_out = (\<lambda>_. []), w_dest = (\<lambda>_. None), w_peer_ip = (\<lambda>_. 16777343),
     w_accepts = (\<lambda>ip _. ip \<noteq> 0), w_log = [], w_strtof = (\<lambda>_. (0, 0, E0))\<rparr>"

definition zeros :: "nat \<Rightarrow> bytes" where
  "zeros n = replicate n NUL"

definition example_entry :: "string \<Rightarrow> account \<Rightarrow> entry_t" where
  "example_entry u a = set_e_last_msg_id (a_last a) (set_e_port (a_port a) (set_e_ip (a_ip a)
     (set_e_status (a_status a) (set_e_type ENT_TYPE_UD (set_e_username u (zeros sizeof_entry))))))"

definition example_message :: "string \<Rightarrow> u32 \<Rightarrow> string \<times> string \<Rightarrow> entry_t" where
  "example_message u n m = set_e_msg_id n (set_e_msg_content (snd m) (set_e_msg_sender (fst m)
     (set_e_type ENT_TYPE_P_MSG (set_e_username u (zeros sizeof_entry)))))"

definition add_user :: "string \<Rightarrow> account \<Rightarrow> world \<Rightarrow> world" where
  "add_user u a w =
     (let t = w_cwd w @ [DB_DIR, u @ ''-table'']
      in w\<lparr>w_files := set_node (t @ [PEND_MSGS_TABLE]) DirI
             (set_node (t @ [USERDATA_ENTRY]) (FileI (example_entry u a)) (set_node t DirI (w_files w)))\<rparr>)"

definition add_message :: "string \<Rightarrow> u32 \<Rightarrow> string \<times> string \<Rightarrow> world \<Rightarrow> world" where
  "add_message u n m w = w\<lparr>w_files := set_node (w_cwd w @ [DB_DIR, u @ ''-table'', PEND_MSGS_TABLE, show_u n])
     (FileI (example_message u n m)) (w_files w)\<rparr>"

lemma zeros_entry [simp]: "entry_ok (zeros sizeof_entry)" "length (zeros n) = n"
  by (simp_all add: zeros_def entry_ok_def)

lemma example_entry_account:
  "valid_user u \<Longrightarrow> user_entry u (example_entry u a) a"
  by (simp add: user_entry_iff example_entry_def cmem)

lemma example_message_entry:
  "valid_user u \<Longrightarrow> valid_user (fst m) \<Longrightarrow> fits_array 256 (snd m) \<Longrightarrow> msg_entry u n m (example_message u n m)"
  by (simp add: msg_entry_def example_message_def cmem)

lemma base_world_ok: "db_rep (base_world inp) Map.empty"
proof -
  have "files_ok [([DB_DIR], DirI)]"
    by (simp add: files_ok_def look_def)
  then show ?thesis
    by (simp add: db_rep_def world_ok_def base_world_def order_ok_rev fresh_fds_def look_def table_def)
qed

lemma db_rep_add_user:
  assumes rep: "db_rep w db" and u: "valid_user u" and new: "db u = None" and a: "a_pend a = Map.empty"
  shows "db_rep (add_user u a w) (db(u \<mapsto> a))"
proof -
  have wo: "world_ok w" and none: "table w u [] = None"
    using db_rep_user [OF rep u] new by auto
  have below: "table w u r = None" for r
    using files_ok_below_none [of "w_files w" "w_cwd w @ [DB_DIR, u @ ''-table'']" r] wo none
    by (simp add: table_def world_ok_def)
  let ?t = "w_cwd w @ [DB_DIR, u @ ''-table'']"
  let ?e = "FileI (example_entry u a)"
  define w1 where "w1 = w\<lparr>w_files := set_node ?t DirI (w_files w)\<rparr>"
  define w2 where "w2 = w1\<lparr>w_files := set_node (?t @ [USERDATA_ENTRY]) ?e (w_files w1)\<rparr>"
  define w3 where "w3 = w2\<lparr>w_files := set_node (?t @ [PEND_MSGS_TABLE]) DirI (w_files w2)\<rparr>"
  have c: "w_cwd w1 = w_cwd w" "w_cwd w2 = w_cwd w"
    by (simp_all add: w1_def w2_def)
  have t1: "table w1 v s = (if v = u \<and> s = [] then Some DirI else table w v s)" for v s
    using table_set_node [of w u "[]" DirI v s] by (simp add: w1_def)
  have t2: "table w2 v s = (if v = u \<and> s = [USERDATA_ENTRY] then Some ?e else table w1 v s)" for v s
    using table_set_node [of w1 u "[USERDATA_ENTRY]" ?e v s] by (simp add: w2_def c)
  have t3: "table w3 v s = (if v = u \<and> s = [PEND_MSGS_TABLE] then Some DirI else table w2 v s)" for v s
    using table_set_node [of w2 u "[PEND_MSGS_TABLE]" DirI v s] by (simp add: w3_def c)
  have ne: "PEND_MSGS_TABLE \<noteq> USERDATA_ENTRY"
    by (simp add: PEND_MSGS_TABLE_def USERDATA_ENTRY_def)
  have wo1: "world_ok w1"
    using world_ok_set_node [OF wo world_ok_dirs(2) [OF wo] plain_table [OF u], of DirI]
    by (simp add: w1_def)
  have "look (w_files w1) ?t = Some DirI" "look (w_files w1) (?t @ [USERDATA_ENTRY]) = None"
    using t1 [of u "[]"] t1 [of u "[USERDATA_ENTRY]"] below by (simp_all add: table_def c)
  then have wo2: "world_ok w2"
    using world_ok_set_node [OF wo1 _ plain_consts(2), of ?t ?e] by (simp add: w2_def)
  have "look (w_files w2) ?t = Some DirI"
    using t2 [of u "[]"] t1 [of u "[]"] by (simp add: table_def c)
  then have wo3: "world_ok w3"
    using world_ok_set_node [OF wo2 _ plain_consts(3), of ?t DirI] by (simp add: w3_def)
  have "account_files u (table w3 u) a"
    using below ne example_entry_account [OF u, of a] a
    by (auto simp: account_files_def t3 t2 t1 pend_files_def)
  then have "db_rep w3 (db(u \<mapsto> a))"
    by (intro db_rep_change [OF rep u wo3]) (auto simp: t3 t2 t1)
  moreover have "w3 = add_user u a w"
    by (simp add: add_user_def w3_def w2_def w1_def Let_def)
  ultimately show ?thesis by simp
qed

lemma db_rep_add_message:
  assumes rep: "db_rep w db" and u: "valid_user u" and a: "db u = Some a" and new: "a_pend a n = None"
    and m: "valid_user (fst m)" "fits_array 256 (snd m)"
  shows "db_rep (add_message u n m w) (db(u \<mapsto> a\<lparr>a_pend := (a_pend a)(n \<mapsto> m)\<rparr>))"
proof -
  let ?e = "example_message u n m"
  have e: "msg_entry u n m ?e"
    by (rule example_message_entry [OF u m])
  obtain w' where w': "db_io_op_usr_ent ?e CREATE w = ((DBMS_SUCCESS, ?e), w')"
      "db_rep w' (db(u \<mapsto> a\<lparr>a_pend := (a_pend a)(n \<mapsto> m)\<rparr>))" "db_only w w'"
    using store_message_refines [OF rep u a e new] by blast
  let ?q = "w_cwd w @ [DB_DIR, u @ ''-table'', PEND_MSGS_TABLE, show_u n]"
  have "db_io_op_usr_ent ?e CREATE w = ((DBMS_SUCCESS, ?e),
      w\<lparr>w_files := set_node ?q (FileI ?e) (w_files w), w_next := Suc (w_next w)\<rparr>)"
    using message_file(1,2) [OF rep u a, of n] new e rep
    by (intro db_create_entry) (auto simp: msg_entry_def entry_type_ok_def message_path db_rep_def world_ok_def)
  then have files: "w_files w' = w_files (add_message u n m w)"
    using w'(1) by (simp add: add_message_def)
  have "calm w" "fresh_fds w"
    using rep by (simp_all add: db_rep_def world_ok_def)
  then show ?thesis
    using db_rep_cong [OF w'(2), of "add_message u n m w"] files db_only_fields [OF w'(3)]
    by (simp add: add_message_def)
qed

lemma add_fields [simp]:
  "w_in (add_user u a w) = w_in w" "w_fds (add_user u a w) = w_fds w" "w_next (add_user u a w) = w_next w"
  "w_out (add_user u a w) = w_out w" "w_accepts (add_user u a w) = w_accepts w"
  "w_peer_ip (add_user u a w) = w_peer_ip w"
  "w_in (add_message u n m w) = w_in w" "w_fds (add_message u n m w) = w_fds w"
  "w_next (add_message u n m w) = w_next w" "w_out (add_message u n m w) = w_out w"
  "w_accepts (add_message u n m w) = w_accepts w" "w_peer_ip (add_message u n m w) = w_peer_ip w"
  by (simp_all add: add_user_def add_message_def Let_def)

lemma base_fields [simp]:
  "w_in (base_world inp) = inp" "w_next (base_world inp) = 6" "w_out (base_world inp) d = []"
  "w_fds (base_world inp) d = (if 3 \<le> d \<and> d < 6 then Some SockD else None)"
  "w_accepts (base_world inp) ip p = (ip \<noteq> 0)" "w_peer_ip (base_world inp) d = 16777343"
  by (simp_all add: base_world_def)

definition example_request :: request_t where
  "example_request = \<lparr>rq_op_code = zeros MAX_STR_SIZE, rq_username = zeros MAX_STR_SIZE,
     rq_client_port = zeros MAX_STR_SIZE, rq_message_id = 0, rq_message_content = zeros MAX_MSG_SIZE\<rparr>"

definition example_garbage :: "u8 \<Rightarrow> garbage" where
  "example_garbage code = \<lparr>g_code = (\<lambda>_. code), g_entry = (\<lambda>_. zeros sizeof_entry),
     g_request = (\<lambda>_. example_request)\<rparr>"

lemma example_request_ok [simp]: "request_ok example_request" "MAX_MSG_SIZE \<le> length (rq_op_code example_request)"
  by (simp_all add: request_ok_def example_request_def MAX_MSG_SIZE_def MAX_STR_SIZE_def)

lemma example_garbage_ok [simp]: "garbage_ok (example_garbage code)"
  by (simp add: garbage_ok_def example_garbage_def)

text \<open>\<open>ann\<close> is connected, \<open>bob\<close> is not; a message from \<open>ann\<close> may wait for \<open>bob\<close>.\<close>

definition ann_account :: account where
  "ann_account = \<lparr>a_status = STATUS_CN, a_ip = 16777343, a_port = 7000, a_last = 4, a_pend = Map.empty\<rparr>"

definition bob_account :: account where
  "bob_account = \<lparr>a_status = STATUS_DCN, a_ip = 0, a_port = 0, a_last = 9, a_pend = Map.empty\<rparr>"

definition example_db :: db where
  "example_db = [''ann'' \<mapsto> ann_account, ''bob'' \<mapsto> bob_account]"

definition example_world :: "(fd \<Rightarrow> bytes) \<Rightarrow> world" where
  "example_world inp = add_user ''bob'' bob_account (add_user ''ann'' ann_account (base_world inp))"

definition waiting_db :: db where
  "waiting_db = example_db(''bob'' \<mapsto> bob_account\<lparr>a_pend := [9 \<mapsto> (''ann'', ''hi'')]\<rparr>)"

definition waiting_world :: "(fd \<Rightarrow> bytes) \<Rightarrow> world" where
  "waiting_world inp = add_message ''bob'' 9 (''ann'', ''hi'') (example_world inp)"

lemma example_users [simp]: "valid_user ''ann''" "valid_user ''bob''" "valid_user ''eve''"
  by (simp_all add: valid_user_def)

lemma example_wires [simp]: "wire_ok ''ann''" "wire_ok ''bob''" "wire_ok ''eve''" "wire_ok ''hi''"
  by (simp_all add: wire_ok_def MAX_MSG_SIZE_def)

lemma example_rep: "db_rep (example_world inp) example_db"
proof -
  have "db_rep (add_user ''ann'' ann_account (base_world inp)) [''ann'' \<mapsto> ann_account]"
    by (rule db_rep_add_user [OF base_world_ok]) (simp_all add: ann_account_def)
  then show ?thesis
    unfolding example_world_def example_db_def
    by (rule db_rep_add_user) (simp_all add: bob_account_def)
qed

lemma waiting_rep: "db_rep (waiting_world inp) waiting_db"
proof -
  have "db_rep (waiting_world inp)
      (example_db(''bob'' \<mapsto> bob_account\<lparr>a_pend := (a_pend bob_account)(9 \<mapsto> (''ann'', ''hi''))\<rparr>))"
    unfolding waiting_world_def
    by (rule db_rep_add_message [OF example_rep]) (simp_all add: example_db_def bob_account_def fits_array_def)
  then show ?thesis
    by (simp add: waiting_db_def bob_account_def)
qed

lemma example_world_fields [simp]:
  "w_in (example_world inp) = inp" "w_in (waiting_world inp) = inp"
  "client (example_world inp) 3" "client (example_world inp) 4" "client (example_world inp) 5"
  "client (waiting_world inp) 3" "client (waiting_world inp) 4"
  "w_accepts (example_world inp) ip p = (ip \<noteq> 0)" "w_accepts (waiting_world inp) ip p = (ip \<noteq> 0)"
  "w_peer_ip (example_world inp) d = 16777343" "w_peer_ip (waiting_world inp) d = 16777343"
  by (simp_all add: example_world_def waiting_world_def client_def)

lemma reply_bytes:
  "reply_byte 0 = [NUL]" "reply_byte 1 = [CHR 0x01]" "reply_byte 2 = [CHR 0x02]" "reply_byte 3 = [CHR 0x03]"
  by (simp_all add: reply_byte_def char_of_def bit_0)

end
