(* ===== verification/WireProps.thy ===== *)
theory WireProps
  imports Examples
begin

section \<open>Properties of the transfers: util.c, netUtil.c\<close>

text \<open>
  What the socket routines promise the services, in worlds where reads and writes are cut short
  and interrupted at any point: lines are read whole and never past the space given, buffers are
  written whole or the socket is given up, strings and numbers survive the wire.
\<close>

subsection \<open>Reading a line\<close>

text \<open>However a call ends, it has written only inside the space it was given.\<close>

lemma read_line_loop_inside:
  assumes "read_line_loop d sp buf cnt w = ((r, b), w')" "int cnt < sp"
  shows "length b = length buf \<and> drop (nat sp) b = drop (nat sp) buf \<and> r < sp"
  using assms
proof (induction d sp buf cnt w arbitrary: r b w' rule: read_line_loop.induct)
  case (1 d sp buf cnt w)
  obtain n data w1 where rd: "sys_read d 1 w = ((n, data), w1)"
    by (metis surj_pair)
  have keep: "drop (nat sp) (buf[cnt := c]) = drop (nat sp) buf" for c
    using 1(5) by (intro drop_update_cancel) linarith
  show ?case
  proof (cases "n = -1")
    case True
    show ?thesis
    proof (cases "w_errno w1 = EINTR")
      case again: True
      have "read_line_loop d sp buf cnt w1 = ((r, b), w')"
        using 1(4) by (subst (asm) read_line_loop.simps) (simp del: One_nat_def add: rd True again)
      then show ?thesis
        using 1(1) [OF rd [symmetric] refl True again] 1(5) by blast
    next
      case False
      then show ?thesis
        using 1(4,5) by (subst (asm) read_line_loop.simps) (auto simp del: One_nat_def simp: rd True)
    qed
  next
    case False
    show ?thesis
    proof (cases data)
      case Nil
      then show ?thesis
        using 1(4,5) False keep by (subst (asm) read_line_loop.simps) (auto simp del: One_nat_def simp: rd split: if_splits)
    next
      case (Cons ch cs)
      consider (ended) "ch = LF \<or> ch = NUL" | (store) "\<not> (ch = LF \<or> ch = NUL)" "int cnt < sp - 1"
        | (skip) "\<not> (ch = LF \<or> ch = NUL)" "\<not> int cnt < sp - 1"
        by blast
      then show ?thesis
      proof cases
        case ended
        then show ?thesis
          using 1(4,5) False keep by (subst (asm) read_line_loop.simps) (auto simp del: One_nat_def simp: rd Cons)
      next
        case store
        have "read_line_loop d sp (buf[cnt := ch]) (Suc cnt) w1 = ((r, b), w')"
          using 1(4) store False by (subst (asm) read_line_loop.simps) (simp del: One_nat_def add: rd Cons)
        then show ?thesis
          using 1(2) [OF rd [symmetric] refl False Cons store] store(2) keep by simp
      next
        case skip
        have "read_line_loop d sp buf cnt w1 = ((r, b), w')"
          using 1(4) skip False by (subst (asm) read_line_loop.simps) (simp del: One_nat_def add: rd Cons)
        then show ?thesis
          using 1(3) [OF rd [symmetric] refl False Cons skip] 1(5) by simp
      qed
    qed
  qed
qed


text \<open>C25: whatever the descriptor is and whatever faults occur, \<open>read_line\<close> leaves everything past
  the given space as it was, keeps the size of the array, and returns fewer bytes than the space.\<close>

theorem read_line_inside:
  assumes "read_line d buf sp w = ((r, b), w')"
  shows "length b = length buf \<and> drop (nat sp) b = drop (nat sp) buf \<and> r < max 1 sp"
proof (cases "sp \<le> 0")
  case True
  then show ?thesis using assms by (auto simp: read_line_def)
next
  case False
  then show ?thesis
    using assms read_line_loop_inside [of d sp buf 0 "clear_errno w" r b w'] by (auto simp: read_line_def)
qed

lemma read_line_inside_witness:
  "let ((r, b), w') = read_line 9 ''xyz'' 2 (base_world (\<lambda>_. []))
   in length b = 3 \<and> drop 2 b = ''z'' \<and> r < 2"
proof -
  obtain r b w' where "read_line 9 ''xyz'' 2 (base_world (\<lambda>_. [])) = ((r, b), w')"
    by (metis surj_pair)
  then show ?thesis
    using read_line_inside [of 9 "''xyz''" 2 "base_world (\<lambda>_. [])" r b w'] by simp
qed

text \<open>C24: on a socket whose reads may be interrupted, \<open>read_line\<close> stores exactly the bytes before the
  first newline or NUL, cut to the space less one, as a C string, and consumes the whole line.\<close>

theorem read_line_socket:
  assumes "w_fds w d = Some SockD" "set (w_fates w) \<subseteq> soft" "w_in w d \<noteq> []"
    and "2 \<le> sp" "sp \<le> int (length buf)"
  shows "\<exists>k b w'. read_line d buf sp w = ((int k, b), w') \<and> k = min (length (line_part (w_in w d))) (nat (sp - 1)) \<and>
    cstr b = take k (line_part (w_in w d)) \<and> drop (Suc k) b = drop (Suc k) buf \<and>
    w_in w' d = line_rest (w_in w d)"
proof -
  let ?l = "line_part (w_in w d)"
  obtain w1 where w1: "read_line d buf sp w =
      (line_result (w_in w d) sp buf 0, w1\<lparr>w_in := (w_in w)(d := line_rest (w_in w d))\<rparr>)"
    using read_line_loop_socket [of "clear_errno w" d 0 sp buf] assms
    by (auto simp: read_line_def clear_errno_def)
  have nul: "NUL \<notin> set (take k ?l)" for k
    by (auto simp: line_part_def dest: set_takeWhileD in_set_takeD)
  show ?thesis
    using assms(3) by (auto simp: w1 line_result_def Let_def put_at_def cstr_terminated nul)
qed

lemma read_line_socket_witness:
  "\<exists>b w'. read_line 3 ''vwxyz'' 3 ((base_world (\<lambda>_. ''hello'' @ LF # ''next''))
      \<lparr>w_fates := [Fail EINTR, Limit 0]\<rparr>) = ((2, b), w') \<and> cstr b = ''he'' \<and> w_in w' 3 = ''next''"
  using read_line_socket [of "(base_world (\<lambda>_. ''hello'' @ LF # ''next''))\<lparr>w_fates := [Fail EINTR, Limit 0]\<rparr>"
      3 3 "''vwxyz''"]
  by (auto simp: base_world_def soft_def line_part_def line_rest_def)

subsection \<open>Writing\<close>

text \<open>C26: \<open>write_bytes\<close> on a socket sends the whole buffer however the writes are cut, and when a
  write fails it returns an error after a prefix of the buffer.\<close>

theorem write_bytes_whole_or_prefix:
  assumes "w_fds w d = Some SockD" "buf \<noteq> []"
  shows "\<exists>w' k. k \<le> length buf \<and> w_out w' d = w_out w d @ take k buf \<and>
    (write_bytes d buf w = (int (length buf), w') \<and> k = length buf \<or>
     write_bytes d buf w = (-1, w') \<and> (\<exists>e. Fail e \<in> set (w_fates w)))"
  using write_loop_socket [OF assms(1), of buf 0] assms(2)
  by (fastforce simp: write_bytes_def)

lemma write_bytes_whole_or_prefix_witness:
  "\<exists>w' k. k \<le> length ''hello'' \<and> w_out w' 3 = take k ''hello'' \<and>
    (write_bytes 3 ''hello'' ((base_world (\<lambda>_. []))\<lparr>w_fates := [Limit 2, Fail EIO]\<rparr>) = (int (length ''hello''), w') \<and> k = length ''hello'' \<or>
     write_bytes 3 ''hello'' ((base_world (\<lambda>_. []))\<lparr>w_fates := [Limit 2, Fail EIO]\<rparr>) = (-1, w'))"
  using write_bytes_whole_or_prefix [of "(base_world (\<lambda>_. []))\<lparr>w_fates := [Limit 2, Fail EIO]\<rparr>" 3 "''hello''"]
  by (simp add: base_world_def)


subsection \<open>Round trips\<close>

text \<open>C27: a string written by \<open>send_string\<close> on one socket is the string \<open>recv_string\<close> reads from a
  socket where these bytes arrive, and what follows it is left for the next read.\<close>

theorem send_recv_roundtrip:
  assumes "calm w" "w_fds w d = Some SockD" "wire_ok s"
    and "set (w_fates v) \<subseteq> soft" "w_fds v c = Some SockD" "MAX_MSG_SIZE \<le> length buf"
    and sent: "w_in v c = drop (length (w_out w d)) (w_out (snd (send_string d s w)) d) @ rest"
  shows "\<exists>b v'. recv_string c buf v = ((0, b), v') \<and> cstr b = s \<and> w_in v' c = rest"
proof -
  have inp: "w_in v c = s @ NUL # rest"
    using sent by (simp add: send_string_calm [OF assms(1,2)])
  have "NUL \<notin> set s" using assms(3) by (simp add: wire_ok_def)
  then show ?thesis
    using recv_string_soft [OF assms(5,4,6)] line_of_string [OF assms(3)] line_result_string [OF assms(3)]
    by (auto simp: inp)
qed

lemma send_recv_roundtrip_witness:
  "\<exists>b v'. recv_string 4 (zeros 256) ((base_world (\<lambda>_. ''hello'' @ NUL # ''bye''))\<lparr>w_fates := [Fail EINTR]\<rparr>) =
    ((0, b), v') \<and> cstr b = ''hello'' \<and> w_in v' 4 = ''bye''"
  using send_recv_roundtrip [of "base_world (\<lambda>_. [])" 3 "''hello''"
      "(base_world (\<lambda>_. ''hello'' @ NUL # ''bye''))\<lparr>w_fates := [Fail EINTR]\<rparr>" 4 "zeros 256" "''bye''"]
  by (simp add: send_string_calm base_world_def wire_ok_def MAX_MSG_SIZE_def soft_def)

text \<open>the decimal form that \<open>printf\<close> gives a 32-bit number is read back as that number by
  \<open>str_to_num\<close>, signed or unsigned, and fits the ten bytes reserved for it.\<close>

lemma number_roundtrip:
  "fst (str_to_num (show_u n) UINT_T w) = (0, Some (UIntNum n)) \<and>
   fst (str_to_num (show_u n) INT_T w) = (0, Some (IntNum n)) \<and>
   length (show_u n) \<le> MSG_ID_MAX_STR_SIZE"
  by (simp add: str_to_num_show_u str_to_num_show_int length_show_u)

end
