(* ===== verification/Processes.thy ===== *)
theory Processes
  imports Prelude
begin

section \<open>Processes, schedules, interference\<close>

text \<open>
  A process is a program cut at its calls: it has finished, or it has one more call to make on the
  shared state and goes on with the result. A schedule says whose turn the next step is. The locale
  \<open>interference\<close> is the rely-guarantee rule: a process whose every step keeps its own assertion and
  makes only changes that the others tolerate can be run among them as if it were alone.
\<close>

datatype ('w, 'a) proc = Ret 'a | Act "'w \<Rightarrow> ('w, 'a) proc \<times> 'w"

primrec run_proc :: "('w, 'a) proc \<Rightarrow> 'w \<Rightarrow> 'a \<times> 'w" where
  "run_proc (Ret a) = (\<lambda>w. (a, w))"
| "run_proc (Act f) = (\<lambda>w. case map_prod run_proc id (f w) of (k, w') \<Rightarrow> k w')"

definition call :: "('w \<Rightarrow> 'a \<times> 'w) \<Rightarrow> ('a \<Rightarrow> ('w, 'b) proc) \<Rightarrow> ('w, 'b) proc" where
  "call f k = Act (\<lambda>w. case f w of (a, w') \<Rightarrow> (k a, w'))"

text \<open>A call whose result is not used.\<close>

definition do_call :: "('w \<Rightarrow> 'w) \<Rightarrow> ('w, 'b) proc \<Rightarrow> ('w, 'b) proc" where
  "do_call f p = call (\<lambda>w. ((), f w)) (\<lambda>_. p)"

lemma run_call [simp]: "run_proc (call f k) w = (case f w of (a, w') \<Rightarrow> run_proc (k a) w')"
  by (simp add: call_def split: prod.splits)

lemma run_do_call [simp]: "run_proc (do_call f p) w = run_proc p (f w)"
  by (simp add: do_call_def)

text \<open>One process after another.\<close>

primrec bind_proc :: "('w, 'a) proc \<Rightarrow> ('a \<Rightarrow> ('w, 'b) proc) \<Rightarrow> ('w, 'b) proc" where
  "bind_proc (Ret a) k = k a"
| "bind_proc (Act f) k = Act (\<lambda>w. map_prod (\<lambda>p. bind_proc p k) id (f w))"

lemma run_bind [simp]: "run_proc (bind_proc p k) w = (case run_proc p w of (a, w') \<Rightarrow> run_proc (k a) w')"
proof (induction p arbitrary: w)
  case (Act f)
  obtain p1 w1 where "f w = (p1, w1)" by fastforce
  then show ?case using Act.IH [of "(p1, w1)" p1 w1] rangeI [of f w] by simp
qed simp

lemma bind_call [simp]: "bind_proc (call f k) h = call f (\<lambda>a. bind_proc (k a) h)"
  by (simp add: call_def fun_eq_iff split: prod.split)

lemma case_call [simp]:
  "case_proc r a (call f k) = a (\<lambda>w. case f w of (x, w') \<Rightarrow> (k x, w'))"
  "case_proc r a (do_call h p) = a (\<lambda>w. (p, h w))"
  by (simp_all add: call_def do_call_def)

fun run_schedule :: "nat list \<Rightarrow> ('w, 'a) proc list \<Rightarrow> 'w \<Rightarrow> ('w, 'a) proc list \<times> 'w" where
  "run_schedule [] ps w = (ps, w)"
| "run_schedule (i # ts) ps w =
     (if i < length ps then
        (case ps ! i of
           Ret _ \<Rightarrow> run_schedule ts ps w
         | Act f \<Rightarrow> (case f w of (p, w') \<Rightarrow> run_schedule ts (ps[i := p]) w'))
      else run_schedule ts ps w)"

lemma schedule_append:
  "run_schedule (ts @ js) ps w = (case run_schedule ts ps w of (ps', w') \<Rightarrow> run_schedule js ps' w')"
  by (induction ts ps w rule: run_schedule.induct) (auto split: proc.split prod.split)

lemma schedule_call:
  "i < length ps \<Longrightarrow> ps ! i = call f k \<Longrightarrow> f w = (a, w') \<Longrightarrow>
    run_schedule (i # ts) ps w = run_schedule ts (ps[i := k a]) w'"
  by simp

lemma schedule_length: "run_schedule ts ps w = (ps', w') \<Longrightarrow> length ps' = length ps"
  by (induction ts ps w rule: run_schedule.induct) (auto split: proc.splits prod.splits if_splits)

subsection \<open>Every process finishes\<close>

text \<open>A process that gets all the turns does what it does alone.\<close>

lemma run_proc_schedule:
  "i < length ps \<Longrightarrow> ps ! i = p \<Longrightarrow> run_proc p w = (r, w') \<Longrightarrow>
    \<exists>k. run_schedule (replicate k i) ps w = (ps[i := Ret r], w')"
proof (induction p arbitrary: ps w)
  case (Ret a)
  then have "w' = w" "ps[i := Ret r] = ps"
    by (simp_all add: list_update_same_conv)
  then show ?case by (intro exI [of _ 0]) simp
next
  case (Act f)
  obtain p1 w1 where f: "f w = (p1, w1)" by (cases "f w")
  have "run_proc p1 w1 = (r, w')" using Act.prems(3) f by simp
  then obtain k where "run_schedule (replicate k i) (ps[i := p1]) w1 = (ps[i := p1, i := Ret r], w')"
    using Act.IH [of "(p1, w1)" p1 "ps[i := p1]" w1] f Act.prems(1) rangeI [of f w] by auto
  then show ?case
    using Act.prems(1,2) f by (intro exI [of _ "Suc k"]) simp
qed

definition finished :: "('w, 'a) proc \<Rightarrow> bool" where
  "finished p = (case p of Ret _ \<Rightarrow> True | Act _ \<Rightarrow> False)"

lemma finished_Ret [simp]: "finished (Ret a)"
  by (simp add: finished_def)

lemma schedule_finishes: "\<exists>ts. \<forall>p \<in> set (fst (run_schedule ts ps w)). finished p"
proof -
  have "\<exists>ts ps' w'. run_schedule ts ps w = (ps', w') \<and> (\<forall>i < n. finished (ps' ! i))" if "n \<le> length ps" for n
    using that
  proof (induction n)
    case 0
    have "run_schedule [] ps w = (ps, w)" by simp
    then show ?case by blast
  next
    case (Suc n)
    then obtain ts ps1 w1 where s: "run_schedule ts ps w = (ps1, w1)" "\<forall>i < n. finished (ps1 ! i)"
      by auto
    obtain r w2 where "run_proc (ps1 ! n) w1 = (r, w2)" by fastforce
    moreover have n: "n < length ps1" using Suc.prems schedule_length [OF s(1)] by simp
    ultimately obtain k where k: "run_schedule (replicate k n) ps1 w1 = (ps1[n := Ret r], w2)"
      using run_proc_schedule [OF n refl] by blast
    have "run_schedule (ts @ replicate k n) ps w = (ps1[n := Ret r], w2)"
      using s(1) k by (simp add: schedule_append)
    moreover have "\<forall>i < Suc n. finished (ps1[n := Ret r] ! i)"
      using s(2) n by (simp add: less_Suc_eq nth_list_update)
    ultimately show ?case by blast
  qed
  from this [of "length ps"] obtain ts ps' w' where "run_schedule ts ps w = (ps', w')"
      "\<forall>i < length ps. finished (ps' ! i)" by auto
  then show ?thesis
    using schedule_length [of ts ps w ps' w'] by (intro exI [of _ ts]) (auto simp: in_set_conv_nth)
qed

subsection \<open>Assertions and guarantees\<close>

text \<open>
  \<open>guided A G F s p\<close>: from every state in which the assertion \<open>A s\<close> holds the next step of \<open>p\<close>
  makes a change allowed by \<open>G\<close> and reaches some \<open>A s'\<close> with the rest of \<open>p\<close> guided from \<open>s'\<close>;
  when \<open>p\<close> has finished with the result \<open>r\<close>, \<open>F s r\<close> holds.
\<close>

inductive guided ::
  "('s \<Rightarrow> 'w \<Rightarrow> bool) \<Rightarrow> ('w \<Rightarrow> 'w \<Rightarrow> bool) \<Rightarrow> ('s \<Rightarrow> 'a \<Rightarrow> bool) \<Rightarrow> 's \<Rightarrow> ('w, 'a) proc \<Rightarrow> bool"
  for A G F
where
  ret: "F s a \<Longrightarrow> guided A G F s (Ret a)"
| act: "(\<And>w. A s w \<Longrightarrow> \<exists>s'. A s' (snd (f w)) \<and> G w (snd (f w)) \<and> guided A G F s' (fst (f w))) \<Longrightarrow>
    guided A G F s (Act f)"

inductive_simps guided_simps [simp]: "guided A G F s (Ret a)" "guided A G F s (Act f)"

lemma guided_call:
  assumes "\<And>w. A s w \<Longrightarrow> \<exists>a w' s'. f w = (a, w') \<and> A s' w' \<and> G w w' \<and> guided A G F s' (k a)"
  shows "guided A G F s (call f k)"
  unfolding call_def
proof (rule act)
  fix w assume "A s w"
  then obtain a w' s' where "f w = (a, w')" "A s' w'" "G w w'" "guided A G F s' (k a)"
    using assms by blast
  then show "\<exists>s'. A s' (snd (case f w of (a, w') \<Rightarrow> (k a, w'))) \<and> G w (snd (case f w of (a, w') \<Rightarrow> (k a, w'))) \<and>
      guided A G F s' (fst (case f w of (a, w') \<Rightarrow> (k a, w')))"
    by auto
qed

lemma guided_do_call:
  assumes "\<And>w. A s w \<Longrightarrow> \<exists>s'. A s' (h w) \<and> G w (h w) \<and> guided A G F s' p"
  shows "guided A G F s (do_call h p)"
  unfolding do_call_def using assms by (intro guided_call) blast

definition together :: "('i \<Rightarrow> 's \<Rightarrow> 'w \<Rightarrow> bool) \<Rightarrow> ('i \<Rightarrow> 'w \<Rightarrow> 'w \<Rightarrow> bool) \<Rightarrow> ('i \<Rightarrow> 's \<Rightarrow> 'a \<Rightarrow> bool) \<Rightarrow>
    'i list \<Rightarrow> 's list \<Rightarrow> ('w, 'a) proc list \<Rightarrow> 'w \<Rightarrow> bool" where
  "together A G F js ss ps w \<longleftrightarrow> length js = length ps \<and> length ss = length ps \<and>
     (\<forall>n < length ps. A (js ! n) (ss ! n) w \<and> guided (A (js ! n)) (G (js ! n)) (F (js ! n)) (ss ! n) (ps ! n))"

text \<open>Every two members of a list are apart.\<close>

definition all_apart :: "('i \<Rightarrow> 'i \<Rightarrow> bool) \<Rightarrow> 'i list \<Rightarrow> bool" where
  "all_apart apart js \<longleftrightarrow> (\<forall>m < length js. \<forall>n < length js. m \<noteq> n \<longrightarrow> apart (js ! m) (js ! n))"

text \<open>A process alone.\<close>

lemma guided_run:
  assumes "\<And>w. R w w" "\<And>w w1 w2. R w w1 \<Longrightarrow> R w1 w2 \<Longrightarrow> R w w2" "\<And>w w'. G w w' \<Longrightarrow> R w w'"
  shows "guided A G F s p \<Longrightarrow> A s w \<Longrightarrow> \<exists>r w' s'. run_proc p w = (r, w') \<and> A s' w' \<and> F s' r \<and> R w w'"
proof (induction p arbitrary: s w)
  case (Ret a)
  then show ?case using assms(1) by auto
next
  case (Act f)
  obtain p1 w1 where f: "f w = (p1, w1)" by (cases "f w")
  obtain s1 where s1: "A s1 w1" "G w w1" "guided A G F s1 p1"
    using Act.prems f by auto
  obtain r w' s' where "run_proc p1 w1 = (r, w')" "A s' w'" "F s' r" "R w1 w'"
    using Act.IH [of "(p1, w1)" p1, OF _ _ s1(3,1)] f rangeI [of f w] by auto
  then show ?case
    using f assms(2) [OF assms(3) [OF s1(2)]] by auto
qed

locale interference =
  fixes A :: "'i \<Rightarrow> 's \<Rightarrow> 'w \<Rightarrow> bool" and G :: "'i \<Rightarrow> 'w \<Rightarrow> 'w \<Rightarrow> bool"
    and apart :: "'i \<Rightarrow> 'i \<Rightarrow> bool"
  assumes stable: "apart i j \<Longrightarrow> A j s w \<Longrightarrow> G i w w' \<Longrightarrow> A j s w'"
begin

lemma together_step:
  assumes "together A G F js ss ps w" and n: "n < length ps" "ps ! n = Act f"
    and apart: "all_apart apart js"
  shows "G (js ! n) w (snd (f w)) \<and> (\<exists>s. together A G F js (ss[n := s]) (ps[n := fst (f w)]) (snd (f w)))"
proof -
  note t = assms(1) [unfolded together_def] and apart = apart [unfolded all_apart_def]
  have "guided (A (js ! n)) (G (js ! n)) (F (js ! n)) (ss ! n) (Act f)" "A (js ! n) (ss ! n) w"
    using t n by metis+
  then obtain s where s: "A (js ! n) s (snd (f w))" "G (js ! n) w (snd (f w))"
      "guided (A (js ! n)) (G (js ! n)) (F (js ! n)) s (fst (f w))"
    by auto
  have "A (js ! m) (ss ! m) (snd (f w))" if "m < length ps" "m \<noteq> n" for m
    using stable [OF _ _ s(2), of "js ! m"] t apart that n(1) by (metis (no_types))
  then have "A (js ! m) (ss[n := s] ! m) (snd (f w)) \<and>
      guided (A (js ! m)) (G (js ! m)) (F (js ! m)) (ss[n := s] ! m) (ps[n := fst (f w)] ! m)"
    if "m < length ps" for m
    using t s that by (cases "m = n") auto
  then have "together A G F js (ss[n := s]) (ps[n := fst (f w)]) (snd (f w))"
    using t by (simp add: together_def)
  then show ?thesis using s(2) by blast
qed

text \<open>Under every schedule the assertions of all processes hold, and whatever the guarantees add up to.\<close>

lemma schedule_together:
  assumes "together A G F js ss ps w"
    and "all_apart apart js"
    and "\<And>w. R w w" and "\<And>w w1 w2. R w w1 \<Longrightarrow> R w1 w2 \<Longrightarrow> R w w2"
    and "\<And>j w w'. j \<in> set js \<Longrightarrow> G j w w' \<Longrightarrow> R w w'"
  shows "\<exists>ss'. together A G F js ss' (fst (run_schedule ts ps w)) (snd (run_schedule ts ps w)) \<and>
    R w (snd (run_schedule ts ps w))"
  using assms(1)
proof (induction ts ps w arbitrary: ss rule: run_schedule.induct)
  case (1 ps w)
  then show ?case using assms(3) by auto
next
  case (2 i ts ps w)
  show ?case
  proof (cases "\<exists>f. i < length ps \<and> ps ! i = Act f")
    case True
    then obtain f where i: "i < length ps" "ps ! i = Act f" by blast
    obtain p w1 where f: "f w = (p, w1)" by (cases "f w")
    obtain s where s: "G (js ! i) w w1" "together A G F js (ss[i := s]) (ps[i := p]) w1"
      using together_step [OF 2(4) i assms(2)] f by auto
    have "js ! i \<in> set js" using 2(4) i(1) by (simp add: together_def)
    then have R: "R w w1" using assms(5) s(1) by blast
    obtain ss' where "together A G F js ss' (fst (run_schedule ts (ps[i := p]) w1)) (snd (run_schedule ts (ps[i := p]) w1))"
        "R w1 (snd (run_schedule ts (ps[i := p]) w1))"
      using 2(2) [OF i f [symmetric] s(2)] by blast
    then show ?thesis
      using i f assms(4) [OF R] by auto
  next
    case False
    then show ?thesis
      using 2(1) [OF _ _ 2(4)] 2(3) [OF _ 2(4)] by (cases "i < length ps"; cases "ps ! i") auto
  qed
qed

end

end
