(* ===== verification/Steps.thy ===== *)
theory Steps
  imports Processes Server
begin

section \<open>Services as processes\<close>

text \<open>
  Two service threads run their services at the same time, and \<open>mutex_db\<close> is never locked: the
  calls of one thread fall between those of another. Here the functions of \<open>src/services.c\<close> and the
  body of the loop of \<open>service_thread\<close> are processes whose steps are the calls of the C code: a
  transfer, a database function, a message to a client, a log line. The code puts no bound on the loop
  over pending messages; here its first \<open>n\<close> rounds are modelled, and a service whose loop goes on after
  them ends in \<open>Unfinished\<close>, which is not an end of the service: the thread has not served its client. A
  process run alone is the function of the theories \<open>Services\<close> and \<open>Server\<close>.
\<close>

datatype outcome = Done | Unfinished

type_synonym service = "(world, outcome) proc"

subsection \<open>The services, from the request to the reply\<close>

definition refuse_steps :: "fd \<Rightarrow> u8 \<Rightarrow> service" where
  "refuse_steps sock code = do_call (\<lambda>w. snd (send_server_reply sock code w)) (Ret Done)"

definition reply_steps :: "string \<Rightarrow> fd \<Rightarrow> request_t \<Rightarrow> u8 \<Rightarrow> service" where
  "reply_steps op sock req code =
     do_call (log_result op (cstr (rq_username req)) code) (refuse_steps sock code)"

definition register_steps :: "garbage \<Rightarrow> fd \<Rightarrow> request_t \<Rightarrow> service" where
  "register_steps g sock req =
     call (db_creat_usr_tbl (set_e_last_msg_id 0 (set_e_type ENT_TYPE_UD
         (set_e_username (cstr (rq_username req)) (g_entry g ''register.entry'')))))
       (\<lambda>(result, _). reply_steps REGISTER sock req
         (if result = DBMS_ERR_EXISTS then SRV_ERR_REG_USR_ALREADY_REG else SRV_SUCCESS))"

definition unregister_steps :: "fd \<Rightarrow> request_t \<Rightarrow> service" where
  "unregister_steps sock req =
     call (db_user_exists (cstr (rq_username req))) (\<lambda>user_exists.
       if user_exists = 1 then
         call (db_del_usr_tbl (cstr (rq_username req))) (\<lambda>d.
           reply_steps UNREGISTER sock req (if d < 0 then SRV_ERR_UNREG_ANY else SRV_SUCCESS))
       else if user_exists = 0 then reply_steps UNREGISTER sock req SRV_ERR_UNREG_USR_NOT_EXISTS
       else reply_steps UNREGISTER sock req SRV_ERR_UNREG_ANY)"

text \<open>\<open>aux_connect_send_pend_msgs\<close>: its loop, then the function; the end of \<open>srv_connect\<close>.\<close>

primrec pend_steps :: "nat \<Rightarrow> request_t \<Rightarrow> request_t \<Rightarrow> entry_t \<Rightarrow> entry_t \<Rightarrow> entry_t \<Rightarrow> service" where
  "pend_steps 0 msg_req ack_req sender_entry recipient_entry pend = Ret Unfinished"
| "pend_steps (Suc n) msg_req ack_req sender_entry recipient_entry pend =
     call (db_get_pend_msg pend) (\<lambda>(r, pend1).
       if r \<noteq> DBMS_SUCCESS then Ret Done
       else
         (let msg_req1 = msg_req
                \<lparr>rq_client_port := strcpy_buf (e_msg_sender pend1) (rq_client_port msg_req),
                 rq_message_id := e_msg_id pend1,
                 rq_message_content := strcpy_buf (e_msg_content pend1) (rq_message_content msg_req)\<rparr>;
              ack_req1 = ack_req\<lparr>rq_message_id := e_msg_id pend1\<rparr>;
              sender1 = set_e_username (e_msg_sender pend1) sender_entry
          in call (clt_send_message msg_req1 recipient_entry) (\<lambda>(sent, recipient1).
               if sent = SRV_SUCCESS then
                 do_call (log_sent (rq_message_id msg_req1) (cstr (rq_message_sender msg_req1))
                     (cstr (rq_recipient msg_req1)))
                   (call (db_io_op_usr_ent pend1 DELETE) (\<lambda>(_, pend2).
                     call (clt_send_mess_ack ack_req1 sender1) (\<lambda>(_, sender2).
                       pend_steps n msg_req1 ack_req1 sender2 recipient1 pend2)))
               else call (db_io_op_usr_ent (set_e_status STATUS_DCN recipient1) MODIFY) (\<lambda>_. Ret Done))))"

definition forward_steps :: "nat \<Rightarrow> garbage \<Rightarrow> entry_t \<Rightarrow> service" where
  "forward_steps n g pend_msg_entry =
     (let m = g_request g ''pend.send_msg_request'';
          a = g_request g ''pend.send_msg_ack_request'';
          msg_req = m\<lparr>rq_op_code := strcpy_buf SEND_MESSAGE (rq_op_code m)\<rparr>;
          ack_req = a\<lparr>rq_op_code := strcpy_buf SEND_MESS_ACK (rq_op_code a)\<rparr>;
          sender_entry = set_e_type ENT_TYPE_UD (g_entry g ''pend.sender_entry'');
          recipient_entry = set_e_username (e_username pend_msg_entry)
            (set_e_type ENT_TYPE_UD (g_entry g ''pend.recipient_entry''))
      in call (db_io_op_usr_ent recipient_entry READ) (\<lambda>(r, recipient1).
           if r < 0 then Ret Done
           else pend_steps n msg_req ack_req sender_entry recipient1 pend_msg_entry))"

definition connect_reply_steps :: "nat \<Rightarrow> garbage \<Rightarrow> fd \<Rightarrow> request_t \<Rightarrow> u8 \<Rightarrow> service" where
  "connect_reply_steps n g sock req reply =
     do_call (log_result CONNECT (cstr (rq_username req)) reply)
       (do_call (\<lambda>w. snd (send_server_reply sock reply w))
         (forward_steps n g (set_e_username (cstr (rq_username req))
           (set_e_type ENT_TYPE_P_MSG (g_entry g ''connect.pend_msg_entry'')))))"

definition connect_steps :: "nat \<Rightarrow> garbage \<Rightarrow> fd \<Rightarrow> request_t \<Rightarrow> service" where
  "connect_steps n g sock req =
     call (db_io_op_usr_ent (set_e_type ENT_TYPE_UD
         (set_e_username (cstr (rq_username req)) (g_entry g ''connect.entry''))) READ)
       (\<lambda>(io_result, entry1).
          if io_result = DBMS_ERR_NOT_EXISTS then connect_reply_steps n g sock req SRV_ERR_CN_USR_NOT_EXISTS
          else if io_result < 0 then connect_reply_steps n g sock req SRV_ERR_CN_ANY
          else if e_status entry1 = STATUS_CN then connect_reply_steps n g sock req SRV_ERR_CN_USR_ALREADY_CN
          else call (str_to_num (cstr (rq_client_port req)) INT_T) (\<lambda>(r1, tmp_port).
               call (sys_getpeername sock) (\<lambda>(r2, sin_addr).
                 let reply1 = (if r1 < 0 then SRV_ERR_CN_ANY else g_code g ''connect.reply'');
                     reply2 = (if r2 < 0 then SRV_ERR_CN_ANY else reply1)
                 in if reply2 \<noteq> SRV_ERR_CN_ANY then
                      call (db_io_op_usr_ent (set_e_ip sin_addr
                          (set_e_port (port_of tmp_port) (set_e_status STATUS_CN entry1))) MODIFY)
                        (\<lambda>(io2, _). connect_reply_steps n g sock req
                           (if io2 = DBMS_ERR_NOT_EXISTS then SRV_ERR_CN_USR_NOT_EXISTS
                            else if io2 < 0 then SRV_ERR_CN_ANY else SRV_SUCCESS))
                    else connect_reply_steps n g sock req reply2)))"

definition disconnect_steps :: "garbage \<Rightarrow> fd \<Rightarrow> request_t \<Rightarrow> service" where
  "disconnect_steps g sock req =
     call (db_io_op_usr_ent (set_e_type ENT_TYPE_UD
         (set_e_username (cstr (rq_username req)) (g_entry g ''disconnect.entry''))) READ)
       (\<lambda>(io_result, entry1).
          if io_result = DBMS_ERR_NOT_EXISTS then reply_steps DISCONNECT sock req SRV_ERR_DCN_USR_NOT_EXISTS
          else if io_result < 0 then reply_steps DISCONNECT sock req SRV_ERR_DCN_ANY
          else if e_status entry1 = STATUS_DCN then reply_steps DISCONNECT sock req SRV_ERR_DCN_USR_NOT_CN
          else call (db_io_op_usr_ent (set_e_port 0 (set_e_ip 0 (set_e_status STATUS_DCN entry1))) MODIFY)
                 (\<lambda>(io2, _). reply_steps DISCONNECT sock req
                    (if io2 = DBMS_ERR_NOT_EXISTS then SRV_ERR_DCN_USR_NOT_EXISTS
                     else if io2 < 0 then SRV_ERR_DCN_ANY else SRV_SUCCESS)))"

text \<open>\<open>srv_send\<close>: the last acknowledgements, the pending message, the delivery, the message number.\<close>

definition ack_steps :: "garbage \<Rightarrow> fd \<Rightarrow> request_t \<Rightarrow> u8 \<Rightarrow> entry_t \<Rightarrow> entry_t \<Rightarrow> service" where
  "ack_steps g sock req reply recipient msg_entry =
     do_call (aux_send_first_ack sock reply (e_msg_id msg_entry))
       (if e_status recipient = STATUS_CN then
         (let a = g_request g ''send.send_msg_ack_request'';
              ack_req = a\<lparr>rq_op_code := strcpy_buf SEND_MESS_ACK (rq_op_code a),
                          rq_message_id := e_last_msg_id recipient\<rparr>;
              sender_entry = set_e_username (cstr (rq_message_sender req))
                (set_e_type ENT_TYPE_UD (g_entry g ''send.sender_entry''))
          in call (clt_send_mess_ack ack_req sender_entry) (\<lambda>_. Ret Done))
       else Ret Done)"

definition store_steps :: "garbage \<Rightarrow> fd \<Rightarrow> request_t \<Rightarrow> u8 \<Rightarrow> entry_t \<Rightarrow> entry_t \<Rightarrow> service" where
  "store_steps g sock req reply recipient msg_entry =
     (if e_status recipient = STATUS_DCN \<or> g_code g ''send.send_msg_reply'' \<noteq> SRV_SUCCESS then
        call (db_io_op_usr_ent msg_entry CREATE) (\<lambda>(r, msg_entry1).
          let reply2 = (if r < 0 then SRV_ERR_SEND_ANY else reply)
          in if reply2 = SRV_SUCCESS then
               do_call (log_stored (e_msg_id msg_entry1) (cstr (rq_message_sender req)) (cstr (rq_recipient req)))
                 (ack_steps g sock req reply2 recipient msg_entry1)
             else ack_steps g sock req reply2 recipient msg_entry1)
      else ack_steps g sock req reply recipient msg_entry)"

definition pass_steps :: "garbage \<Rightarrow> fd \<Rightarrow> request_t \<Rightarrow> entry_t \<Rightarrow> service" where
  "pass_steps g sock req recipient =
     (let sender = cstr (rq_message_sender req);
          user = cstr (rq_recipient req);
          content = cstr (rq_message_content req);
          n = e_last_msg_id recipient;
          msg_entry = set_e_msg_id n (set_e_msg_content content (set_e_msg_sender sender
            (set_e_username user (set_e_type ENT_TYPE_P_MSG (g_entry g ''send.msg_entry'')))))
      in if e_status recipient = STATUS_CN then
           call (clt_send_message (send_message_request g ''send_msg_request'' sender n content) recipient)
             (\<lambda>(send_result, recipient1).
                if send_result = SRV_SUCCESS then
                  do_call (log_sent (e_msg_id msg_entry) sender user)
                    (store_steps g sock req SRV_SUCCESS recipient1 msg_entry)
                else
                  call (db_io_op_usr_ent (set_e_status STATUS_DCN recipient1) MODIFY) (\<lambda>(r, recipient3).
                    store_steps g sock req (if r < 0 then SRV_ERR_SEND_ANY else SRV_SUCCESS) recipient3 msg_entry))
         else store_steps g sock req SRV_SUCCESS recipient msg_entry)"

definition send_init_steps :: "request_t \<Rightarrow> entry_t \<Rightarrow> (u8 \<Rightarrow> entry_t \<Rightarrow> service) \<Rightarrow> service" where
  "send_init_steps req entry go =
     call (db_user_exists (cstr (rq_message_sender req))) (\<lambda>sender_exists.
     call (db_user_exists (cstr (rq_recipient req))) (\<lambda>recipient_exists.
       if sender_exists = 0 \<or> recipient_exists = 0 then go SRV_ERR_SEND_USR_NOT_EXISTS entry
       else if sender_exists < 0 \<or> recipient_exists < 0 then go SRV_ERR_SEND_ANY entry
       else
         call (db_io_op_usr_ent (set_e_username (cstr (rq_recipient req)) (set_e_type ENT_TYPE_UD entry)) READ)
           (\<lambda>(r, entry2).
             if r < 0 then go SRV_ERR_SEND_ANY entry2
             else
               call (db_io_op_usr_ent (set_e_last_msg_id (next_msg_id (e_last_msg_id entry2)) entry2) MODIFY)
                 (\<lambda>(r2, entry4). if r2 < 0 then go SRV_ERR_SEND_ANY entry4 else go SRV_SUCCESS entry4))))"

definition send_steps :: "garbage \<Rightarrow> fd \<Rightarrow> request_t \<Rightarrow> service" where
  "send_steps g sock req =
     send_init_steps req (g_entry g ''send.recipient_entry'') (\<lambda>reply recipient.
       if reply \<noteq> SRV_SUCCESS then refuse_steps sock reply else pass_steps g sock req recipient)"

lemma send_steps_calls:
  "send_steps g sock req =
     call (db_user_exists (cstr (rq_message_sender req))) (\<lambda>sender_exists.
     call (db_user_exists (cstr (rq_recipient req))) (\<lambda>recipient_exists.
       if sender_exists = 0 \<or> recipient_exists = 0 then refuse_steps sock SRV_ERR_SEND_USR_NOT_EXISTS
       else if sender_exists < 0 \<or> recipient_exists < 0 then refuse_steps sock SRV_ERR_SEND_ANY
       else
         call (db_io_op_usr_ent (set_e_username (cstr (rq_recipient req))
             (set_e_type ENT_TYPE_UD (g_entry g ''send.recipient_entry''))) READ) (\<lambda>(r, entry2).
           if r < 0 then refuse_steps sock SRV_ERR_SEND_ANY
           else
             call (db_io_op_usr_ent (set_e_last_msg_id (next_msg_id (e_last_msg_id entry2)) entry2) MODIFY)
               (\<lambda>(r2, entry4).
                 if r2 < 0 then refuse_steps sock SRV_ERR_SEND_ANY
                 else pass_steps g sock req entry4))))"
  by (simp add: send_steps_def send_init_steps_def case_prod_beta cong: if_cong)

subsection \<open>From the accepted connection to the service\<close>

text \<open>\<open>if (recv_string(...) < 0) return;\<close> in front of a service.\<close>

definition recv_name :: "fd \<Rightarrow> request_t \<Rightarrow> (request_t \<Rightarrow> service) \<Rightarrow> service" where
  "recv_name sock request k = call (recv_string sock (rq_username request)) (\<lambda>(r, buf).
     if r < 0 then Ret Done else k (request\<lparr>rq_username := buf\<rparr>))"

definition recv_port :: "fd \<Rightarrow> request_t \<Rightarrow> (request_t \<Rightarrow> service) \<Rightarrow> service" where
  "recv_port sock request k = call (recv_string sock (rq_client_port request)) (\<lambda>(r, buf).
     if r < 0 then Ret Done else k (request\<lparr>rq_client_port := buf\<rparr>))"

definition recv_content :: "fd \<Rightarrow> request_t \<Rightarrow> (request_t \<Rightarrow> service) \<Rightarrow> service" where
  "recv_content sock request k = call (recv_string sock (rq_message_content request)) (\<lambda>(r, buf).
     if r < 0 then Ret Done else k (request\<lparr>rq_message_content := buf\<rparr>))"

definition service_steps :: "nat \<Rightarrow> garbage \<Rightarrow> fd \<Rightarrow> request_t \<Rightarrow> service" where
  "service_steps n g client_socket request =
     call (recv_string client_socket (rq_op_code request)) (\<lambda>(r, buf).
       let req = request\<lparr>rq_op_code := buf\<rparr>; op = cstr buf
       in if r = -1 then Ret Done
          else if op = REGISTER then recv_name client_socket req (register_steps g client_socket)
          else if op = UNREGISTER then recv_name client_socket req (unregister_steps client_socket)
          else if op = CONNECT then
            recv_name client_socket req (\<lambda>req1.
              recv_port client_socket req1 (connect_steps n g client_socket))
          else if op = DISCONNECT then recv_name client_socket req (disconnect_steps g client_socket)
          else if op = SEND then
            recv_port client_socket req (\<lambda>req1. recv_name client_socket req1 (\<lambda>req2.
              recv_content client_socket req2 (send_steps g client_socket)))
          else Ret Done)"

subsection \<open>A service run alone\<close>

lemma run_refuse [simp]: "run_proc (refuse_steps sock code) w = (Done, snd (send_server_reply sock code w))"
  by (simp add: refuse_steps_def)

lemma run_reply [simp]:
  "run_proc (reply_steps op sock req code) w =
    (Done, snd (send_server_reply sock code (log_result op (cstr (rq_username req)) code w)))"
  by (simp add: reply_steps_def)

lemma run_register:
  "srv_register g sock rq w = (rq', w') \<Longrightarrow> run_proc (recv_name sock rq (register_steps g sock)) w = (Done, w')"
  by (auto simp: srv_register_def recv_name_def register_steps_def Let_def split: prod.splits if_splits)

lemma run_unregister:
  "srv_unregister g sock rq w = (rq', w') \<Longrightarrow> run_proc (recv_name sock rq (unregister_steps sock)) w = (Done, w')"
  by (auto simp: srv_unregister_def recv_name_def unregister_steps_def Let_def split: prod.splits if_splits)

lemma run_disconnect:
  "srv_disconnect g sock rq w = (rq', w') \<Longrightarrow> run_proc (recv_name sock rq (disconnect_steps g sock)) w = (Done, w')"
  by (auto simp: srv_disconnect_def recv_name_def disconnect_steps_def disconnect_user_def Let_def
      split: prod.splits if_splits)

text \<open>As many rounds as the loop over pending messages makes are enough, and more change nothing.\<close>

definition pend_body ::
  "(request_t \<Rightarrow> request_t \<Rightarrow> entry_t \<Rightarrow> entry_t \<Rightarrow> entry_t \<Rightarrow> world \<Rightarrow> (int \<times> world) option) \<Rightarrow>
    request_t \<Rightarrow> request_t \<Rightarrow> entry_t \<Rightarrow> entry_t \<Rightarrow> entry_t \<Rightarrow> world \<Rightarrow> (int \<times> world) option" where
  "pend_body loop mr ar s r p w =
     (case db_get_pend_msg p w of ((r', pend1), w1) \<Rightarrow>
        (if r' \<noteq> DBMS_SUCCESS then Some (SRV_SUCCESS, w1)
         else
           (let msg_req1 = mr
                  \<lparr>rq_client_port := strcpy_buf (e_msg_sender pend1) (rq_client_port mr),
                   rq_message_id := e_msg_id pend1,
                   rq_message_content := strcpy_buf (e_msg_content pend1) (rq_message_content mr)\<rparr>;
                ack_req1 = ar\<lparr>rq_message_id := e_msg_id pend1\<rparr>;
                sender1 = set_e_username (e_msg_sender pend1) s
            in case clt_send_message msg_req1 r w1 of ((sent, recipient1), w2) \<Rightarrow>
                 (if sent = SRV_SUCCESS then
                    (let w3 = log_sent (rq_message_id msg_req1) (cstr (rq_message_sender msg_req1))
                                (cstr (rq_recipient msg_req1)) w2
                     in case db_io_op_usr_ent pend1 DELETE w3 of ((_, pend2), w4) \<Rightarrow>
                          (case clt_send_mess_ack ack_req1 sender1 w4 of ((_, sender2), w5) \<Rightarrow>
                             loop msg_req1 ack_req1 sender2 recipient1 pend2 w5))
                  else
                    (case db_io_op_usr_ent (set_e_status STATUS_DCN recipient1) MODIFY w2 of
                       (_, w3) \<Rightarrow> Some (SRV_ERR_SEND_ANY, w3))))))"

lemma run_pend_round:
  assumes IH: "\<And>mr ar s r p w y. loop mr ar s r p w = Some y \<Longrightarrow>
      \<exists>k. \<forall>n \<ge> k. run_proc (pend_steps n mr ar s r p) w = (Done, snd y)"
    and body: "pend_body loop mr ar s r p w = Some y"
  shows "\<exists>k. \<forall>n \<ge> k. run_proc (pend_steps (Suc n) mr ar s r p) w = (Done, snd y)"
proof -
  obtain x p1 w1 where get: "db_get_pend_msg p w = ((x, p1), w1)" by (metis prod.exhaust)
  define mr1 where "mr1 = mr\<lparr>rq_client_port := strcpy_buf (e_msg_sender p1) (rq_client_port mr),
    rq_message_id := e_msg_id p1, rq_message_content := strcpy_buf (e_msg_content p1) (rq_message_content mr)\<rparr>"
  define ar1 where "ar1 = ar\<lparr>rq_message_id := e_msg_id p1\<rparr>"
  obtain sent r1 w2 where send: "clt_send_message mr1 r w1 = ((sent, r1), w2)" by (metis prod.exhaust)
  define w3 where "w3 = log_sent (rq_message_id mr1) (cstr (rq_message_sender mr1)) (cstr (rq_recipient mr1)) w2"
  obtain x4 p2 w4 where io: "db_io_op_usr_ent p1 DELETE w3 = ((x4, p2), w4)" by (metis prod.exhaust)
  obtain x5 s2 w5 where ack: "clt_send_mess_ack ar1 (set_e_username (e_msg_sender p1) s) w4 = ((x5, s2), w5)"
    by (metis prod.exhaust)
  note defs = mr1_def [symmetric] ar1_def [symmetric] w3_def [symmetric]
  show ?thesis
  proof (cases "x = DBMS_SUCCESS \<and> sent = SRV_SUCCESS")
    case True
    then have "loop mr1 ar1 s2 r1 p2 w5 = Some y"
      using body get send io ack by (simp add: pend_body_def Let_def defs)
    then show ?thesis
      using IH [of mr1 ar1 s2 r1 p2 w5 y] True get send io ack by (simp add: Let_def defs)
  next
    case False
    then show ?thesis
      using body get send by (auto simp: pend_body_def Let_def defs split: prod.splits if_splits)
  qed
qed

lemma run_pend:
  assumes "pend_loop mr ar s r p w = Some y"
  shows "\<exists>k. \<forall>n \<ge> k. run_proc (pend_steps n mr ar s r p) w = (Done, snd y)"
proof (rule pend_loop.raw_induct [where P = "\<lambda>mr ar s r p w y.
      \<exists>k. \<forall>n \<ge> k. run_proc (pend_steps n mr ar s r p) w = (Done, snd y)", OF _ assms], fold pend_body_def)
  fix loop mr ar s r p w y
  assume "\<And>mr ar s r p w y. loop mr ar s r p w = Some y \<Longrightarrow>
      \<exists>k. \<forall>n \<ge> k. run_proc (pend_steps n mr ar s r p) w = (Done, snd y)" "pend_body loop mr ar s r p w = Some y"
  then obtain k where k: "\<forall>n \<ge> k. run_proc (pend_steps (Suc n) mr ar s r p) w = (Done, snd y)"
    using run_pend_round by blast
  have "run_proc (pend_steps n mr ar s r p) w = (Done, snd y)" if "Suc k \<le> n" for n
    using that k by (cases n) simp_all
  then show "\<exists>k. \<forall>n \<ge> k. run_proc (pend_steps n mr ar s r p) w = (Done, snd y)" by blast
qed

lemma run_forward:
  assumes "aux_connect_send_pend_msgs g e w = Some y"
  shows "\<exists>k. \<forall>n \<ge> k. run_proc (forward_steps n g e) w = (Done, snd y)"
  using assms run_pend
  by (auto simp: aux_connect_send_pend_msgs_def forward_steps_def Let_def split: prod.splits if_splits)

lemma run_connect_user:
  "run_proc (connect_steps n g sock req) w =
    (case connect_user g sock req w of (reply, w1) \<Rightarrow> run_proc (connect_reply_steps n g sock req reply) w1)"
  by (simp add: connect_steps_def connect_user_def Let_def split: prod.split)

lemma run_connect:
  assumes "srv_connect g sock rq w = Some (rq', w')"
  shows "\<exists>k. \<forall>n \<ge> k. run_proc (recv_name sock rq (\<lambda>req. recv_port sock req (connect_steps n g sock))) w = (Done, w')"
  using assms run_forward
  by (fastforce simp: srv_connect_def recv_name_def recv_port_def run_connect_user connect_reply_steps_def Let_def
      split: prod.splits if_splits option.splits)

lemma run_ack:
  "run_proc (ack_steps g sock req reply recipient entry) w =
    (Done, let w5 = aux_send_first_ack sock reply (e_msg_id entry) w
         in if e_status recipient = STATUS_CN then
              snd (clt_send_mess_ack ((g_request g ''send.send_msg_ack_request'')
                  \<lparr>rq_op_code := strcpy_buf SEND_MESS_ACK (rq_op_code (g_request g ''send.send_msg_ack_request'')),
                   rq_message_id := e_last_msg_id recipient\<rparr>)
                (set_e_username (cstr (rq_message_sender req))
                  (set_e_type ENT_TYPE_UD (g_entry g ''send.sender_entry''))) w5)
            else w5)"
  by (simp add: ack_steps_def Let_def split: prod.split)

definition stored_world :: "garbage \<Rightarrow> fd \<Rightarrow> request_t \<Rightarrow> u8 \<Rightarrow> entry_t \<Rightarrow> entry_t \<Rightarrow> world \<Rightarrow> u8 \<times> entry_t \<times> world" where
  "stored_world g sock req reply recipient entry w =
     (if e_status recipient = STATUS_DCN \<or> g_code g ''send.send_msg_reply'' \<noteq> SRV_SUCCESS
      then
        (case db_io_op_usr_ent entry CREATE w of ((r, entry1), w3) \<Rightarrow>
           (let reply2 = (if r < 0 then SRV_ERR_SEND_ANY else reply)
            in (reply2, entry1,
                if reply2 = SRV_SUCCESS then
                  log_stored (e_msg_id entry1) (cstr (rq_message_sender req)) (cstr (rq_recipient req)) w3
                else w3)))
      else (reply, entry, w))"

lemma run_store:
  "run_proc (store_steps g sock req reply recipient entry) w =
    (case stored_world g sock req reply recipient entry w of (reply3, entry3, w4) \<Rightarrow>
       run_proc (ack_steps g sock req reply3 recipient entry3) w4)"
  by (simp add: store_steps_def stored_world_def Let_def split: prod.split)

lemma run_pass:
  "run_proc (pass_steps g sock req recipient) w =
    (case aux_send_msg_pass g req SRV_SUCCESS recipient (g_entry g ''send.msg_entry'') w of
       ((reply1, recipient1, entry), w2) \<Rightarrow> run_proc (store_steps g sock req reply1 recipient1 entry) w2)"
  by (simp add: pass_steps_def aux_send_msg_pass_def Let_def split: prod.split)

lemma run_send_init:
  "run_proc (send_steps g sock req) w =
    (case aux_send_init req (g_entry g ''send.recipient_entry'') w of ((reply, recipient), w1) \<Rightarrow>
       if reply \<noteq> SRV_SUCCESS then (Done, snd (send_server_reply sock reply w1))
       else run_proc (pass_steps g sock req recipient) w1)"
  by (simp add: send_steps_calls aux_send_init_def Let_def split: prod.split)

lemma run_send_steps: "run_proc (send_steps g sock req) w = (Done, send_to_user g sock req w)"
  by (auto simp: run_send_init run_pass run_store run_ack send_to_user_def stored_world_def Let_def
      split: prod.splits)

lemma run_send:
  "srv_send g sock rq w = (rq', w') \<Longrightarrow>
    run_proc (recv_port sock rq (\<lambda>req1. recv_name sock req1 (\<lambda>req2. recv_content sock req2 (send_steps g sock)))) w =
      (Done, w')"
  by (auto simp: srv_send_def recv_name_def recv_port_def recv_content_def run_send_steps Let_def
      split: prod.splits if_splits)

lemma operations [simp]:
  "UNREGISTER \<noteq> REGISTER" "CONNECT \<noteq> REGISTER" "CONNECT \<noteq> UNREGISTER"
  "DISCONNECT \<noteq> REGISTER" "DISCONNECT \<noteq> UNREGISTER" "DISCONNECT \<noteq> CONNECT"
  "SEND \<noteq> REGISTER" "SEND \<noteq> UNREGISTER" "SEND \<noteq> CONNECT" "SEND \<noteq> DISCONNECT"
  by (simp_all add: REGISTER_def UNREGISTER_def CONNECT_def DISCONNECT_def SEND_def)

lemma run_service:
  assumes "service_request g sock rq w = Some (rq', w')"
  shows "\<exists>k. \<forall>n \<ge> k. run_proc (service_steps n g sock rq) w = (Done, w')"
proof -
  obtain r buf w1 where r: "recv_string sock (rq_op_code rq) w = ((r, buf), w1)" by (metis prod.exhaust)
  let ?req = "rq\<lparr>rq_op_code := buf\<rparr>"
  show ?thesis
  proof (cases "r \<noteq> -1 \<and> cstr buf = CONNECT")
    case True
    then have "srv_connect g sock ?req w1 = Some (rq', w')"
      using assms r by (simp add: service_request_def Let_def)
    then show ?thesis
      using run_connect r True
      by (simp add: service_steps_def Let_def)
  next
    case False
    then have "run_proc (service_steps n g sock rq) w = (Done, w')" for n
      using assms r run_register [of g sock ?req w1 rq' w'] run_unregister [of g sock ?req w1 rq' w']
        run_disconnect [of g sock ?req w1 rq' w'] run_send [of g sock ?req w1 rq' w']
        operations [symmetric]
      by (auto simp: service_request_def service_steps_def Let_def split: if_splits)
    then show ?thesis by blast
  qed
qed

end
