(* ===== verification/TreeInvariant.thy ===== *)
theory TreeInvariant
  imports Steps RemoveTree
begin

section \<open>The file tree stays well formed, whatever fails\<close>

text \<open>
  \<open>files_ok\<close> is kept by every system call and so by every function of the sources, for all
  fates, all input and all contents of uninitialised memory, and no function gives a descriptor back
  to be used again. Each rule says it of one function, in the form in which the proofs of its callers
  chain forward through the calls; the services are treated as the processes they are.
\<close>

subsection \<open>System calls\<close>

lemma walk_new:
  assumes ok: "files_ok f"
  shows "walk f cur cs = Inr q \<Longrightarrow> look f q = None \<Longrightarrow> cs \<noteq> [] \<or> look f cur \<noteq> None \<Longrightarrow>
    \<forall>c \<in> set cs. CHR ''/'' \<notin> set c \<Longrightarrow>
    \<exists>p c. q = p @ [c] \<and> plain_name c \<and> look f p = Some DirI"
proof (induction cs arbitrary: cur)
  case (Cons c cs)
  have dir: "look f cur = Some DirI"
    using Cons.prems(1) by (auto split: if_splits)
  have up: "look f (butlast cur) = Some DirI"
  proof (cases "cur = []")
    case False
    then show ?thesis
      using files_ok_parent [OF ok, of "butlast cur" "last cur"] dir by simp
  qed (simp add: look_def)
  show ?case
  proof (cases "c = [] \<or> c = ''.'' \<or> c = ''..''")
    case True
    then show ?thesis
      using Cons.IH [of cur] Cons.IH [of "butlast cur"] Cons.prems dir up by (auto split: if_splits)
  next
    case False
    then have c: "plain_name c" and w: "walk f (cur @ [c]) cs = Inr q"
      using Cons.prems(1,4) dir by (auto simp: plain_name_def split: if_splits)
    show ?thesis
    proof (cases "cs = []")
      case True
      then show ?thesis using w c dir by auto
    next
      case False
      then show ?thesis
        using Cons.IH [OF w Cons.prems(2)] Cons.prems(4) by simp
    qed
  qed
qed simp

lemma split_path_plain: "c \<in> set (split_path p) \<Longrightarrow> CHR ''/'' \<notin> set c"
proof (induction p arbitrary: c)
  case (Cons x p)
  then show ?case
    by (cases "split_path p") (auto split: if_splits)
qed simp

lemma resolve_new:
  assumes "files_ok (w_files w)" "resolve w p = Inr q" "look (w_files w) q = None"
  shows "\<exists>p c. q = p @ [c] \<and> plain_name c \<and> look (w_files w) p = Some DirI"
  using walk_new [OF assms(1), of _ "split_path p" q] assms(2,3) split_path_plain
  by (auto simp: resolve_def split: list.splits simp del: split_path.simps)

lemma files_ok_rewrite:
  assumes "files_ok f" "look f q = Some (FileI c)"
  shows "files_ok (set_node q (FileI c') f)"
proof -
  have "q \<noteq> []" using assms(2) by (auto simp: look_def)
  then obtain p n where q: "q = p @ [n]" by (metis append_butlast_last_id)
  then show ?thesis
    using files_ok_set_node [OF assms(1), of p n "FileI c'"] files_ok_parent [OF assms(1), of p n]
      files_ok_plain [OF assms(1), of q n] assms(2) by simp
qed

lemma files_ok_create:
  assumes "files_ok (w_files w)" "resolve w p = Inr q" "look (w_files w) q = None"
  shows "files_ok (set_node q i (w_files w))"
proof -
  obtain r c where "q = r @ [c]" "plain_name c" "look (w_files w) r = Some DirI"
    using resolve_new [OF assms] by blast
  then show ?thesis
    using files_ok_set_node [OF assms(1), of r c i] assms(3) by simp
qed

lemma files_ok_remove:
  assumes "files_ok f" and "\<forall>n. look f (q @ [n]) = None" and "q \<noteq> []"
  shows "files_ok (del_node q f)"
proof -
  have "del_node q f = prune (prefix q) f"
    unfolding del_node_prune
  proof (rule prune_cong)
    fix k assume "k \<in> set (map fst f)"
    then have k: "look f k \<noteq> None"
      using look_Some_iff_key [of k f] assms(1) by (cases "k = []") (auto simp: files_ok_def)
    show "(k = q) = prefix q k"
    proof
      assume "prefix q k"
      then obtain r where r: "k = q @ r" by (rule prefixE)
      have "r = []"
      proof (cases r)
        case (Cons n r')
        have "look f ((q @ [n]) @ r') = None"
          using files_ok_below_none [OF assms(1)] assms(2) by blast
        then show ?thesis using k r Cons by simp
      qed
      then show "k = q" using r by simp
    qed simp
  qed
  then show ?thesis
    using files_ok_prune_below [OF assms(1,3)] by simp
qed

definition tree_ok :: "nat \<Rightarrow> world \<Rightarrow> bool" where
  "tree_ok k w \<longleftrightarrow> files_ok (w_files w) \<and> k \<le> w_next w"

lemma next_fate_next: "next_fate w = (ft, w') \<Longrightarrow> w_next w' = w_next w"
  by (auto simp: next_fate_def split: list.splits)

lemma next_fate_tree [frame]: "next_fate w = (ft, w') \<Longrightarrow> tree_ok k w \<Longrightarrow> tree_ok k w'"
  using next_fate_frame(3) next_fate_next by (metis tree_ok_def)

lemma may_fail_tree:
  assumes "may_fail bad run w = (r, w')" "tree_ok k w"
    and "\<And>v r. run v = (r, w') \<Longrightarrow> tree_ok k v \<Longrightarrow> tree_ok k w'"
  shows "tree_ok k w'"
  using assms next_fate_tree
  by (fastforce simp: may_fail_def failing_def tree_ok_def split: prod.splits fate.splits)

lemma opendir_tree [frame]: "sys_opendir p w = (r, w') \<Longrightarrow> tree_ok k w \<Longrightarrow> tree_ok k w'"
  unfolding sys_opendir_def by (erule may_fail_tree) (auto simp: tree_ok_def failing_def split: sum.splits option.splits inode.splits)

lemma mkdir_tree [frame]: "sys_mkdir p w = (r, w') \<Longrightarrow> tree_ok k w \<Longrightarrow> tree_ok k w'"
  unfolding sys_mkdir_def
  by (erule may_fail_tree) (auto simp: tree_ok_def failing_def files_ok_create split: sum.splits option.splits)

lemma open_tree [frame]: "sys_open p fl w = (r, w') \<Longrightarrow> tree_ok k w \<Longrightarrow> tree_ok k w'"
  unfolding sys_open_def
  by (erule may_fail_tree)
    (auto simp: tree_ok_def failing_def alloc_fd_def files_ok_create files_ok_rewrite
      split: sum.splits option.splits open_flags.splits inode.splits)

lemma remove_tree [frame]: "sys_remove p w = (r, w') \<Longrightarrow> tree_ok k w \<Longrightarrow> tree_ok k w'"
  unfolding sys_remove_def
proof (erule may_fail_tree, assumption)
  fix v :: world and r :: int
  assume run: "(case resolve v p of
      Inl e \<Rightarrow> failing (-1) e v
    | Inr q \<Rightarrow> (case look (w_files v) q of
          None \<Rightarrow> failing (-1) ENOENT v
        | Some DirI \<Rightarrow>
            (if children (w_files v) q \<noteq> [] then failing (-1) ENOTEMPTY v
             else (0, v\<lparr>w_files := del_node q (w_files v), w_errno := EISDIR\<rparr>))
        | Some (FileI _) \<Rightarrow> (0, v\<lparr>w_files := del_node q (w_files v)\<rparr>))) = (r, w')"
    and "tree_ok k v"
  then have ok: "files_ok (w_files v)" and n: "k \<le> w_next v" by (simp_all add: tree_ok_def)
  show "tree_ok k w'"
  proof (cases "resolve v p")
    case (Inr q)
    consider (none) "look (w_files v) q = None" | (dir) "look (w_files v) q = Some DirI"
      | (leaf) c where "look (w_files v) q = Some (FileI c)"
      by (metis inode.exhaust not_Some_eq)
    then show ?thesis
    proof cases
      case leaf
      then have "q \<noteq> []" "\<forall>n. look (w_files v) (q @ [n]) = None"
        using files_ok_below_file [OF ok] by (auto simp: look_def)
      then show ?thesis
        using run Inr leaf n files_ok_remove [OF ok] by (auto simp: tree_ok_def)
    next
      case dir
      have "files_ok (del_node q (w_files v))" if "children (w_files v) q = []"
      proof (cases "q = []")
        case True
        then have "del_node q (w_files v) = w_files v"
          using ok by (intro prune_none [of _ "\<lambda>k. k = q", folded del_node_prune]) (auto simp: files_ok_def)
        then show ?thesis using ok by simp
      next
        case False
        have "\<forall>n. look (w_files v) (q @ [n]) = None"
          using that set_children [of "w_files v" q] by auto
        then show ?thesis using files_ok_remove [OF ok _ False] by blast
      qed
      then show ?thesis
        using run Inr dir ok n by (auto simp: tree_ok_def failing_def split: if_splits)
    qed (use run Inr ok n in \<open>auto simp: tree_ok_def failing_def\<close>)
  qed (use run ok n in \<open>auto simp: tree_ok_def failing_def\<close>)
qed

lemma read_tree [frame]: "sys_read d n w = (r, w') \<Longrightarrow> tree_ok k w \<Longrightarrow> tree_ok k w'"
proof -
  assume *: "sys_read d n w = (r, w')" "tree_ok k w"
  then have "w_files w' = w_files w \<and> w_next w' = w_next w"
    using next_fate_frame(3) next_fate_next
    by (fastforce simp: sys_read_def read_now_def failing_def Let_def
        split: prod.splits fate.splits option.splits desc.splits inode.splits)
  then show ?thesis using * by (simp add: tree_ok_def)
qed

lemma write_tree [frame]: "sys_write d buf w = (r, w') \<Longrightarrow> tree_ok k w \<Longrightarrow> tree_ok k w'"
proof (erule sys_write_cases)
  fix e w1 assume "next_fate w = (Fail e, w1)" "w' = w1\<lparr>w_errno := e\<rparr>" "tree_ok k w"
  then show ?thesis using next_fate_tree by (auto simp: tree_ok_def)
next
  fix ft w1
  assume "next_fate w = (ft, w1)" "write_now d (take (at_most ft (length buf)) buf) w1 = (r, w')"
    "tree_ok k w"
  then show ?thesis
    using next_fate_tree [of w ft w1 k] files_ok_rewrite [of "w_files w1"]
    by (auto simp: tree_ok_def write_now_def failing_def split: option.splits desc.splits inode.splits)
qed

lemma simple_tree [simp]:
  "tree_ok k (clear_errno w) = tree_ok k w" "tree_ok k (w\<lparr>w_errno := e\<rparr>) = tree_ok k w" "tree_ok k (printf s w) = tree_ok k w"
  "tree_ok k (snd (sys_close d w)) = tree_ok k w"
  by (simp_all add: tree_ok_def clear_errno_def printf_def sys_close_def failing_def split: option.splits)

lemma net_tree [frame]:
  "sys_socket w = (d, w') \<Longrightarrow> tree_ok k w \<Longrightarrow> tree_ok k w'"
  "sys_connect d ip port w = (i, w') \<Longrightarrow> tree_ok k w \<Longrightarrow> tree_ok k w'"
  "sys_getpeername d w = (x, w') \<Longrightarrow> tree_ok k w \<Longrightarrow> tree_ok k w'"
  "sys_setup w = (i, w') \<Longrightarrow> tree_ok k w \<Longrightarrow> tree_ok k w'"
  unfolding sys_socket_def sys_connect_def sys_getpeername_def sys_setup_def
  by (erule may_fail_tree; auto simp: tree_ok_def alloc_fd_def failing_def split: if_splits)+

subsection \<open>util.c and netUtil.c\<close>

lemma write_loop_tree [frame]:
  "write_loop d buf cnt w = (r, w') \<Longrightarrow> tree_ok k w \<Longrightarrow> tree_ok k w'"
proof (induction d buf cnt w rule: write_loop.induct)
  case (1 d buf cnt w)
  obtain n w1 where wr: "sys_write d buf w = (n, w1)" by fastforce
  have "tree_ok k w1"
    using write_tree [OF wr "1.prems"(2)] .
  then show ?case
    using "1.prems"(1) "1.IH" [OF wr [symmetric]] wr
    by (subst (asm) write_loop.simps) (auto split: if_splits)
qed

lemma write_bytes_tree [frame]:
  "write_bytes d buf w = (r, w') \<Longrightarrow> tree_ok k w \<Longrightarrow> tree_ok k w'"
  by (auto simp: write_bytes_def dest: write_loop_tree split: if_splits)

lemma read_loop_tree [frame]:
  "read_loop d left got w = (r, w') \<Longrightarrow> tree_ok k w \<Longrightarrow> tree_ok k w'"
proof (induction d left got w rule: read_loop.induct)
  case (1 d left got w)
  obtain n data w1 where rd: "sys_read d left w = ((n, data), w1)" by (metis prod.exhaust)
  have "tree_ok k w1"
    using read_tree [OF rd "1.prems"(2)] .
  then show ?case
    using "1.prems"(1) "1.IH" [OF rd [symmetric] refl] rd
    by (subst (asm) read_loop.simps) (auto split: if_splits)
qed

lemma read_bytes_tree [frame]:
  "read_bytes d n w = (r, w') \<Longrightarrow> tree_ok k w \<Longrightarrow> tree_ok k w'"
  by (auto simp: read_bytes_def dest: read_loop_tree split: if_splits)

lemma read_line_loop_tree [frame]:
  "read_line_loop d sp buf cnt w = (r, w') \<Longrightarrow> tree_ok k w \<Longrightarrow> tree_ok k w'"
proof (induction d sp buf cnt w rule: read_line_loop.induct)
  case (1 d sp buf cnt w)
  obtain n data w1 where rd: "sys_read d 1 w = ((n, data), w1)" by (metis prod.exhaust)
  have ok: "tree_ok k w1"
    using read_tree [OF rd "1.prems"(2)] .
  note ih = "1.IH" [OF rd [symmetric] refl]
  show ?case
    using "1.prems"(1) ok ih rd
    by (subst (asm) read_line_loop.simps) (auto split: if_splits list.splits)
qed

lemma read_line_tree [frame]:
  "read_line d buf sp w = (r, w') \<Longrightarrow> tree_ok k w \<Longrightarrow> tree_ok k w'"
  by (auto simp: read_line_def Let_def dest: read_line_loop_tree split: if_splits)

lemma check_sock_error_tree [simp]: "tree_ok k (snd (check_sock_error r d w)) = tree_ok k w"
  by (simp add: check_sock_error_def)

lemma check_sock_error_tree' [frame]:
  "check_sock_error r d w = (x, w') \<Longrightarrow> tree_ok k w \<Longrightarrow> tree_ok k w'"
  using check_sock_error_tree by (metis snd_conv)

lemma send_string_tree [frame]:
  "send_string d s w = (r, w') \<Longrightarrow> tree_ok k w \<Longrightarrow> tree_ok k w'"
  by (auto simp: send_string_def dest: frame split: prod.splits)

lemma send_server_reply_tree [frame]:
  "send_server_reply d c w = (r, w') \<Longrightarrow> tree_ok k w \<Longrightarrow> tree_ok k w'"
  by (auto simp: send_server_reply_def dest: frame split: prod.splits)

lemma recv_string_tree [frame]:
  "recv_string d buf w = (r, w') \<Longrightarrow> tree_ok k w \<Longrightarrow> tree_ok k w'"
  by (auto simp: recv_string_def dest: frame split: prod.splits)

text \<open>The calls whose result the sources ignore.\<close>

lemma ignored_tree [intro]:
  "tree_ok k w \<Longrightarrow> tree_ok k (snd (send_server_reply d c w))"
  "tree_ok k w \<Longrightarrow> tree_ok k (snd (send_string d s w))"
  using send_server_reply_tree send_string_tree by (metis prod.collapse)+

lemma str_to_num_tree [frame]: "str_to_num s ty w = (r, w') \<Longrightarrow> tree_ok k w \<Longrightarrow> tree_ok k w'"
  by (auto simp: str_to_num_def Let_def split: if_splits prod.splits)

subsection \<open>dbmsUtil.c and dbms.c\<close>

lemma open_file_tree [frame]:
  "open_file p m w = (r, w') \<Longrightarrow> tree_ok k w \<Longrightarrow> tree_ok k w'"
  by (auto simp: open_file_def dest: open_tree split: if_splits)

lemma open_directory_tree [frame]:
  assumes "open_directory p m w = (r, w')" "tree_ok k w"
  shows "tree_ok k w'"
  using assms
  by (auto simp: open_directory_def Let_def dest!: opendir_tree mkdir_tree
      split: if_splits prod.splits option.splits)

lemma rm_entries_tree:
  assumes rc: "\<And>p v r v'. rc p v = Some (r, v') \<Longrightarrow> tree_ok k v \<Longrightarrow> tree_ok k v'"
  shows "rm_entries rc p es w = Some (r, w') \<Longrightarrow> tree_ok k w \<Longrightarrow> tree_ok k w'"
proof (induction es arbitrary: w)
  case (Cons x es)
  obtain nm b where x: "x = (nm, b)" by (cases x)
  show ?case
  proof (cases "nm = ''.'' \<or> nm = ''..''")
    case True
    then show ?thesis using Cons by (auto simp: x)
  next
    case False
    obtain y w1 where y: "(if b then rc (p @ ''/'' @ nm) w else Some (sys_remove (p @ ''/'' @ nm) w)) = Some (y, w1)"
        "(if y < 0 then Some (DBMS_ERR_ANY, w1) else rm_entries rc p es w1) = Some (r, w')"
      using Cons.prems(1) False by (auto simp: x split: option.splits prod.splits)
    have "tree_ok k w1"
      using y(1) rc remove_tree Cons.prems(2) by (cases b) auto
    then show ?thesis
      using y(2) Cons.IH by (auto split: if_splits)
  qed
qed simp

lemma rm_fuel_tree:
  "rm_fuel n p w = Some (r, w') \<Longrightarrow> tree_ok k w \<Longrightarrow> tree_ok k w'"
proof (induction n arbitrary: p w r w')
  case (Suc n)
  obtain d w1 where od: "sys_opendir p (clear_errno w) = (d, w1)" by fastforce
  have ok1: "tree_ok k w1"
    using opendir_tree [OF od] Suc.prems(2) by simp
  obtain x w2 where x: "(case d of None \<Rightarrow> Some (0, w1) | Some es \<Rightarrow> rm_entries (rm_fuel n) p es w1) = Some (x, w2)"
    using Suc.prems(1) od by (auto split: option.splits prod.splits)
  have "tree_ok k w2"
    using x ok1 rm_entries_tree [of "rm_fuel n", OF Suc.IH] by (auto split: option.splits)
  then show ?case
    using Suc.prems(1) od x remove_tree by (auto split: if_splits)
qed simp

lemma remove_recursive_tree [frame]:
  "remove_recursive p w = (r, w') \<Longrightarrow> tree_ok k w \<Longrightarrow> tree_ok k w'"
  by (auto simp: remove_recursive_def simp del: rm_fuel.simps dest: rm_fuel_tree split: option.splits)

lemma read_entry_tree [frame]:
  "read_entry d e w = (r, w') \<Longrightarrow> tree_ok k w \<Longrightarrow> tree_ok k w'"
  by (auto simp: read_entry_def Let_def dest: read_bytes_tree split: prod.splits if_splits)

lemma write_entry_tree [frame]:
  "write_entry d e w = (r, w') \<Longrightarrow> tree_ok k w \<Longrightarrow> tree_ok k w'"
  by (auto simp: write_entry_def dest: write_bytes_tree split: prod.splits if_splits)

lemma db_io_tree [frame]:
  assumes "db_io_op_usr_ent e m w = (r, w')" "tree_ok k w"
  shows "tree_ok k w'"
proof -
  obtain d w1 where op: "open_file (entry_path e) m w = (d, w1)" by fastforce
  obtain x w2 where io: "(if m = READ then read_entry else write_entry) d e w1 = (x, w2)" by fastforce
  have ok1: "tree_ok k w1"
    using open_file_tree [OF op assms(2)] .
  have ok2: "tree_ok k w2"
    using io ok1 read_entry_tree write_entry_tree by (auto split: if_splits)
  obtain y w3 where rm: "remove_recursive (entry_path e) w = (y, w3)" by fastforce
  show ?thesis
    using assms op io ok1 ok2 rm remove_recursive_tree [OF rm assms(2)]
    by (auto simp: db_io_op_usr_ent_def split: if_splits)
qed

lemma db_user_exists_tree [frame]:
  "db_user_exists u w = (r, w') \<Longrightarrow> tree_ok k w \<Longrightarrow> tree_ok k w'"
  by (auto simp: db_user_exists_def dest: open_directory_tree split: prod.splits if_splits)

lemma db_init_db_tree [frame]:
  "db_init_db w = (r, w') \<Longrightarrow> tree_ok k w \<Longrightarrow> tree_ok k w'"
  by (auto simp: db_init_db_def dest: open_directory_tree split: prod.splits if_splits)

lemma db_get_pend_msg_tree [frame]:
  assumes "db_get_pend_msg e w = (r, w')" "tree_ok k w"
  shows "tree_ok k w'"
  using assms
  by (auto simp: db_get_pend_msg_def dest!: open_directory_tree [where k = k] str_to_num_tree [where k = k]
        db_io_tree [where k = k]
      split: prod.splits if_splits option.splits)

lemma db_creat_usr_tbl_tree [frame]:
  assumes "db_creat_usr_tbl e w = (r, w')" "tree_ok k w"
  shows "tree_ok k w'"
  using assms
  by (auto simp: db_creat_usr_tbl_def dest!: open_directory_tree db_io_tree split: prod.splits if_splits)

lemma db_del_usr_tbl_tree [frame]:
  "db_del_usr_tbl u w = (r, w') \<Longrightarrow> tree_ok k w \<Longrightarrow> tree_ok k w'"
  by (simp add: db_del_usr_tbl_def remove_recursive_tree)

subsection \<open>services.c\<close>

lemma log_tree [simp]:
  "tree_ok k (log_result op u c w) = tree_ok k w" "tree_ok k (log_sent n s u w) = tree_ok k w"
  "tree_ok k (log_stored n s u w) = tree_ok k w"
  by (simp_all add: log_result_def log_sent_def log_stored_def)

lemma connect_thread_tree [frame]:
  assumes "aux_connect_clt_listen_thread e w = (r, w')" "tree_ok k w"
  shows "tree_ok k w'"
  using assms
  by (auto simp: aux_connect_clt_listen_thread_def dest!: db_io_tree [where k = k] net_tree [where k = k]
      split: prod.splits if_splits)

lemma send_strings_tree [frame]:
  "send_strings d ss w = (r, w') \<Longrightarrow> tree_ok k w \<Longrightarrow> tree_ok k w'"
  by (induction ss arbitrary: w) (auto dest!: send_string_tree [where k = k] split: prod.splits if_splits)

lemma clt_send_message_tree [frame]:
  assumes "clt_send_message q e w = (r, w')" "tree_ok k w"
  shows "tree_ok k w'"
  using assms
  by (auto simp: clt_send_message_def simp del: send_strings.simps
      dest!: connect_thread_tree [where k = k] send_strings_tree [where k = k] split: prod.splits if_splits)

lemma clt_send_mess_ack_tree [frame]:
  assumes "clt_send_mess_ack q e w = (r, w')" "tree_ok k w"
  shows "tree_ok k w'"
  using assms
  by (auto simp: clt_send_mess_ack_def dest!: connect_thread_tree [where k = k] send_string_tree [where k = k]
      split: prod.splits if_splits)

lemma aux_send_first_ack_tree [intro]:
  "tree_ok k w \<Longrightarrow> tree_ok k (aux_send_first_ack d c n w)"
  by (auto simp: aux_send_first_ack_def dest: send_server_reply_tree [where k = k] split: prod.splits)

text \<open>A process whose calls keep the tree, whatever the other processes do between them.\<close>

abbreviation steady :: "(world, 'a) proc \<Rightarrow> bool" where
  "steady p \<equiv> guided (\<lambda>_::unit. tree_ok 0) (\<lambda>w w'. w_next w \<le> w_next w') (\<lambda>_ _. True) () p"

lemma tree_ok_next: "tree_ok 0 w \<Longrightarrow> tree_ok (w_next w) w" "tree_ok (w_next w) w' \<Longrightarrow> tree_ok 0 w'"
  "tree_ok (w_next w) w' \<Longrightarrow> w_next w \<le> w_next w'"
  by (simp_all add: tree_ok_def)

lemma steady_call:
  assumes "\<And>w a w'. f w = (a, w') \<Longrightarrow> tree_ok (w_next w) w \<Longrightarrow> tree_ok (w_next w) w'" "\<And>a. steady (c a)"
  shows "steady (call f c)"
proof (rule guided_call)
  fix w assume "tree_ok 0 w"
  obtain a w' where f: "f w = (a, w')" by fastforce
  have "tree_ok (w_next w) w'" by (rule assms(1) [OF f tree_ok_next(1) [OF \<open>tree_ok 0 w\<close>]])
  then show "\<exists>a w' s'. f w = (a, w') \<and> tree_ok 0 w' \<and> w_next w \<le> w_next w' \<and>
      guided (\<lambda>_::unit. tree_ok 0) (\<lambda>w w'. w_next w \<le> w_next w') (\<lambda>_ _. True) s' (c a)"
    using f assms(2) tree_ok_next(2,3) by blast
qed

lemma steady_act:
  assumes "steady (Act f)" "tree_ok 0 w" "f w = (p, w')"
  shows "tree_ok 0 w'" "w_next w \<le> w_next w'" "steady p"
proof -
  obtain s where "tree_ok 0 (snd (f w))" "w_next w \<le> w_next (snd (f w))"
      "guided (\<lambda>_::unit. tree_ok 0) (\<lambda>w w'. w_next w \<le> w_next w') (\<lambda>_ _. True) s (fst (f w))"
    using assms(1,2) unfolding guided_simps by blast
  then show "tree_ok 0 w'" "w_next w \<le> w_next w'" "steady p" using assms(3) by simp_all
qed

lemma steady_do:
  assumes "\<And>w. tree_ok (w_next w) w \<Longrightarrow> tree_ok (w_next w) (h w)" "steady p"
  shows "steady (do_call h p)"
  unfolding do_call_def using assms by (intro steady_call) auto

lemma steady_run:
  assumes "steady p" "tree_ok 0 w" "run_proc p w = (r, w')"
  shows "tree_ok 0 w'"
  using guided_run [of "\<lambda>_ _. True", OF _ _ _ assms(1,2)] assms(3) by auto

lemma steady_answers [simp]:
  "steady (refuse_steps sock code)" "steady (reply_steps op sock req code)"
  unfolding reply_steps_def refuse_steps_def by (auto intro!: steady_do)

lemma steady_pend: "steady (pend_steps n mr ar s r p)"
  by (induction n arbitrary: mr ar s r p) ((auto simp: Let_def intro!: steady_call steady_do; blast dest: frame))+

lemma steady_services:
  "steady (register_steps g sock req)" "steady (unregister_steps sock req)"
  "steady (disconnect_steps g sock req)"
  by ((auto simp: register_steps_def unregister_steps_def disconnect_steps_def intro!: steady_call; blast dest: frame))+

lemma steady_connect: "steady (connect_steps n g sock req)"
  by ((auto simp: connect_steps_def connect_reply_steps_def forward_steps_def Let_def steady_pend
      intro!: steady_call steady_do; blast dest: frame))+

lemma steady_ack: "steady (ack_steps g sock req reply recipient entry)"
  by ((auto simp: ack_steps_def Let_def intro!: steady_call steady_do; blast dest: frame))+

lemma steady_pass: "steady (pass_steps g sock req recipient)"
  by ((auto simp: pass_steps_def store_steps_def Let_def steady_ack intro!: steady_call steady_do; blast dest: frame))+

lemma steady_send: "steady (send_steps g sock req)"
  by ((auto simp: send_steps_calls steady_pass intro!: steady_call; blast dest: frame))+

lemma steady_service: "steady (service_steps n g sock req)"
  by ((auto simp: service_steps_def recv_name_def recv_port_def recv_content_def Let_def steady_services steady_connect
      steady_send intro!: steady_call; blast dest: frame))+

lemma service_request_tree:
  assumes "service_request g d q w = Some (r, w')" "tree_ok 0 w"
  shows "tree_ok 0 w'"
  using run_service [OF assms(1)] steady_run [OF steady_service assms(2)] by blast

end
