(* ===== verification/ServiceProps.thy ===== *)
theory ServiceProps
  imports Examples TreeInvariant
begin

section \<open>Properties of the services: services.c\<close>

text \<open>
  What each service of the protocol does to the accounts and answers to its client, and where the
  answer depends on memory the code never wrote.
\<close>

lemma example_out [simp]: "w_out (example_world inp) d = []" "w_out (waiting_world inp) d = []"
  by (simp_all add: example_world_def waiting_world_def)

lemma example_code [simp]: "g_code (example_garbage code) v = code"
  by (simp add: example_garbage_def)

lemma served_out: "served sock w w' rest bs \<Longrightarrow> w_out w sock = [] \<Longrightarrow> w_out w' sock = bs"
  by (simp add: served_def)

subsection \<open>Accounts\<close>

text \<open>C17: \<open>REGISTER\<close> of a valid name creates its account and answers 0, or answers 1 and changes nothing
  when the name is taken.\<close>

theorem register_service:
  assumes "db_rep w db" "client w sock" "request_ok rq" "garbage_ok g"
    and "valid_user u" "wire_ok u" "w_in w sock = u @ NUL # rest"
  shows "\<exists>rq' w'. srv_register g sock rq w = (rq', w') \<and>
    served sock w w' rest (reply_byte (if db u = None then SRV_SUCCESS else SRV_ERR_REG_USR_ALREADY_REG)) \<and>
    db_rep w' (if db u = None then db(u \<mapsto> new_account g) else db)"
  using register_new [OF assms] register_taken [OF assms] by (cases "db u = None") auto

lemma register_service_witness:
  "\<exists>rq' w'. srv_register (example_garbage 0) 3 example_request (example_world (\<lambda>_. ''eve'' @ [NUL])) = (rq', w') \<and>
    w_out w' 3 = [NUL] \<and> db_rep w' (example_db(''eve'' \<mapsto> new_account (example_garbage 0)))"
  using register_service [OF example_rep, of "\<lambda>_. ''eve'' @ [NUL]" 3 example_request "example_garbage 0" "''eve''" "[]"]
  by (auto simp: reply_bytes example_db_def dest: served_out)

text \<open>C18: \<open>UNREGISTER\<close> removes the account of the name and answers 0, or answers 1 when there is none.\<close>

theorem unregister_service:
  assumes "db_rep w db" "client w sock" "request_ok rq"
    and "valid_user u" "wire_ok u" "w_in w sock = u @ NUL # rest"
  shows "\<exists>rq' w'. srv_unregister g sock rq w = (rq', w') \<and>
    served sock w w' rest (reply_byte (if db u = None then SRV_ERR_UNREG_USR_NOT_EXISTS else SRV_SUCCESS)) \<and>
    db_rep w' (db(u := None))"
  using unregister_known [OF assms, of g] unregister_unknown [OF assms, of g]
  by (cases "db u = None") (auto simp: fun_upd_idem)

lemma unregister_service_witness:
  "\<exists>rq' w'. srv_unregister (example_garbage 0) 3 example_request (waiting_world (\<lambda>_. ''bob'' @ [NUL])) = (rq', w') \<and>
    w_out w' 3 = [NUL] \<and> db_rep w' [''ann'' \<mapsto> ann_account]"
proof -
  have "waiting_db(''bob'' := None) = [''ann'' \<mapsto> ann_account]"
    by (auto simp: waiting_db_def example_db_def)
  then show ?thesis
    using unregister_service [OF waiting_rep, of "\<lambda>_. ''bob'' @ [NUL]" 3 example_request "''bob''" "[]" "example_garbage 0"]
    by (auto simp: reply_bytes waiting_db_def dest: served_out)
qed

text \<open>C6: \<open>DISCONNECT\<close> marks a user that is not disconnected as disconnected, forgets its address and answers 0;
  it answers 2 when the user is disconnected and 1 when there is no such user, and changes nothing.\<close>

theorem disconnect_service_refines:
  assumes "db_rep w db" "client w sock" "request_ok rq" "garbage_ok g"
    and "valid_user u" "wire_ok u" "w_in w sock = u @ NUL # rest"
  shows "\<exists>rq' w'. srv_disconnect g sock rq w = (rq', w') \<and> (case db u of
      None \<Rightarrow> served sock w w' rest (reply_byte SRV_ERR_DCN_USR_NOT_EXISTS) \<and> db_rep w' db
    | Some a \<Rightarrow> if a_status a = STATUS_DCN then served sock w w' rest (reply_byte SRV_ERR_DCN_USR_NOT_CN) \<and> db_rep w' db
        else served sock w w' rest (reply_byte SRV_SUCCESS) \<and>
          db_rep w' (db(u \<mapsto> a\<lparr>a_status := STATUS_DCN, a_ip := 0, a_port := 0\<rparr>)))"
  using disconnect_service [OF assms]
  by (cases "db u") (auto simp: disconnect_outcome_def fun_upd_idem split: if_splits)

lemma disconnect_service_refines_witness:
  "\<exists>rq' w'. srv_disconnect (example_garbage 0) 3 example_request (example_world (\<lambda>_. ''ann'' @ [NUL])) = (rq', w') \<and>
    w_out w' 3 = [NUL] \<and> db_rep w' (example_db(''ann'' \<mapsto> ann_account\<lparr>a_status := STATUS_DCN, a_ip := 0, a_port := 0\<rparr>))"
  using disconnect_service_refines [OF example_rep, of "\<lambda>_. ''ann'' @ [NUL]" 3 example_request "example_garbage 0" "''ann''" "[]"]
  by (auto simp: reply_bytes example_db_def ann_account_def dest: served_out)

subsection \<open>Connecting\<close>

text \<open>C11: \<open>CONNECT\<close> of a disconnected user whose client listens records its address, answers 0, and
  forwards every pending message to it, after which none is pending; it needs the byte that
  \<open>srv_connect\<close> leaves uninitialised to differ from 3.\<close>

theorem connect_delivers_pending:
  assumes "db_rep w db" "client w sock" "request_ok rq" "garbage_ok g"
    and "valid_user u" "wire_ok u" "w_in w sock = u @ NUL # show_u p @ NUL # rest"
    and "db u = Some a" "a_status a \<noteq> STATUS_CN" "g_code g ''connect.reply'' \<noteq> SRV_ERR_CN_ANY"
    and "w_accepts w (w_peer_ip w sock) (ucast p)"
  shows "\<exists>rq' w'. srv_connect g sock rq w = Some (rq', w') \<and>
    served sock w w' rest (reply_byte SRV_SUCCESS) \<and>
    db_rep w' (db(u \<mapsto> a\<lparr>a_status := STATUS_CN, a_ip := w_peer_ip w sock, a_port := ucast p,
      a_pend := Map.empty\<rparr>)) \<and>
    (\<forall>n m. a_pend a n = Some m \<longrightarrow>
       delivered w w' (w_peer_ip w sock) (ucast p) (message_bytes (fst m) n (snd m)))"
  by (rule connect_service [OF assms])

lemma connect_delivers_pending_witness:
  "\<exists>rq' w'. srv_connect (example_garbage 0) 4 example_request
      (waiting_world (\<lambda>_. ''bob'' @ NUL # show_u 7001 @ [NUL])) = Some (rq', w') \<and>
    w_out w' 4 = [NUL] \<and>
    delivered (waiting_world (\<lambda>_. ''bob'' @ NUL # show_u 7001 @ [NUL])) w' 16777343 7001
      (message_bytes ''ann'' 9 ''hi'')"
  using connect_delivers_pending [OF waiting_rep, of "\<lambda>_. ''bob'' @ NUL # show_u 7001 @ [NUL]" 4 example_request
        "example_garbage 0" "''bob''" 7001 "[]"]
    by (fastforce simp: reply_bytes waiting_db_def bob_account_def
        dest: served_out)


text \<open>C8: forwarding the pending messages of a user whose client listens ends, delivers every one of
  them to that client, sends the sender of each an acknowledgement when it listens, and leaves none.\<close>

theorem pending_messages_delivered:
  assumes "db_rep w db" "valid_user u" "db u = Some a" "listening w a"
    and "e_username p = u" "e_type p = ENT_TYPE_P_MSG" "entry_ok p" "garbage_ok g"
  shows "\<exists>w'. aux_connect_send_pend_msgs g p w = Some (SRV_SUCCESS, w') \<and>
    db_rep w' (db(u \<mapsto> a\<lparr>a_pend := Map.empty\<rparr>)) \<and>
    (\<forall>n m. a_pend a n = Some m \<longrightarrow> delivered w w' (a_ip a) (a_port a) (message_bytes (fst m) n (snd m))) \<and>
    (\<forall>n m b. a_pend a n = Some m \<longrightarrow> db (fst m) = Some b \<longrightarrow> listening w b \<longrightarrow>
       delivered w w' (a_ip b) (a_port b) (ack_bytes n))"
  using send_pend_msgs_refines [OF assms] by blast

definition reachable_bob :: account where
  "reachable_bob = bob_account\<lparr>a_status := STATUS_CN, a_ip := 5, a_port := 7001\<rparr>"

lemma pending_messages_delivered_witness:
  "\<exists>w w'. aux_connect_send_pend_msgs (example_garbage 0) (example_message ''bob'' 0 (''bob'', [])) w =
      Some (SRV_SUCCESS, w') \<and>
    delivered w w' 5 7001 (message_bytes ''ann'' 2 ''hi'') \<and> delivered w w' 16777343 7000 (ack_bytes 2)"
proof -
  define w where "w = add_message ''bob'' 2 (''ann'', ''hi'') (add_user ''bob'' reachable_bob
    (add_user ''ann'' ann_account (base_world (\<lambda>_. []))))"
  let ?db = "[''ann'' \<mapsto> ann_account, ''bob'' \<mapsto> reachable_bob]"
  have rep: "db_rep w (?db(''bob'' \<mapsto> reachable_bob\<lparr>a_pend := [2 \<mapsto> (''ann'', ''hi'')]\<rparr>))"
    using db_rep_add_message [OF db_rep_add_user [OF db_rep_add_user [OF base_world_ok]],
        of "''ann''" ann_account "''bob''" reachable_bob "''bob''" reachable_bob 2 "(''ann'', ''hi'')" "\<lambda>_. []"]
    by (simp add: w_def reachable_bob_def ann_account_def bob_account_def fits_array_def)
  define a where "a = reachable_bob\<lparr>a_pend := [2 \<mapsto> (''ann'', ''hi'')]\<rparr>"
  have p: "msg_entry ''bob'' 0 (''bob'', []) (example_message ''bob'' 0 (''bob'', []))"
    by (simp add: example_message_entry fits_array_def)
  have acc: "w_accepts w = (\<lambda>ip _. ip \<noteq> 0)"
    by (simp add: w_def base_world_def)
  have users: "(?db(''bob'' \<mapsto> a)) ''bob'' = Some a" "(?db(''bob'' \<mapsto> a)) ''ann'' = Some ann_account"
    by simp_all
  have fields: "a_ip a = 5" "a_port a = 7001" "a_pend a 2 = Some (''ann'', ''hi'')"
      "a_ip ann_account = 16777343" "a_port ann_account = 7000"
    by (simp_all add: a_def reachable_bob_def ann_account_def)
  have ready: "db_rep w (?db(''bob'' \<mapsto> a))" "listening w a" "listening w ann_account"
    using rep by (simp_all add: a_def [symmetric] acc fields)
  obtain w' where w': "aux_connect_send_pend_msgs (example_garbage 0) (example_message ''bob'' 0 (''bob'', [])) w =
        Some (SRV_SUCCESS, w')"
      "delivered w w' (a_ip a) (a_port a) (message_bytes ''ann'' 2 ''hi'')"
      "delivered w w' (a_ip ann_account) (a_port ann_account) (ack_bytes 2)"
    using pending_messages_delivered [OF ready(1) example_users(2) users(1) ready(2) msg_entry_facts(2,3,1) [OF p]
        example_garbage_ok [of 0]] users(2) ready(3) fields(3) by fastforce
  then show ?thesis
    by (auto simp: fields)
qed

subsection \<open>Sending\<close>

text \<open>C9: a message to a user that is not connected is stored under the next message number, which is
  the number answered to the sender, and nothing stored before is lost.\<close>

theorem send_offline_stores:
  assumes "db_rep w db" "client w sock" "request_ok rq" "garbage_ok g"
    and "valid_user u" "db u = Some a" "valid_user s" "db s = Some b" "wire_ok s" "wire_ok u" "wire_ok m"
    and "w_in w sock = s @ NUL # u @ NUL # m @ NUL # rest"
    and "a_status a = STATUS_DCN" "n = next_msg_id (a_last a)" "a_pend a n = None"
  shows "\<exists>rq' w'. srv_send g sock rq w = (rq', w') \<and>
    served sock w w' rest (reply_byte SRV_SUCCESS @ show_u n @ [NUL]) \<and>
    db_rep w' (db(u \<mapsto> a\<lparr>a_last := n, a_pend := (a_pend a)(n \<mapsto> (s, m))\<rparr>))"
  using send_service [OF assms(1-12)] assms(13-15)
  by (auto simp: send_outcome_def passed_account_def stores_def Let_def)

lemma send_offline_stores_witness:
  "\<exists>rq' w'. srv_send (example_garbage 0) 3 example_request
      (example_world (\<lambda>_. ''ann'' @ NUL # ''bob'' @ NUL # ''hi'' @ [NUL])) = (rq', w') \<and>
    db_rep w' (example_db(''bob'' \<mapsto> bob_account\<lparr>a_last := 10, a_pend := [10 \<mapsto> (''ann'', ''hi'')]\<rparr>))"
proof -
  have "next_msg_id (a_last bob_account) = 10"
    by (simp add: next_msg_id_def bob_account_def MSG_ID_MAX_VALUE_def)
  then show ?thesis
    using send_offline_stores [OF example_rep, of "\<lambda>_. ''ann'' @ NUL # ''bob'' @ NUL # ''hi'' @ [NUL]" 3
        example_request "example_garbage 0" "''bob''" bob_account "''ann''" ann_account "''hi''" "[]" 10]
    by (auto simp: example_db_def bob_account_def)
qed

text \<open>C10: a message to a connected user whose client listens is delivered to it, answered with its
  number and not stored, and the sender's client gets the acknowledgement when it listens; it needs
  the byte that \<open>srv_send\<close> leaves uninitialised to be 0.\<close>

theorem send_online_delivers:
  assumes "db_rep w db" "client w sock" "request_ok rq" "garbage_ok g"
    and "valid_user u" "db u = Some a" "valid_user s" "db s = Some b" "wire_ok s" "wire_ok u" "wire_ok m"
    and "w_in w sock = s @ NUL # u @ NUL # m @ NUL # rest"
    and "a_status a = STATUS_CN" "listening w a" "n = next_msg_id (a_last a)"
    and "g_code g ''send.send_msg_reply'' = SRV_SUCCESS"
  shows "\<exists>rq' w'. srv_send g sock rq w = (rq', w') \<and>
    served sock w w' rest (reply_byte SRV_SUCCESS @ show_u n @ [NUL]) \<and>
    delivered w w' (a_ip a) (a_port a) (message_bytes s n m) \<and>
    (listening w b \<longrightarrow> delivered w w' (a_ip b) (a_port b) (ack_bytes n)) \<and>
    db_rep w' (db(u \<mapsto> a\<lparr>a_last := n\<rparr>))"
  using send_service [OF assms(1-12)] assms(13-16)
  by (auto simp: send_outcome_def passed_account_def stores_def Let_def)

lemma send_online_delivers_witness:
  "\<exists>rq' w'. srv_send (example_garbage 0) 3 example_request
      (example_world (\<lambda>_. ''bob'' @ NUL # ''ann'' @ NUL # ''hi'' @ [NUL])) = (rq', w') \<and>
    delivered (example_world (\<lambda>_. ''bob'' @ NUL # ''ann'' @ NUL # ''hi'' @ [NUL])) w' 16777343 7000
      (message_bytes ''bob'' 5 ''hi'')"
proof -
  have "next_msg_id (a_last ann_account) = 5"
    by (simp add: next_msg_id_def ann_account_def MSG_ID_MAX_VALUE_def)
  then show ?thesis
    using send_online_delivers [OF example_rep, of "\<lambda>_. ''bob'' @ NUL # ''ann'' @ NUL # ''hi'' @ [NUL]" 3
        example_request "example_garbage 0" "''ann''" ann_account "''bob''" bob_account "''hi''" "[]" 5]
    by (auto simp: example_db_def ann_account_def)
qed

text \<open>C19: when the client of a connected user refuses the connection, the user is marked disconnected
  and the message is stored for it, and the sender is answered with the number.\<close>

theorem send_refused_stores:
  assumes "db_rep w db" "client w sock" "request_ok rq" "garbage_ok g"
    and "valid_user u" "db u = Some a" "valid_user s" "db s = Some b" "wire_ok s" "wire_ok u" "wire_ok m"
    and "w_in w sock = s @ NUL # u @ NUL # m @ NUL # rest"
    and "a_status a = STATUS_CN" "\<not> listening w a" "n = next_msg_id (a_last a)" "a_pend a n = None"
  shows "\<exists>rq' w'. srv_send g sock rq w = (rq', w') \<and>
    served sock w w' rest (reply_byte SRV_SUCCESS @ show_u n @ [NUL]) \<and>
    db_rep w' (db(u \<mapsto> a\<lparr>a_last := n, a_status := STATUS_DCN, a_pend := (a_pend a)(n \<mapsto> (s, m))\<rparr>))"
  using send_service [OF assms(1-12)] assms(13-16)
  by (auto simp: send_outcome_def passed_account_def stores_def Let_def)

lemma send_refused_stores_witness:
  "\<exists>rq' w' db'. srv_send (example_garbage 7) 3 example_request
      ((example_world (\<lambda>_. ''bob'' @ NUL # ''ann'' @ NUL # ''hi'' @ [NUL]))\<lparr>w_accepts := (\<lambda>_ _. False)\<rparr>) =
      (rq', w') \<and> db_rep w' db' \<and> (\<exists>a. db' ''ann'' = Some a \<and> a_pend a 5 = Some (''bob'', ''hi''))"
proof -
  let ?w = "(example_world (\<lambda>_. ''bob'' @ NUL # ''ann'' @ NUL # ''hi'' @ [NUL]))\<lparr>w_accepts := (\<lambda>_ _. False)\<rparr>"
  have n: "next_msg_id (a_last ann_account) = 5"
    by (simp add: next_msg_id_def ann_account_def MSG_ID_MAX_VALUE_def)
  have "calm (example_world inp)" "fresh_fds (example_world inp)" for inp
    using example_rep [of inp] by (simp_all add: db_rep_def world_ok_def)
  then have rep: "db_rep ?w example_db"
    using db_rep_cong [OF example_rep [of "\<lambda>_. ''bob'' @ NUL # ''ann'' @ NUL # ''hi'' @ [NUL]"], of ?w]
    by (simp add: fresh_fds_def)
  have "client ?w 3"
    using example_world_fields(3) by (simp add: client_def)
  then show ?thesis
    using send_refused_stores [OF rep, of 3 example_request "example_garbage 7" "''ann''" ann_account
        "''bob''" bob_account "''hi''" "[]" 5] n
    by (fastforce simp: example_db_def ann_account_def)
qed


subsection \<open>Answers that depend on memory never written\<close>

text \<open>C16: \<open>CONNECT\<close> of a user that is not connected, with a valid port, fails when the uninitialised byte
  \<open>reply.server_error_code\<close> of \<open>srv_connect\<close> happens to hold 3: the client is told so and its
  user stays unconnected, though no call failed.\<close>

theorem connect_fails_on_garbage:
  assumes "db_rep w db" "client w sock" "request_ok rq" "garbage_ok g"
    and "valid_user u" "wire_ok u" "w_in w sock = u @ NUL # show_u p @ NUL # rest"
    and "db u = Some a" "a_status a \<noteq> STATUS_CN" "g_code g ''connect.reply'' = SRV_ERR_CN_ANY"
  shows "\<exists>rq' w' a'. srv_connect g sock rq w = Some (rq', w') \<and>
    served sock w w' rest (reply_byte SRV_ERR_CN_ANY) \<and> db_rep w' (db(u \<mapsto> a')) \<and>
    a_status a' \<noteq> STATUS_CN \<and> a_ip a' = a_ip a \<and> a_port a' = a_port a"
proof -
  let ?a = "pend_outcome (w_accepts w) a"
  have "connect_outcome g (w_accepts w) (w_peer_ip w sock) p (db u) = (SRV_ERR_CN_ANY, Some ?a)"
    using assms(8-10) by (simp add: connect_outcome_def)
  moreover have "a_status ?a \<noteq> STATUS_CN" "a_ip ?a = a_ip a" "a_port ?a = a_port a"
    using assms(9) by (simp_all add: pend_outcome_def)
  ultimately show ?thesis
    using connect_service_outcome [OF assms(1-7)] by fastforce
qed

lemma connect_fails_on_garbage_witness:
  "\<exists>rq' w'. srv_connect (example_garbage 3) 4 example_request
      (example_world (\<lambda>_. ''bob'' @ NUL # show_u 7001 @ [NUL])) = Some (rq', w') \<and> w_out w' 4 = [CHR 0x03]"
  using connect_fails_on_garbage [OF example_rep, of "\<lambda>_. ''bob'' @ NUL # show_u 7001 @ [NUL]" 4 example_request
      "example_garbage 3" "''bob''" 7001 "[]" bob_account]
  by (fastforce simp: reply_bytes example_db_def bob_account_def dest: served_out)

lemma served_other:
  assumes "served c w w' rest bs" "client w d" "c \<noteq> d"
  shows "client w' d" "w_in w' d = w_in w d" "w_out w' d = w_out w d"
proof -
  have e: "effects {c} w w'" using assms(1) by (simp add: served_def)
  have "\<not> new_fd w w' d" using assms(2) by (auto simp: new_fd_def client_def)
  then show "client w' d" "w_in w' d = w_in w d" "w_out w' d = w_out w d"
    using effects_fields(6-9) [OF e] assms(2,3) by (auto simp: client_def)
qed

text \<open>C34: \<open>srv_register\<close> leaves the status of a new account to whatever the memory held; when that is
  neither 0 nor 1, and the uninitialised \<open>send_msg_reply\<close> of \<open>srv_send\<close> is 0, a message sent to the new
  user is answered with success and is neither stored nor is the user ever marked disconnected.\<close>

theorem message_to_new_user_lost:
  assumes "db_rep w db" "client w c" "client w d" "c \<noteq> d" "request_ok rq1" "request_ok rq2"
    and "garbage_ok g1" "garbage_ok g2" "valid_user u" "wire_ok u" "db u = None"
    and "valid_user s" "wire_ok s" "db s = Some b" "wire_ok m"
    and "w_in w c = u @ [NUL]" "w_in w d = s @ NUL # u @ NUL # m @ [NUL]"
    and junk: "e_status (g_entry g1 ''register.entry'') \<notin> {STATUS_CN, STATUS_DCN}"
      "g_code g2 ''send.send_msg_reply'' = SRV_SUCCESS"
  shows "\<exists>r1 w1 r2 w2 a. srv_register g1 c rq1 w = (r1, w1) \<and> srv_send g2 d rq2 w1 = (r2, w2) \<and>
    w_out w2 d = w_out w d @ reply_byte SRV_SUCCESS @ show_u 1 @ [NUL] \<and>
    db_rep w2 (db(u \<mapsto> a)) \<and> a_pend a = Map.empty \<and> a_status a \<noteq> STATUS_DCN"
proof -
  obtain r1 w1 where w1: "srv_register g1 c rq1 w = (r1, w1)" "served c w w1 [] (reply_byte SRV_SUCCESS)"
      "db_rep w1 (db(u \<mapsto> new_account g1))"
    using register_new [OF assms(1,2,5,7,9,10) _ assms(11), of "[]"] assms(16) by auto
  have d: "client w1 d" "w_in w1 d = s @ NUL # u @ NUL # m @ NUL # []" "w_out w1 d = w_out w d"
    using served_other [OF w1(2) assms(3,4)] assms(17) by simp_all
  have "s \<noteq> u" using assms(11,14) by auto
  then have known: "(db(u \<mapsto> new_account g1)) s = Some b" using assms(14) by simp
  have n: "next_msg_id 0 = 1"
    by (simp add: next_msg_id_def MSG_ID_MAX_VALUE_def)
  have a: "a_status (new_account g1) \<notin> {STATUS_CN, STATUS_DCN}" "a_pend (new_account g1) = Map.empty"
      "a_last (new_account g1) = 0"
    using junk(1) by (simp_all add: new_account_def entry_account_def)
  have "send_outcome g2 (w_accepts w1) s m (new_account g1) = (SRV_SUCCESS, new_account g1\<lparr>a_last := 1\<rparr>)"
    using a junk(2) n by (simp add: send_outcome_def passed_account_def stores_def)
  then show ?thesis
    using send_service [OF w1(3) d(1) assms(6,8,9) _ assms(12) known assms(13,10,15) d(2), of "new_account g1"]
      w1(1) a n d(3) by (fastforce simp: served_def)
qed

lemma message_to_new_user_lost_witness:
  "\<exists>r1 w1 r2 w2 a.
    srv_register ((example_garbage 0)\<lparr>g_entry := \<lambda>_. example_entry ''x'' (bob_account\<lparr>a_status := 7\<rparr>)\<rparr>) 3 example_request
      (example_world (\<lambda>d. if d = 3 then ''eve'' @ [NUL] else ''ann'' @ NUL # ''eve'' @ NUL # ''hi'' @ [NUL])) = (r1, w1) \<and>
    srv_send (example_garbage 0) 4 example_request w1 = (r2, w2) \<and>
    w_out w2 4 = NUL # show_u 1 @ [NUL] \<and> db_rep w2 (example_db(''eve'' \<mapsto> a)) \<and> a_pend a = Map.empty"
proof -
  let ?g = "(example_garbage 0)\<lparr>g_entry := \<lambda>_. example_entry ''x'' (bob_account\<lparr>a_status := 7\<rparr>)\<rparr>"
  let ?inp = "\<lambda>d. if d = (3::int) then ''eve'' @ [NUL] else ''ann'' @ NUL # ''eve'' @ NUL # ''hi'' @ [NUL]"
  have "valid_user ''x''" by (simp add: valid_user_def)
  then have e: "user_entry ''x'' (example_entry ''x'' (bob_account\<lparr>a_status := 7\<rparr>)) (bob_account\<lparr>a_status := 7\<rparr>)"
    by (rule example_entry_account)
  have g: "garbage_ok ?g" "e_status (g_entry ?g v) = 7" for v
    using user_entry_facts(1,4) [OF e] by (simp_all add: garbage_ok_def)
  show ?thesis
    using message_to_new_user_lost [OF example_rep [of ?inp], of 3 4 example_request example_request ?g
        "example_garbage 0" "''eve''" "''ann''" ann_account "''hi''"] g
    by (fastforce simp: example_db_def reply_bytes)
qed

text \<open>C35: when \<open>send_msg_reply\<close> happens to differ from 0, a message that was delivered to a connected
  user is stored for it as well, to be delivered again.\<close>

theorem delivered_message_stored_again:
  assumes "db_rep w db" "client w sock" "request_ok rq" "garbage_ok g"
    and "valid_user u" "db u = Some a" "valid_user s" "db s = Some b" "wire_ok s" "wire_ok u" "wire_ok m"
    and "w_in w sock = s @ NUL # u @ NUL # m @ NUL # rest"
    and "a_status a = STATUS_CN" "listening w a" "n = next_msg_id (a_last a)" "a_pend a n = None"
    and "g_code g ''send.send_msg_reply'' \<noteq> SRV_SUCCESS"
  shows "\<exists>rq' w'. srv_send g sock rq w = (rq', w') \<and>
    delivered w w' (a_ip a) (a_port a) (message_bytes s n m) \<and>
    db_rep w' (db(u \<mapsto> a\<lparr>a_last := n, a_pend := (a_pend a)(n \<mapsto> (s, m))\<rparr>))"
  using send_service [OF assms(1-12)] assms(13-17)
  by (auto simp: send_outcome_def passed_account_def stores_def Let_def)

lemma delivered_message_stored_again_witness:
  "\<exists>rq' w'. srv_send (example_garbage 7) 3 example_request
      (example_world (\<lambda>_. ''bob'' @ NUL # ''ann'' @ NUL # ''hi'' @ [NUL])) = (rq', w') \<and>
    delivered (example_world (\<lambda>_. ''bob'' @ NUL # ''ann'' @ NUL # ''hi'' @ [NUL])) w' 16777343 7000
      (message_bytes ''bob'' 5 ''hi'') \<and>
    db_rep w' (example_db(''ann'' \<mapsto> ann_account\<lparr>a_last := 5, a_pend := [5 \<mapsto> (''bob'', ''hi'')]\<rparr>))"
proof -
  have "next_msg_id (a_last ann_account) = 5"
    by (simp add: next_msg_id_def ann_account_def MSG_ID_MAX_VALUE_def)
  then show ?thesis
    using delivered_message_stored_again [OF example_rep, of "\<lambda>_. ''bob'' @ NUL # ''ann'' @ NUL # ''hi'' @ [NUL]" 3
        example_request "example_garbage 7" "''ann''" ann_account "''bob''" bob_account "''hi''" "[]" 5]
    by (auto simp: example_db_def ann_account_def)
qed


subsection \<open>Names\<close>

lemma long_name_unresolved:
  assumes "world_ok w" "CHR ''/'' \<notin> set u" "249 < length u"
  shows "resolve w (user_table_path u) = Inl ENAMETOOLONG"
proof -
  have "split_path (user_table_path u) = [DB_DIR, u @ ''-table'']"
    using assms(2) split_path_slash [of DB_DIR "u @ ''-table''"] split_path_simple [of "u @ ''-table''"]
    by (simp add: user_table_path_def DB_DIR_def)
  then show ?thesis
    using world_ok_dirs [OF assms(1)] assms(3)
    by (simp add: resolve_def user_table_path_def DB_DIR_def NAME_MAX_def)
qed

lemma long_name_open:
  assumes "world_ok w" "CHR ''/'' \<notin> set u" "249 < length u" "mode = READ \<or> mode = CREATE"
  shows "open_directory (user_table_path u) mode w = ((DBMS_ERR_ANY, None), w\<lparr>w_errno := ENAMETOOLONG\<rparr>)"
proof -
  have "calm w" using assms(1) by (simp add: world_ok_def)
  moreover have "resolve (clear_errno w) (user_table_path u) = Inl ENAMETOOLONG"
    using long_name_unresolved [OF assms(1-3)] resolve_cong [of "clear_errno w" w] by (simp add: clear_errno_def)
  ultimately show ?thesis
    using assms(4) by (auto simp: open_directory_def opendir_unresolved clear_errno_def)
qed

text \<open>C23: \<open>REGISTER\<close> of a name of 250 to 255 bytes without a slash, whose table name is too long for the file system,
  answers success and creates nothing: \<open>srv_register\<close> reports only \<open>DBMS_ERR_EXISTS\<close>.\<close>

theorem register_long_name_answers_success:
  assumes "db_rep w db" "client w sock" "request_ok rq" "garbage_ok g"
    and "wire_ok u" "CHR ''/'' \<notin> set u" "249 < length u" "w_in w sock = u @ NUL # rest"
  shows "\<exists>rq' w'. srv_register g sock rq w = (rq', w') \<and>
    served sock w w' rest (reply_byte SRV_SUCCESS) \<and> db_rep w' db \<and> fst (db_user_exists u w') = DBMS_ERR_ANY"
proof -
  obtain w1 where w1: "recv_string sock (rq_username rq) w = ((0, strcpy_buf u (rq_username rq)), w1)"
      "served sock w w1 rest []" "db_rep w1 db" "client w1 sock"
    using receive [OF assms(1,2) _ assms(5,8), of "rq_username rq"] assms(3) by (auto simp: request_ok_def)
  let ?e = "set_e_last_msg_id 0 (set_e_type ENT_TYPE_UD (set_e_username u (g_entry g ''register.entry'')))"
  have u: "NUL \<notin> set u" "fits_array 512 u"
    using assms(5) by (auto simp: wire_ok_def fits_array_def MAX_MSG_SIZE_def)
  then have "e_username ?e = u"
    using assms(4) by (simp add: cmem)
  then have "db_creat_usr_tbl ?e w1 = ((DBMS_ERR_ANY, ?e), w1\<lparr>w_errno := ENAMETOOLONG\<rparr>)"
    using long_name_open [OF _ assms(6,7)] w1(3) by (simp add: db_creat_usr_tbl_def db_rep_def)
  moreover obtain w' where w': "send_server_reply sock SRV_SUCCESS
        (log_result REGISTER u SRV_SUCCESS (w1\<lparr>w_errno := ENAMETOOLONG\<rparr>)) = (0, w')"
      "served sock w w' rest (reply_byte SRV_SUCCESS)" "db_rep w' db"
    using answer [OF w1(2,4) effects_quiet(2)] w1(3) by (metis db_rep_simps(2))
  ultimately have "srv_register g sock rq w = (rq\<lparr>rq_username := strcpy_buf u (rq_username rq)\<rparr>, w')"
    using w1(1) u(1) by (simp add: srv_register_def Let_def)
  moreover have "fst (db_user_exists u w') = DBMS_ERR_ANY"
    using long_name_open [OF _ assms(6,7)] w'(3) by (simp add: db_user_exists_def db_rep_def)
  ultimately show ?thesis
    using w'(2,3) by blast
qed

lemma register_long_name_answers_success_witness:
  "\<exists>rq' w'. srv_register (example_garbage 0) 3 example_request
      (example_world (\<lambda>_. replicate 250 CHR ''x'' @ [NUL])) = (rq', w') \<and>
    w_out w' 3 = [NUL] \<and> db_rep w' example_db"
proof -
  have "wire_ok (replicate 250 CHR ''x'')"
    by (simp only: wire_ok_def length_replicate set_replicate_conv_if MAX_MSG_SIZE_def) simp
  then show ?thesis
    using register_long_name_answers_success [OF example_rep example_world_fields(3) example_request_ok(1)
        example_garbage_ok, of "replicate 250 CHR ''x''" "\<lambda>_. replicate 250 CHR ''x'' @ [NUL]" "[]" 0]
      served_out [OF _ example_out(1)] reply_bytes(1) by fastforce
qed

subsection \<open>A connection that sends nothing\<close>

lemma recv_closed:
  assumes "db_rep w db" "client w sock" "w_in w sock = []" "MAX_MSG_SIZE \<le> length buf"
  shows "recv_string sock buf w = ((0, buf), clear_errno w)"
proof -
  have "calm w" "w_fds w sock = Some SockD"
    using client_calm [OF assms(1,2)] by simp_all
  then have "recv_string sock buf w = ((0, buf), (clear_errno w)\<lparr>w_in := (w_in w)(sock := [])\<rparr>)"
    using recv_string_soft [of w sock buf] assms(3,4)
    by (auto simp: line_result_def clear_errno_def dest!: noise_calm)
  moreover have "(w_in w)(sock := []) = w_in w"
    using assms(3) by (simp add: fun_upd_idem)
  ultimately show ?thesis
    by (simp add: clear_errno_def)
qed

text \<open>C36: a connection closed without sending a byte is served with what the memory of \<open>request\<close>, which
  \<open>service_thread\<close> does not initialise, still holds: after a \<open>SEND\<close> by the same thread, the message
  is sent again.\<close>

theorem silent_client_repeats_send:
  assumes "db_rep w db" "client w sock" "w_in w sock = []"
    and "request_ok rq" "MAX_MSG_SIZE \<le> length (rq_op_code rq)" "cstr (rq_op_code rq) = SEND"
    and "cstr (rq_message_sender rq) = s" "cstr (rq_recipient rq) = u" "cstr (rq_message_content rq) = m"
    and "garbage_ok g" "valid_user u" "db u = Some a" "valid_user s" "db s = Some b" "fits_array 256 m"
    and "a_status a = STATUS_DCN" "n = next_msg_id (a_last a)" "a_pend a n = None"
  shows "\<exists>w'. service_request g sock rq w = Some (rq, w') \<and>
    w_out w' sock = w_out w sock @ reply_byte SRV_SUCCESS @ show_u n @ [NUL] \<and>
    db_rep w' (db(u \<mapsto> a\<lparr>a_last := n, a_pend := (a_pend a)(n \<mapsto> (s, m))\<rparr>))"
proof -
  let ?w = "clear_errno w"
  have quiet: "db_rep ?w db" "client ?w sock" "w_in ?w sock = []" "clear_errno ?w = ?w"
    using assms(1-3) db_rep_simps(2) by (simp_all add: clear_errno_def client_def)
  have len: "MAX_MSG_SIZE \<le> length (rq_client_port rq)" "MAX_MSG_SIZE \<le> length (rq_username rq)"
      "MAX_MSG_SIZE \<le> length (rq_message_content rq)"
    using assms(4) by (simp_all add: request_ok_def)
  have "srv_send g sock rq ?w = (rq, send_to_user g sock rq ?w)"
    by (simp add: srv_send_def recv_closed [OF quiet(1-3)] len quiet(4))
  then have "service_request g sock rq w = Some (rq, send_to_user g sock rq ?w)"
    using assms(6) by (simp add: service_request_def recv_closed [OF assms(1-3,5)]
        SEND_def REGISTER_def UNREGISTER_def CONNECT_def DISCONNECT_def)
  moreover have "w_out ?w = w_out w" by (simp add: clear_errno_def)
  ultimately show ?thesis
    using send_to_known [OF quiet(1,2) assms(11-15,10,7-9)] assms(16-18)
    by (auto simp: served_def send_outcome_def passed_account_def stores_def Let_def)
qed


lemma silent_client_repeats_send_witness:
  "\<exists>rq w'. service_request (example_garbage 0) 3 rq (example_world (\<lambda>_. [])) = Some (rq, w') \<and>
    w_out w' 3 = NUL # show_u 10 @ [NUL]"
proof -
  define rq where "rq = \<lparr>rq_op_code = strcpy_buf SEND (zeros MAX_STR_SIZE),
    rq_username = strcpy_buf ''bob'' (zeros MAX_STR_SIZE), rq_client_port = strcpy_buf ''ann'' (zeros MAX_STR_SIZE),
    rq_message_id = 0, rq_message_content = strcpy_buf ''hi'' (zeros MAX_MSG_SIZE)\<rparr>"
  have "request_ok rq" "MAX_MSG_SIZE \<le> length (rq_op_code rq)"
    by (simp_all add: request_ok_def rq_def MAX_STR_SIZE_def MAX_MSG_SIZE_def SEND_def)
  moreover have "next_msg_id (a_last bob_account) = 10"
    by (simp add: next_msg_id_def bob_account_def MSG_ID_MAX_VALUE_def)
  moreover have "cstr (rq_op_code rq) = SEND" "cstr (rq_message_sender rq) = ''ann''"
      "cstr (rq_recipient rq) = ''bob''" "cstr (rq_message_content rq) = ''hi''"
    by (simp_all add: rq_def SEND_def)
  ultimately have "\<exists>w'. service_request (example_garbage 0) 3 rq (example_world (\<lambda>_. [])) = Some (rq, w') \<and>
      w_out w' 3 = NUL # show_u 10 @ [NUL]"
    using silent_client_repeats_send [OF example_rep [of "\<lambda>_. []"], of 3 rq "''ann''" "''bob''" "''hi''"
        "example_garbage 0" bob_account ann_account 10]
    by (auto simp: example_db_def bob_account_def fits_array_def reply_bytes)
  then show ?thesis by blast
qed

subsection \<open>Names that are paths\<close>

text \<open>C37: a user name is pasted into a path unchecked: a name that starts with \<open>../\<close> names a directory
  beside the database, and \<open>db_user_exists\<close> takes that directory for a user.\<close>

theorem user_name_leaves_database:
  assumes "world_ok w" "plain_name (v @ ''-table'')" "look (w_files w) (w_cwd w @ [v @ ''-table'']) = Some DirI"
  shows "resolve w (user_table_path (''../'' @ v)) = Inr (w_cwd w @ [v @ ''-table'']) \<and>
    \<not> prefix (db_root w) (w_cwd w @ [v @ ''-table'']) \<and>
    fst (db_user_exists (''../'' @ v) w) = 1"
proof -
  have path: "user_table_path (''../'' @ v) = DB_DIR @ CHR ''/'' # ''..'' @ CHR ''/'' # v @ ''-table''"
    by (simp add: user_table_path_def)
  have "split_path (user_table_path (''../'' @ v)) = [DB_DIR, ''..'', v @ ''-table'']"
    unfolding path using assms(2)
    by (subst split_path_slash, simp add: DB_DIR_def, subst split_path_slash, simp, subst split_path_simple)
      (auto simp: plain_name_def)
  then have res: "resolve w (user_table_path (''../'' @ v)) = Inr (w_cwd w @ [v @ ''-table''])"
    using world_ok_dirs [OF assms(1)] assms(2)
    by (simp add: resolve_def user_table_path_def DB_DIR_def NAME_MAX_def plain_name_def)
  have "length (v @ ''-table'') \<noteq> length DB_DIR" by (simp add: DB_DIR_def)
  then have "v @ ''-table'' \<noteq> DB_DIR" by metis
  then have "\<not> prefix (db_root w) (w_cwd w @ [v @ ''-table''])"
    by (auto simp: db_root_def)
  moreover have "calm w" using assms(1) by (simp add: world_ok_def)
  then have "open_directory (user_table_path (''../'' @ v)) READ w =
      ((DBMS_SUCCESS, Some (listing w (w_cwd w @ [v @ ''-table'']))), clear_errno w)"
    using open_directory_there [OF _ res assms(3)] by simp
  ultimately show ?thesis
    using res by (simp add: db_user_exists_def)
qed

lemma user_name_leaves_database_witness:
  "fst (db_user_exists ''../logs'' ((base_world (\<lambda>_. []))\<lparr>w_files := [([''logs-table''], DirI), ([DB_DIR], DirI)]\<rparr>)) = 1"
proof -
  have "world_ok ((base_world (\<lambda>_. []))\<lparr>w_files := [([''logs-table''], DirI), ([DB_DIR], DirI)]\<rparr>)"
    by (simp add: world_ok_def base_world_def files_ok_def look_def order_ok_rev fresh_fds_def)
      (simp add: plain_name_def NAME_MAX_def DB_DIR_def)
  then show ?thesis
    using user_name_leaves_database [of "(base_world (\<lambda>_. []))\<lparr>w_files := [([''logs-table''], DirI), ([DB_DIR], DirI)]\<rparr>" "''logs''"]
    by (simp add: base_world_def look_def plain_name_def NAME_MAX_def)
qed

end
