(* ===== verification/StoreProps.thy ===== *)
theory StoreProps
  imports Examples TreeInvariant
begin

section \<open>Properties of the database: dbms.c, dbmsUtil.c\<close>

text \<open>
  The database operations on the file tree refine operations on the map from user names to
  accounts, removal takes a whole subtree and nothing else, and the paths fit their arrays but
  for one.
\<close>

subsection \<open>User tables\<close>

text \<open>\<open>db_creat_usr_tbl\<close> creates the table of a new user and refuses a user that exists, leaving
  every other account, and in the second case every account, as it was.\<close>

lemma db_creat_usr_tbl_refines:
  assumes "db_rep w db" "valid_user (e_username e)" "e_type e = ENT_TYPE_UD" "entry_ok e"
  shows "\<exists>w'. db_creat_usr_tbl e w =
      ((if db (e_username e) = None then DBMS_SUCCESS else DBMS_ERR_EXISTS, e), w') \<and>
    db_rep w' (if db (e_username e) = None then db(e_username e \<mapsto> entry_account e) else db)"
  using create_user_refines [OF assms(1) refl assms(2) _ assms(3,4)]
    create_user_exists [OF assms(1,2)] db_rep_simps(2) [OF assms(1)]
  by (cases "db (e_username e) = None") auto

text \<open>\<open>db_del_usr_tbl\<close> removes the account of a user with all its pending messages and no other
  account, and reports a user that does not exist.\<close>

lemma db_del_usr_tbl_refines:
  assumes "db_rep w db" "valid_user u"
  shows "\<exists>w'. db_del_usr_tbl u w = ((if db u = None then DBMS_ERR_NOT_EXISTS else 0), w') \<and>
    db_rep w' (db(u := None))"
proof (cases "db u = None")
  case True
  have "look (w_files w) (w_cwd w @ [DB_DIR, u @ ''-table'']) = None"
    using db_rep_user(1) [OF assms True] by (simp add: table_def)
  then have "db_del_usr_tbl u w = (DBMS_ERR_NOT_EXISTS, w\<lparr>w_errno := ENOENT\<rparr>)"
    using remove_recursive_missing_file [OF _ resolve_user_table] db_rep_user(3) [OF assms] assms(2)
    by (simp add: db_del_usr_tbl_def world_ok_def)
  then show ?thesis
    using True db_rep_simps(2) [OF assms(1)] by (simp add: fun_upd_idem)
next
  case False
  then show ?thesis
    using delete_user_refines [OF assms] by auto
qed

text \<open>A world without a database; \<open>db_init_db\<close> creates an empty one there and keeps the one there is.\<close>

definition no_database :: "world \<Rightarrow> bool" where
  "no_database w \<longleftrightarrow> files_ok (w_files w) \<and> order_ok (w_order w) \<and> fresh_fds w \<and> calm w \<and>
     look (w_files w) (w_cwd w) = Some DirI \<and> look (w_files w) (w_cwd w @ [DB_DIR]) = None"


lemma db_init_db_establishes:
  assumes "no_database w \<and> db = Map.empty \<or> db_rep w db"
  shows "\<exists>w'. db_init_db w = (DBMS_SUCCESS, w') \<and> db_rep w' db"
proof (cases "db_rep w db")
  case True
  then show ?thesis
    using init_db_again [OF True] by (auto simp: clear_errno_def)
next
  case False
  then show ?thesis
    using init_db_refines [of w] assms by (auto simp: no_database_def)
qed

lemma db_dir_path: "split_path DB_DIR = [DB_DIR]" "direct DB_DIR"
proof -
  show "split_path DB_DIR = [DB_DIR]"
    by (rule split_path_simple) (simp add: DB_DIR_def)
  then show "direct DB_DIR"
    by (simp add: direct_def)
qed

text \<open>\<open>db_empty_db\<close> removes the database directory with every user in it, and \<open>db_init_db\<close> then
  starts an empty one.\<close>

lemma db_empty_then_init:
  assumes "db_rep w db"
  shows "\<exists>w1 w2. db_empty_db w = (0, w1) \<and> no_database w1 \<and>
    (\<forall>q. \<not> prefix (db_root w) q \<longrightarrow> look (w_files w1) q = look (w_files w) q) \<and>
    db_init_db w1 = (DBMS_SUCCESS, w2) \<and> db_rep w2 Map.empty"
proof -
  have wo: "world_ok w" using assms by (simp add: db_rep_def)
  then have ok: "calm w" "files_ok (w_files w)" "order_ok (w_order w)" "fresh_fds w"
    by (simp_all add: world_ok_def)
  obtain e where e: "db_empty_db w = (0, w\<lparr>w_files := prune (prefix (db_root w)) (w_files w), w_errno := e\<rparr>)"
    using remove_recursive_correct [OF ok(1-3) db_dir_path(2) refl] world_ok_dirs(2) [OF wo]
    by (auto simp: db_empty_db_def db_dir_path db_root_def)
  define w1 where "w1 = w\<lparr>w_files := prune (prefix (db_root w)) (w_files w), w_errno := e\<rparr>"
  have kept: "look (w_files w1) q = (if prefix (db_root w) q then None else look (w_files w) q)" for q
    by (simp add: w1_def look_prune_below db_root_def)
  have "no_database w1"
    using ok world_ok_dirs(1) [OF wo] kept [of "w_cwd w"] kept [of "db_root w"]
    by (simp add: no_database_def w1_def db_root_def files_ok_prune_below)
  then show ?thesis
    using e kept init_db_refines [of w1] by (auto simp: w1_def [symmetric] no_database_def)
qed

subsection \<open>Pending messages\<close>

text \<open>\<open>db_get_pend_msg\<close> fills the entry with one of the pending messages of the user when there is
  one, and says so when there is none or no such user.\<close>

lemma db_get_pend_msg_refines:
  assumes "db_rep w db" "valid_user u" "e_username e = u" "e_type e = ENT_TYPE_P_MSG" "entry_ok e"
  shows "\<exists>r c w'. db_get_pend_msg e w = ((r, c), w') \<and> db_rep w' db \<and>
    (case db u of None \<Rightarrow> r = DBMS_ERR_ANY
     | Some a \<Rightarrow> if a_pend a = Map.empty then r = DBMS_ERR_NOT_EXISTS
         else r = DBMS_SUCCESS \<and> (\<exists>n m. a_pend a n = Some m \<and> msg_entry u n m c))"
proof (cases "db u")
  case None
  then show ?thesis
    using get_pend_no_user [OF assms(1,2) None assms(3,4)] db_rep_simps(2) [OF assms(1)] by simp
next
  case (Some a)
  show ?thesis
  proof (cases "a_pend a = Map.empty")
    case True
    then show ?thesis
      using get_pend_none [OF assms(1,2) Some True assms(3,4)] db_rep_simps(2) [OF assms(1)] Some
      by (simp add: clear_errno_def)
  next
    case False
    obtain n m c x where got: "a_pend a n = Some m" "msg_entry u n m c"
        "db_get_pend_msg e w = ((DBMS_SUCCESS, c), w\<lparr>w_errno := x, w_next := Suc (w_next w)\<rparr>)"
      using get_pend_refines [OF assms(1,2) Some False assms(3-5)] by blast
    have "db_rep (w\<lparr>w_errno := x, w_next := Suc (w_next w)\<rparr>) db"
      using db_rep_simps(1) [OF db_rep_simps(2) [OF assms(1), of x]] by simp
    then show ?thesis
      using got Some False by (cases m) auto
  qed
qed

text \<open>C20: a message stored under a free number is among those that \<open>db_get_pend_msg\<close> returns: it returns a
  message pending for the user, whichever the directory lists first, under its number; deleting the
  entry it returned removes that message and no other. With nothing else pending the message returned
  is the one stored, and afterwards the database is the one from before and nothing is pending.\<close>

theorem store_fetch_delete:
  assumes rep: "db_rep w db" "valid_user u" "db u = Some a" and free: "a_pend a n = None"
    and e: "msg_entry u n m e" and p: "e_username p = u" "e_type p = ENT_TYPE_P_MSG" "entry_ok p"
  shows "\<exists>w1 c w2 w3 k x. db_io_op_usr_ent e CREATE w = ((DBMS_SUCCESS, e), w1) \<and>
    db_get_pend_msg p w1 = ((DBMS_SUCCESS, c), w2) \<and> ((a_pend a)(n \<mapsto> m)) k = Some x \<and> msg_entry u k x c \<and>
    db_io_op_usr_ent c DELETE w2 = ((DBMS_SUCCESS, c), w3) \<and>
    db_rep w3 (db(u \<mapsto> a\<lparr>a_pend := ((a_pend a)(n \<mapsto> m))(k := None)\<rparr>)) \<and>
    (a_pend a = Map.empty \<longrightarrow> k = n \<and> x = m \<and> db_rep w3 db \<and>
      (\<exists>w4. db_get_pend_msg c w3 = ((DBMS_ERR_NOT_EXISTS, c), w4)))"
proof -
  let ?a = "a\<lparr>a_pend := (a_pend a)(n \<mapsto> m)\<rparr>"
  obtain w1 where w1: "db_io_op_usr_ent e CREATE w = ((DBMS_SUCCESS, e), w1)" "db_rep w1 (db(u \<mapsto> ?a))"
    using store_message_refines [OF rep e free] by blast
  obtain k x c y where c: "a_pend ?a k = Some x" "msg_entry u k x c"
      "db_get_pend_msg p w1 = ((DBMS_SUCCESS, c), w1\<lparr>w_errno := y, w_next := Suc (w_next w1)\<rparr>)"
    using get_pend_refines [OF w1(2) rep(2) _ _ p, of ?a] by auto
  define w2 where "w2 = w1\<lparr>w_errno := y, w_next := Suc (w_next w1)\<rparr>"
  have w2: "db_rep w2 (db(u \<mapsto> ?a))"
    using db_rep_simps(1) [OF db_rep_simps(2) [OF w1(2), of y]] by (simp add: w2_def)
  let ?b = "a\<lparr>a_pend := ((a_pend a)(n \<mapsto> m))(k := None)\<rparr>"
  obtain w3 where w3: "db_io_op_usr_ent c DELETE w2 = ((DBMS_SUCCESS, c), w3)" "db_rep w3 (db(u \<mapsto> ?b))"
    using delete_message_refines [OF w2 rep(2) _ c(2), of ?a] c(1) by auto
  have "k = n \<and> x = m \<and> db_rep w3 db \<and> (\<exists>w4. db_get_pend_msg c w3 = ((DBMS_ERR_NOT_EXISTS, c), w4))"
    if none: "a_pend a = Map.empty"
  proof -
    have k: "k = n" "x = m" using c(1) none by (simp_all split: if_splits)
    then have "db(u \<mapsto> ?b) = db" using rep(3) none by (auto simp: fun_eq_iff)
    then have rep3: "db_rep w3 db" using w3(2) by simp
    show ?thesis using k rep3 get_pend_none [OF rep3 rep(2,3) none msg_entry_facts(2,3) [OF c(2)]] by blast
  qed
  then show ?thesis
    using w1(1) c(1) c(2) c(3) [folded w2_def] w3
    by (intro exI [of _ w1] exI [of _ c] exI [of _ w2] exI [of _ w3] exI [of _ k] exI [of _ x]) simp
qed

lemma store_fetch_delete_witness:
  "\<exists>w1 c w2 w3 w4. db_io_op_usr_ent (example_message ''bob'' 7 (''ann'', ''hi'')) CREATE (example_world (\<lambda>_. [])) =
      ((DBMS_SUCCESS, example_message ''bob'' 7 (''ann'', ''hi'')), w1) \<and>
    db_get_pend_msg (example_message ''bob'' 0 (''bob'', [])) w1 = ((DBMS_SUCCESS, c), w2) \<and>
    e_msg_content c = ''hi'' \<and> db_io_op_usr_ent c DELETE w2 = ((DBMS_SUCCESS, c), w3) \<and>
    db_get_pend_msg c w3 = ((DBMS_ERR_NOT_EXISTS, c), w4)"
proof -
  have p: "msg_entry ''bob'' 0 (''bob'', []) (example_message ''bob'' 0 (''bob'', []))"
    and e: "msg_entry ''bob'' 7 (''ann'', ''hi'') (example_message ''bob'' 7 (''ann'', ''hi''))"
    by (simp_all add: example_message_entry fits_array_def)
  have bob: "valid_user ''bob''" "example_db ''bob'' = Some bob_account" "a_pend bob_account = Map.empty"
    by (simp_all add: example_db_def bob_account_def)
  have free: "a_pend bob_account 7 = None" by (simp add: bob(3))
  show ?thesis
    using store_fetch_delete [OF example_rep bob(1,2) free e msg_entry_facts(2,3,1) [OF p], of "\<lambda>_. []"] bob(3)
    by (auto dest: msg_entry_facts(6))
qed

subsection \<open>Removal\<close>

text \<open>C21: \<open>remove_recursive\<close> removes exactly the file or directory of the path and everything below it,
  in whatever order the directories are listed, and reports a path that leads nowhere.\<close>

theorem remove_recursive_exact:
  assumes "calm w" "files_ok (w_files w)" "order_ok (w_order w)" "direct p"
    and "look (w_files w) (w_cwd w @ butlast (split_path p)) = Some DirI"
  shows "\<exists>r w'. remove_recursive p w = (r, w') \<and>
    r = (if look (w_files w) (w_cwd w @ split_path p) = None then DBMS_ERR_NOT_EXISTS else 0) \<and>
    (\<forall>k. look (w_files w') k = (if prefix (w_cwd w @ split_path p) k then None else look (w_files w) k))"
proof (cases "look (w_files w) (w_cwd w @ split_path p) = None")
  case True
  then have "look (w_files w) k = None" if "prefix (w_cwd w @ split_path p) k" for k
    using that files_ok_below_none [OF assms(2) True] by (auto simp: prefix_def)
  then show ?thesis
    using remove_recursive_missing_file [OF assms(1) resolve_direct [OF assms(4,2,5)] True] True by auto
next
  case False
  then show ?thesis
    using remove_recursive_correct [OF assms(1-4) refl False] by (auto simp: look_prune_below)
qed

lemma remove_recursive_exact_witness:
  "\<exists>w'. remove_recursive (user_table_path ''bob'') (waiting_world (\<lambda>_. [])) = (0, w') \<and>
    table w' ''bob'' [USERDATA_ENTRY] = None \<and> table w' ''ann'' [] = Some DirI"
proof -
  let ?w = "waiting_world (\<lambda>_. [])"
  have rep: "db_rep ?w waiting_db" by (rule waiting_rep)
  then have wo: "world_ok ?w" by (simp add: db_rep_def)
  have there: "account_files ''ann'' (table ?w ''ann'') ann_account"
      "account_files ''bob'' (table ?w ''bob'') (bob_account\<lparr>a_pend := [9 \<mapsto> (''ann'', ''hi'')]\<rparr>)"
    using db_rep_user(2) [OF rep] by (simp_all add: waiting_db_def example_db_def)
  have cwd: "w_cwd ?w = []"
    by (simp add: waiting_world_def add_message_def example_world_def add_user_def Let_def base_world_def)
  obtain r w' where "remove_recursive (user_table_path ''bob'') ?w = (r, w')"
      "r = (if look (w_files ?w) [DB_DIR, ''bob-table''] = None then DBMS_ERR_NOT_EXISTS else 0)"
      "\<forall>k. look (w_files w') k = (if prefix [DB_DIR, ''bob-table''] k then None else look (w_files ?w) k)"
    using remove_recursive_exact [of ?w "user_table_path ''bob''"] wo cwd
    by (auto simp: world_ok_def split_paths)
  moreover have "w_cwd w' = []"
    using cwd calculation(1) remove_recursive_correct [of ?w "user_table_path ''bob''"] wo there(2)
    by (auto simp: world_ok_def split_paths account_files_def table_def)
  ultimately show ?thesis
    using there cwd by (auto simp: account_files_def table_def)
qed

text \<open>C22: the recursion of \<open>remove_recursive\<close> always ends, whatever fails on the way, on any tree
  whose keys are names and for any path: the fuel of the model never runs out, and no file is added.\<close>

theorem remove_recursive_ends:
  assumes "order_ok (w_order w)" "files_ok (w_files w)"
  shows "\<exists>r w'. remove_recursive p w = (r, w') \<and>
    rm_fuel (Suc (Suc (tree_depth (w_files w)))) p w = Some (r, w') \<and>
    (\<forall>q. look (w_files w) q = None \<longrightarrow> look (w_files w') q = None)"
proof -
  have "tame w" using assms by (auto simp: tame_def files_ok_def)
  then obtain r v where run: "rm_fuel (Suc (Suc (tree_depth (w_files w)))) p w = Some (r, v)" "shrinks w v"
    using remove_recursive_fuel_run by blast
  moreover have "remove_recursive p w = (r, v)"
    using run(1) by (simp add: remove_recursive_def del: rm_fuel.simps)
  ultimately show ?thesis
    using look_shrinks [of w v] by blast
qed

lemma remove_recursive_ends_witness:
  "\<exists>r w'. remove_recursive ''users/../users'' (base_world (\<lambda>_. [])) = (r, w') \<and>
    rm_fuel (Suc (Suc (tree_depth (w_files (base_world (\<lambda>_. [])))))) ''users/../users'' (base_world (\<lambda>_. [])) =
      Some (r, w')"
proof -
  have "order_ok (w_order (base_world (\<lambda>_. [])))" "files_ok (w_files (base_world (\<lambda>_. [])))"
    using base_world_ok [of "\<lambda>_. []"] by (simp_all add: db_rep_def world_ok_def)
  then show ?thesis
    using remove_recursive_ends [of "base_world (\<lambda>_. [])" "''users/../users''"] by blast
qed

subsection \<open>Lost records\<close>

text \<open>A loop of writes to a file that are cut short, the last of which fails.\<close>

lemma write_loop_cut:
  assumes "w_fates w = map Limit ks @ Fail x # rest" "w_fds w d = Some (FileD q (length c))" "q \<noteq> []"
    and "w_files w = set_node q (FileI c) f" "sum_list ks < length buf"
  shows "write_loop d buf cnt w = (-1, w\<lparr>w_fates := rest, w_errno := x,
    w_files := set_node q (FileI (c @ take (sum_list ks) buf)) f,
    w_fds := (w_fds w)(d \<mapsto> FileD q (length c + sum_list ks))\<rparr>)"
  using assms
proof (induction ks arbitrary: w c buf cnt)
  case Nil
  have idem: "(w_fds w)(d \<mapsto> FileD q (length c)) = w_fds w" using Nil.prems(2) by (rule fun_upd_idem)
  have "w\<lparr>w_fates := rest, w_errno := x, w_files := w_files w, w_fds := w_fds w\<rparr> = w\<lparr>w_fates := rest, w_errno := x\<rparr>"
    by simp
  then show ?case
    using Nil idem by (simp add: write_loop.simps [of d buf] sys_write_def next_fate_def failing_def del: fun_upd_apply)
next
  case (Cons k ks)
  let ?w = "w\<lparr>w_fates := map Limit ks @ Fail x # rest, w_files := set_node q (FileI (c @ take k buf)) f,
    w_fds := (w_fds w)(d \<mapsto> FileD q (length c + k))\<rparr>"
  have k: "k < length buf" "min (length buf) k = k" using Cons.prems(5) by simp_all
  have "sys_write d buf w = (int k, ?w)"
    using Cons.prems k by (simp add: sys_write_def next_fate_def write_now_def look_set_node put_at_def)
  then have "write_loop d buf cnt w = write_loop d (drop k buf) (cnt + int k) ?w"
    using k(1) by (simp add: write_loop.simps [of d buf])
  also have "\<dots> = (-1, ?w\<lparr>w_fates := rest, w_errno := x,
      w_files := set_node q (FileI ((c @ take k buf) @ take (sum_list ks) (drop k buf))) f,
      w_fds := (w_fds ?w)(d \<mapsto> FileD q (length (c @ take k buf) + sum_list ks))\<rparr>)"
    by (rule Cons.IH) (use Cons.prems k in simp_all)
  finally show ?case
    using k by (simp add: take_add add.assoc del: fun_upd_apply)
qed

lemma modify_cut:
  assumes fates: "w_fates w = Normal # map Limit ks @ Fail x # rest" and "fresh_fds w" "entry_type_ok e" "entry_ok e"
    and there: "is_file w (entry_path e) q c" "q \<noteq> []" and "sum_list ks < sizeof_entry"
  shows "db_io_op_usr_ent e MODIFY w = ((DBMS_ERR_ANY, e), w\<lparr>w_fates := rest, w_errno := EBADF,
    w_files := set_node q (FileI (take (sum_list ks) e)) (w_files w), w_next := Suc (w_next w)\<rparr>)"
    (is "_ = (_, ?w1)")
proof -
  let ?d = "int (w_next w)" and ?fs = "map Limit ks @ Fail x # rest"
  define w0 where "w0 = w\<lparr>w_fates := ?fs, w_files := set_node q (FileI []) (w_files w),
    w_fds := (w_fds w)(?d \<mapsto> FileD q 0), w_next := Suc (w_next w)\<rparr>"
  have "resolve (w\<lparr>w_fates := ?fs\<rparr>) (entry_path e) = Inr q"
    using there(1) resolve_cong [of "w\<lparr>w_fates := ?fs\<rparr>" w] by simp
  then have op: "open_file (entry_path e) MODIFY w = (?d, w0)"
    using fates there(1) by (simp add: open_file_def sys_open_def may_fail_def next_fate_def alloc_fd_def w0_def)
  define v where "v = w0\<lparr>w_fates := rest, w_errno := x, w_files := set_node q (FileI (take (sum_list ks) e)) (w_files w),
    w_fds := (w_fds w0)(?d \<mapsto> FileD q (sum_list ks))\<rparr>"
  have "write_loop ?d e 0 w0 = (-1, v)"
    using write_loop_cut [of w0 ks x rest ?d q "[]" "w_files w" e 0] assms(4,7) there(2)
    by (simp add: w0_def v_def entry_ok_def)
  then have "write_entry ?d e w0 = ((DBMS_ERR_ANY, e), snd (sys_close ?d v))"
    using assms(4) by (simp add: write_entry_def write_bytes_def entry_ok_def sizeof_entry_def)
  moreover have "w_fds w ?d = None" using assms(2) by (simp add: fresh_fds_def)
  then have "snd (sys_close ?d (snd (sys_close ?d v))) = ?w1"
    by (simp add: sys_close_def failing_def w0_def v_def fun_upd_idem)
  ultimately show ?thesis
    using assms(3) op by (auto simp: db_io_op_usr_ent_def entry_type_ok_def)
qed

text \<open>Reading an empty record.\<close>

lemma db_read_empty:
  assumes "calm w" "fresh_fds w" "entry_type_ok e" "is_file w (entry_path e) q []"
  shows "\<exists>w'. db_io_op_usr_ent e READ w = ((DBMS_ERR_ANY, e), w')"
proof -
  obtain d v where d: "open_file (entry_path e) READ w = (d, v)" "d \<noteq> -1" "alloc_fd (FileD q 0) w = (d, v)"
    using open_file_read [OF assms(1,4)] by (simp add: alloc_fd_def)
  have "w_fds v d = Some (FileD q 0)" "look (w_files v) q = Some (FileI [])" "calm v"
    using d(3) assms(1,4) by (auto simp: alloc_fd_def)
  then have "read_entry d e v = ((DBMS_ERR_ANY, e), snd (sys_close d (v\<lparr>w_fds := (w_fds v)(d \<mapsto> FileD q 0)\<rparr>)))"
    using read_bytes_file [of v d q "[]" sizeof_entry] by (simp add: read_entry_def sizeof_entry_def put_at_def)
  then show ?thesis
    using d assms(3) by (auto simp: db_io_op_usr_ent_def entry_type_ok_def)
qed

text \<open>C38: when a write of \<open>MODIFY\<close> fails, at once or after short writes of \<open>k\<close> bytes together, the call
  reports an error and the old record is gone: the file holds the first \<open>k\<close> bytes of the new one. While
  the file stays so, every read of the record without faults fails if \<open>k\<close> is 0, and if not, it succeeds with these \<open>k\<close>
  bytes over whatever the caller's entry held.\<close>

theorem failed_modify_loses_record:
  assumes "w_fates w = Normal # map Limit ks @ Fail x # rest" "k = sum_list ks" "k < sizeof_entry"
    and "fresh_fds w" "entry_type_ok e" "entry_ok e" "is_file w (entry_path e) q c" "q \<noteq> []"
  shows "\<exists>w1. db_io_op_usr_ent e MODIFY w = ((DBMS_ERR_ANY, e), w1) \<and>
    look (w_files w1) q = Some (FileI (take k e)) \<and>
    (\<forall>v b. calm v \<and> fresh_fds v \<and> w_cwd v = w_cwd w1 \<and> w_files v = w_files w1 \<longrightarrow>
      entry_type_ok b \<and> entry_path b = entry_path e \<longrightarrow>
      fst (db_io_op_usr_ent b READ v) = (if k = 0 then (DBMS_ERR_ANY, b) else (DBMS_SUCCESS, put_at 0 (take k e) b)))"
proof -
  let ?w1 = "w\<lparr>w_fates := rest, w_errno := EBADF,
    w_files := set_node q (FileI (take k e)) (w_files w), w_next := Suc (w_next w)\<rparr>"
  have e: "length e = sizeof_entry" using assms(6) by (simp add: entry_ok_def)
  have holds: "look (w_files ?w1) q = Some (FileI (take k e))"
    using assms(8) by (simp add: look_set_node)
  have "fst (db_io_op_usr_ent b READ v) = (if k = 0 then (DBMS_ERR_ANY, b) else (DBMS_SUCCESS, put_at 0 (take k e) b))"
    if v: "calm v" "fresh_fds v" "w_cwd v = w_cwd ?w1" "w_files v = w_files ?w1"
      and b: "entry_type_ok b" "entry_path b = entry_path e" for v b
  proof -
    have "resolve v (entry_path e) = Inr q"
      using v(3,4) assms(7,8) resolve_rewrite [of w q c "take k e" "entry_path e"]
        resolve_cong [of v "w\<lparr>w_files := set_node q (FileI (take k e)) (w_files w)\<rparr>"] by simp
    then have there: "is_file v (entry_path b) q (take k e)" using b(2) holds v(4) by simp
    show ?thesis
    proof (cases "k = 0")
      case True
      then show ?thesis using db_read_empty [OF v(1,2) b(1)] there by fastforce
    next
      case False
      then have "take k e \<noteq> []" using e assms(3) by auto
      then show ?thesis using db_read_short [OF v(1,2) b(1) there] False assms(3) by (simp add: min_def)
    qed
  qed
  then show ?thesis
    using modify_cut [OF assms(1,4-8)] assms(2,3) holds by blast
qed

lemma failed_modify_loses_record_witness:
  "\<exists>w1. db_io_op_usr_ent (example_entry ''bob'' ann_account) MODIFY
      ((example_world (\<lambda>_. []))\<lparr>w_fates := [Normal, Limit 0, Fail ENOSPC]\<rparr>) =
        ((DBMS_ERR_ANY, example_entry ''bob'' ann_account), w1) \<and>
    (\<forall>v. calm v \<and> fresh_fds v \<and> w_cwd v = w_cwd w1 \<and> w_files v = w_files w1 \<longrightarrow>
      fst (db_io_op_usr_ent (example_entry ''bob'' bob_account) READ v) = (DBMS_ERR_ANY, example_entry ''bob'' bob_account))"
proof -
  let ?e = "example_entry ''bob'' ann_account" and ?w = "(example_world (\<lambda>_. []))\<lparr>w_fates := [Normal, Limit 0, Fail ENOSPC]\<rparr>"
  let ?b = "example_entry ''bob'' bob_account"
  have e: "user_entry ''bob'' ?e ann_account" "user_entry ''bob'' ?b bob_account" by (simp_all add: example_entry_account)
  have path: "entry_path ?b = entry_path ?e" "entry_path ?e = userdata_path ''bob''" "entry_type_ok ?b" "entry_type_ok ?e"
    using account_path [OF user_entry_facts(3,2) [OF e(1)]] account_path [OF user_entry_facts(3,2) [OF e(2)]]
      user_entry_facts(3) [OF e(1)] user_entry_facts(3) [OF e(2)] by (simp_all add: entry_type_ok_def)
  have "\<exists>q c. is_file (example_world (\<lambda>_. [])) (userdata_path ''bob'') q c \<and> q \<noteq> []"
    by (rule account_file [OF example_rep [of "\<lambda>_. []"], of "''bob''" bob_account])
      (auto simp: example_db_def)
  then obtain q c where q: "is_file (example_world (\<lambda>_. [])) (userdata_path ''bob'') q c" "q \<noteq> []"
    by blast
  then have there: "is_file ?w (entry_path ?e) q c"
    using path(2) resolve_cong [of ?w "example_world (\<lambda>_. [])"] by simp
  have fresh: "fresh_fds ?w"
    using example_rep [of "\<lambda>_. []"] by (simp add: db_rep_def world_ok_def fresh_fds_def)
  have "w_fates ?w = Normal # map Limit [0] @ Fail ENOSPC # []" by simp
  then obtain w1 where w1: "db_io_op_usr_ent ?e MODIFY ?w = ((DBMS_ERR_ANY, ?e), w1)"
      "\<And>v b. calm v \<and> fresh_fds v \<and> w_cwd v = w_cwd w1 \<and> w_files v = w_files w1 \<Longrightarrow>
        entry_type_ok b \<and> entry_path b = entry_path ?e \<Longrightarrow> fst (db_io_op_usr_ent b READ v) = (DBMS_ERR_ANY, b)"
    using failed_modify_loses_record [of ?w "[0]" ENOSPC "[]" 0 ?e q c] fresh there q(2) path(4) user_entry_facts(1) [OF e(1)]
    by (auto simp: sizeof_entry_def)
  then show ?thesis using path(1,3) by blast
qed

subsection \<open>Arrays for paths\<close>

text \<open>C39: every path \<open>dbms.c\<close> prints fits the array declared for it, with its terminating NUL, except
  in \<open>db_user_exists\<close>, whose array is one byte short for every user name.\<close>

theorem path_arrays:
  "length (pend_msgs_path u) + 1 \<le> db_get_pend_msg_path_size u \<and>
   length (entry_path e) + 1 \<le> db_io_op_entry_len e \<and>
   length (user_table_path u) + 1 \<le> fst (db_creat_usr_tbl_sizes u) \<and>
   length (userdata_path u) + 1 \<le> fst (snd (db_creat_usr_tbl_sizes u)) \<and>
   length (pend_msgs_path u) + 1 \<le> snd (snd (db_creat_usr_tbl_sizes u)) \<and>
   length (user_table_path u) + 1 \<le> db_del_usr_tbl_path_size u \<and>
   db_user_exists_path_len u < length (user_table_path u) + 1"
  using path_sizes entry_path_size user_exists_path_size [of u] by simp

end
