(* ===== verification/ServerProps.thy ===== *)
theory ServerProps
  imports StoreProps "HOL-Library.Multiset"
begin

section \<open>Properties of the server loop: server.c\<close>

text \<open>
  Every interleaving of the main thread and the five service threads hands each accepted
  connection to one thread, in order; the invariant of the shared queue; the wake-ups that are
  lost; what starting the server needs.
\<close>

subsection \<open>Threads\<close>

text \<open>C12: in every reachable state of the server the ring is well formed, the main thread sleeps only
  when the ring is full, and when a connection waits some service thread is not asleep.\<close>

theorem server_invariant:
  assumes "server_trace init_server es s"
  shows "connq_ok (s_q s) \<and> length (s_threads s) = THREAD_POOL_SIZE \<and>
    (\<forall>fd. s_main s = MSleep fd \<longrightarrow> conn_q_size (s_q s) = MAX_CONN_BACKLOG) \<and>
    (queued (s_q s) \<noteq> [] \<longrightarrow> (\<exists>i < THREAD_POOL_SIZE. s_threads s ! i \<noteq> TSleep))"
proof -
  have "server_ok s" using server_ok_reachable assms by blast
  moreover have "queued (s_q s) \<noteq> [] \<Longrightarrow> 0 < conn_q_size (s_q s)"
    by (auto simp: queued_def)
  ultimately show ?thesis by (auto simp: server_ok_def)
qed

text \<open>A schedule: every thread goes to sleep, two clients come, the first signal wakes thread 0.\<close>

definition two_clients :: "event list" where
  "two_clients = [Waits 0, Waits 1, Waits 2, Waits 3, Waits 4, Accepted 7, Enqueued 7 (Some 0),
     Accepted 8, Enqueued 8 None, Dequeued 0 7]"

lemma two_clients_run:
  "\<exists>s. server_trace init_server two_clients s \<and> s_threads s = [TServe 7, TSleep, TSleep, TSleep, TSleep] \<and>
    queued (s_q s) = [8] \<and> s_main s = MAccept"
proof -
  have "map_option (\<lambda>s. (s_threads s, queued (s_q s), s_main s)) (exec_events init_server two_clients) =
      Some ([TServe 7, TSleep, TSleep, TSleep, TSleep], [8], MAccept)"
    by code_simp
  then show ?thesis
    using exec_events_trace [OF _ server_trace.start [of init_server]] by fastforce
qed

lemma server_invariant_witness:
  "\<exists>s. server_trace init_server two_clients s \<and> queued (s_q s) = [8] \<and>
    (\<exists>i < THREAD_POOL_SIZE. s_threads s ! i \<noteq> TSleep)"
  using two_clients_run server_invariant by fastforce

text \<open>C4: whatever the interleaving, the connections taken by the service threads are those the main
  thread enqueued, each once and in the same order, up to those still in the ring.\<close>

theorem connections_taken_in_order:
  assumes "server_trace init_server es s"
  shows "enqueued_fds es = dequeued_fds es @ queued (s_q s)"
  using ring.run_fifo [OF _ trace_runs_queue [OF assms server_ok_init]]
  by (simp add: puts_queue_ops init_server_def)

lemma connections_taken_in_order_witness:
  "\<exists>s. server_trace init_server two_clients s \<and> enqueued_fds two_clients = dequeued_fds two_clients @ queued (s_q s)"
  using two_clients_run connections_taken_in_order by blast



text \<open>
  Where the connections of a run are: with \<open>main\<close>, in the ring, in a thread, or served, which is what a
  thread does to the one it took last.
\<close>

definition accepted_fds :: "event list \<Rightarrow> fd list" where
  "accepted_fds es = concat (map (\<lambda>e. case e of Accepted fd \<Rightarrow> [fd] | _ \<Rightarrow> []) es)"

fun note_event :: "(nat \<rightharpoonup> fd) \<times> fd list \<Rightarrow> event \<Rightarrow> (nat \<rightharpoonup> fd) \<times> fd list" where
  "note_event (t, out) (Dequeued i fd) = (t(i \<mapsto> fd), out)"
| "note_event (t, out) (Served i) = (case t i of Some fd \<Rightarrow> (t(i := None), out @ [fd]) | None \<Rightarrow> (t, out))"
| "note_event x e = x"

definition taken_fds :: "event list \<Rightarrow> nat \<rightharpoonup> fd" where
  "taken_fds es = fst (foldl note_event (Map.empty, []) es)"

definition served_fds :: "event list \<Rightarrow> fd list" where
  "served_fds es = snd (foldl note_event (Map.empty, []) es)"

fun main_conn :: "main_pc \<Rightarrow> fd multiset" where
  "main_conn (MLock fd) = {#fd#}"
| "main_conn (MSleep fd) = {#fd#}"
| "main_conn pc = {#}"

fun thread_conn :: "thread_pc \<Rightarrow> fd multiset" where
  "thread_conn (TServe fd) = {#fd#}"
| "thread_conn pc = {#}"

definition held_fds :: "server \<Rightarrow> fd multiset" where
  "held_fds s = main_conn (s_main s) + mset (queued (s_q s)) + sum_list (map thread_conn (s_threads s))"

lemma thread_conn_set:
  assumes "i < length (s_threads s)"
  shows "sum_list (map thread_conn (s_threads (set_thread i pc s))) + thread_conn (s_threads s ! i) =
    sum_list (map thread_conn (s_threads s)) + thread_conn pc"
proof -
  have "sum_list (map thread_conn (xs[i := pc])) + thread_conn (xs ! i) = sum_list (map thread_conn xs) + thread_conn pc"
    if "i < length xs" for xs
    using that
  proof (induction xs arbitrary: i)
    case (Cons x xs)
    then show ?case by (cases i) (simp_all add: ac_simps)
  qed simp
  then show ?thesis using assms by (simp add: set_thread_def)
qed

lemma thread_conn_wake: "may_signal s k \<Longrightarrow>
    sum_list (map thread_conn (s_threads (wake k s))) = sum_list (map thread_conn (s_threads s))"
  using thread_conn_set [of "the k" s TLock] by (cases k) (auto simp: wake_def may_signal_def asleep_def)

lemma main_conn_signal [simp]: "main_conn (signal_not_full m) = main_conn m"
  by (cases m) (simp_all add: signal_not_full_def)

text \<open>What a step does to the connections that the server holds.\<close>

lemma step_conserves:
  assumes "server_step s e s'" "server_ok s" "running s'" "\<And>i fd. t i = Some fd \<longleftrightarrow> i < length (s_threads s) \<and> s_threads s ! i = TServe fd"
  shows "held_fds s' + mset (snd (note_event (t, out) e)) = held_fds s + mset out + mset (accepted_fds [e]) \<and>
    (\<forall>i fd. fst (note_event (t, out) e) i = Some fd \<longleftrightarrow> i < length (s_threads s') \<and> s_threads s' ! i = TServe fd)"
  using assms(1)
proof (cases rule: server_step.cases)
  case (enqueued fd q' woken)
  have "connq_ok (s_q s)" "conn_q_size (s_q s) < MAX_CONN_BACKLOG"
    using assms(2) enqueued(4) by (auto simp: server_ok_def connq_ok_def)
  then have q: "queued q' = queued (s_q s) @ [fd]" using enqueue_ok(2) enqueued(5) by simp
  let ?s = "s\<lparr>s_q := q', s_main := MAccept\<rparr>"
  have w: "woken = None \<or> may_signal ?s woken" using enqueued(6) may_signal_cong [of ?s s woken] by (auto split: if_splits)
  then have "sum_list (map thread_conn (s_threads s')) = sum_list (map thread_conn (s_threads s))"
    using thread_conn_wake [of ?s woken] enqueued(2) by auto
  moreover have "s_threads s' ! i = TServe f \<longleftrightarrow> s_threads s ! i = TServe f" if "i < length (s_threads s)" for i f
    using w enqueued(2) that by (cases woken) (auto simp: wake_def may_signal_def asleep_def thread_set)
  ultimately show ?thesis
    using enqueued(1,2,3) q assms(4) by (auto simp: held_fds_def accepted_fds_def)
next
  case (waits i)
  then show ?thesis using thread_conn_set [of i s TSleep] assms(4) by (auto simp: held_fds_def accepted_fds_def thread_set)
next
  case (dequeued i fd q' m')
  have "queued (s_q s) = fd # queued q'"
    using dequeue_ok(2) [of "s_q s"] assms(2) dequeued by (simp add: server_ok_def)
  then show ?thesis
    using dequeued thread_conn_set [of i "s\<lparr>s_q := q', s_main := m'\<rparr>" "TServe fd"] assms(4)
    by (auto simp: held_fds_def accepted_fds_def thread_set)
next
  case (wakes i)
  then show ?thesis
    using thread_conn_set [of i s TLock] assms(4) by (auto simp: held_fds_def accepted_fds_def thread_set asleep_def)
next
  case (served i fd)
  then have ti: "t i = Some fd" using assms(4) by simp
  then show ?thesis
    using served thread_conn_set [of i s TLock] assms(4) by (auto simp: ti held_fds_def accepted_fds_def thread_set)
qed (use assms(3,4) in \<open>auto simp: held_fds_def accepted_fds_def running_def\<close>)

lemma trace_running: "server_step s e s' \<Longrightarrow> running s' \<Longrightarrow> running s"
  by (erule server_step.cases) (auto simp: running_def split: main_pc.splits)

lemma trace_conserves:
  assumes "server_trace init_server es s" "running s"
  shows "held_fds s + mset (served_fds es) = mset (accepted_fds es) \<and>
    (\<forall>i fd. taken_fds es i = Some fd \<longleftrightarrow> i < length (s_threads s) \<and> s_threads s ! i = TServe fd)"
proof -
  have "s0 = init_server \<Longrightarrow> ?thesis" if "server_trace s0 es s" for s0
    using that assms(2)
  proof (induction rule: server_trace.induct)
    case (start s)
    have "sum_list (replicate THREAD_POOL_SIZE {#}) = ({#} :: fd multiset)"
      by (simp add: THREAD_POOL_SIZE_def numeral_eq_Suc)
    then show ?case using start
      by (simp add: held_fds_def served_fds_def accepted_fds_def taken_fds_def init_server_def nth_replicate queued_def
          init_connq_def)
  next
    case (snoc s0 es s1 e s2)
    have "running s1" by (rule trace_running [OF snoc.hyps(2) snoc.prems(2)])
    then have IH: "held_fds s1 + mset (served_fds es) = mset (accepted_fds es)"
        "\<And>i fd. taken_fds es i = Some fd \<longleftrightarrow> i < length (s_threads s1) \<and> s_threads s1 ! i = TServe fd"
      using snoc.IH snoc.prems by blast+
    have "server_ok s1" using server_ok_trace [OF snoc.hyps(1)] server_ok_init snoc.prems(1) by simp
    from step_conserves [OF snoc.hyps(2) this snoc.prems(2) IH(2), of "served_fds es"]
    show ?case using IH(1) by (simp add: served_fds_def taken_fds_def accepted_fds_def ac_simps)
  qed
  then show ?thesis using assms(1) by blast
qed

text \<open>C5: no connection is lost and none is served twice: in every interleaving, while the server runs, the
  connections \<open>accept\<close> has returned are, each as often as it was returned, the one \<open>main\<close> holds, those in the
  ring, those in the threads and those served; and a thread that serves has the one it took last.\<close>

theorem connections_conserved:
  assumes "server_trace init_server es s" "running s"
  shows "mset (accepted_fds es) =
      main_conn (s_main s) + mset (queued (s_q s)) + sum_list (map thread_conn (s_threads s)) + mset (served_fds es) \<and>
    (\<forall>i < THREAD_POOL_SIZE. \<forall>fd. s_threads s ! i = TServe fd \<longleftrightarrow> taken_fds es i = Some fd)"
proof -
  have "length (s_threads s) = THREAD_POOL_SIZE"
    using server_ok_reachable assms(1) unfolding server_ok_def by blast
  then show ?thesis using trace_conserves [OF assms] by (auto simp: held_fds_def)
qed

lemma connections_conserved_witness:
  "\<exists>s. server_trace init_server (two_clients @ [Served 0]) s \<and> queued (s_q s) = [8] \<and>
    mset (accepted_fds (two_clients @ [Served 0])) = {#8#} + mset (served_fds (two_clients @ [Served 0]))"
proof -
  obtain s where s: "server_trace init_server two_clients s" "s_threads s = [TServe 7, TSleep, TSleep, TSleep, TSleep]"
      "queued (s_q s) = [8]" "s_main s = MAccept"
    using two_clients_run by blast
  let ?s = "set_thread 0 TLock s"
  have "server_step s (Served 0) ?s"
    by (rule server_step.served) (use s in \<open>simp_all add: running_def\<close>)
  then have t: "server_trace init_server (two_clients @ [Served 0]) ?s" by (rule server_trace.snoc [OF s(1)])
  have f: "s_main ?s = MAccept" "queued (s_q ?s) = [8]" "sum_list (map thread_conn (s_threads ?s)) = {#}"
    using s by (simp_all add: set_thread_def)
  have "running ?s" using f(1) by (simp add: running_def)
  from connections_conserved [OF t this] show ?thesis using t f by (intro exI [of _ ?s]) simp
qed

text \<open>C33: the condition variable is signalled only when the ring gets its first connection, so a state is
  reachable in which a connection waits while four of the five service threads sleep and only a
  spurious wake-up, or the thread that is busy, can take it.\<close>

theorem lost_wake_up:
  "\<exists>es s. server_trace init_server es s \<and> queued (s_q s) = [8] \<and> s_main s = MAccept \<and>
    s_threads s = [TServe 7, TSleep, TSleep, TSleep, TSleep] \<and>
    (\<forall>e s'. server_step s e s' \<longrightarrow> s_q s' = s_q s \<and> (\<forall>i. e \<noteq> Wakes i \<longrightarrow> i \<in> {1..4} \<longrightarrow> s_threads s' ! i = TSleep))"
proof -
  obtain s where s: "server_trace init_server two_clients s" "queued (s_q s) = [8]" "s_main s = MAccept"
      "s_threads s = [TServe 7, TSleep, TSleep, TSleep, TSleep]"
    using two_clients_run by blast
  have th: "s_threads s ! i = (if i = 0 then TServe 7 else TSleep)" if "i < 5" for i
    using that s(4) by (auto simp: less_Suc_eq numeral_nat)
  have "length (s_threads s) = 5" using s(4) by simp
  then have "s_q s' = s_q s \<and> (\<forall>i. e \<noteq> Wakes i \<longrightarrow> i \<in> {1..4} \<longrightarrow> s_threads s' ! i = TSleep)"
    if "server_step s e s'" for e s'
    using that s(3) th by (cases rule: server_stepE) (auto simp: thread_set asleep_def split: if_splits)
  then show ?thesis using s by blast
qed

lemma lost_wake_up_witness:
  "\<exists>es s. server_trace init_server es s \<and> queued (s_q s) = [8] \<and> asleep s 1 \<and>
    \<not> server_step s (Dequeued 1 8) (set_thread 1 (TServe 8) (s\<lparr>s_q := snd (dequeue (s_q s))\<rparr>))"
proof -
  obtain es s where s: "server_trace init_server es s" "queued (s_q s) = [8]"
      "s_threads s = [TServe 7, TSleep, TSleep, TSleep, TSleep]"
      "\<And>e s'. server_step s e s' \<Longrightarrow> \<forall>i. e \<noteq> Wakes i \<longrightarrow> i \<in> {1..4} \<longrightarrow> s_threads s' ! i = TSleep"
    using lost_wake_up by blast
  then show ?thesis
    by (fastforce simp: asleep_def thread_set dest: s(4))
qed

subsection \<open>Starting\<close>

text \<open>The calls on the listening socket.\<close>

lemma htons_htons [simp]: "htons (htons x) = x"
  by (rule bit_word_eqI) (auto simp: htons_def bit_simps)







end
