(* ===== verification/Interleaving.thy ===== *)
theory Interleaving
  imports Steps Session
begin

section \<open>Services interleaved in any way keep the database\<close>

text \<open>
  The assertion of a service here is only that the files are some database, that its client is
  connected and what its client has still to send; its steps promise to leave a database and to touch
  no other client. So the other services may do to the accounts what they like between its steps.
\<close>

definition safe :: "fd \<Rightarrow> bytes \<Rightarrow> world \<Rightarrow> bool" where
  "safe sock i w \<longleftrightarrow> (\<exists>db. db_rep w db) \<and> client w sock \<and> w_in w sock = i"

definition safe_step :: "fd \<Rightarrow> world \<Rightarrow> world \<Rightarrow> bool" where
  "safe_step sock w w' \<longleftrightarrow> (\<exists>db. db_rep w' db) \<and> effects {sock} w w'"

lemma effects_client:
  assumes "effects {sock} w w'" "client w c" "c \<noteq> sock"
  shows "client w' c" "w_in w' c = w_in w c" "w_out w' c = w_out w c"
  using assms(2,3) effects_fields(6) [OF assms(1)] effects_fields(7-9) [OF assms(1), of c] by (auto simp: client_def new_fd_def)

interpretation services: interference safe safe_step "\<lambda>c d. c \<noteq> d"
  using effects_client by unfold_locales (auto simp: safe_def safe_step_def)

definition goes :: "fd \<Rightarrow> bytes \<Rightarrow> world \<Rightarrow> world \<Rightarrow> bool" where
  "goes sock i w w' \<longleftrightarrow> safe sock i w' \<and> safe_step sock w w'"

abbreviation keeps :: "fd \<Rightarrow> bytes \<Rightarrow> service \<Rightarrow> bool" where
  "keeps sock i p \<equiv> guided (safe sock) (safe_step sock) (\<lambda>_ _. True) i p"

lemma served_goes:
  assumes "safe sock i w" "served sock w w' j b" "db_rep w' db"
  shows "goes sock j w w'"
  using assms effects_fields(6) [of "{sock}" w w']
  by (auto simp: goes_def safe_def safe_step_def served_def client_def)

lemma quiet_goes:
  assumes "safe sock i w" "db_rep w' db" "effects {} w w'"
  shows "goes sock i w w'"
proof -
  have "served sock w w i []" using assms(1) by (simp add: served_def safe_def)
  then have "served sock w w' i []"
    using served_effects(1) [OF _ assms(3)] assms(1) by (simp add: safe_def)
  then show ?thesis using served_goes [OF assms(1) _ assms(2)] by blast
qed

lemma keeps_call:
  assumes "\<And>w a w'. safe sock i w \<Longrightarrow> f w = (a, w') \<Longrightarrow> goes sock i w w' \<and> keeps sock i (k a)"
  shows "keeps sock i (call f k)"
proof (rule guided_call)
  fix w assume "safe sock i w"
  then show "\<exists>a w' s'. f w = (a, w') \<and> safe sock s' w' \<and> safe_step sock w w' \<and> keeps sock s' (k a)"
    using assms [of w] by (cases "f w") (auto simp: goes_def)
qed

lemma keeps_call_any:
  "(\<And>w. safe sock i w \<Longrightarrow> goes sock i w (snd (f w))) \<Longrightarrow> (\<And>a. keeps sock i (k a)) \<Longrightarrow> keeps sock i (call f k)"
  by (rule keeps_call) (metis snd_conv)

lemma keeps_do:
  "(\<And>w. safe sock i w \<Longrightarrow> goes sock i w (h w)) \<Longrightarrow> keeps sock i p \<Longrightarrow> keeps sock i (do_call h p)"
  unfolding do_call_def by (rule keeps_call_any) simp_all

subsection \<open>Each call keeps the database\<close>

lemma log_goes:
  assumes "safe sock i w"
  shows "goes sock i w (log_result op user code w)" "goes sock i w (log_sent n s u w)"
    "goes sock i w (log_stored n s u w)"
proof -
  have "goes sock i w (printf s w)" for s
  proof -
    obtain db where rep: "db_rep w db" using assms by (auto simp: safe_def)
    have quiet: "effects {} w (printf s w)"
      by (simp add: effects_def printf_def)
    have "db_rep (printf s w) db"
      by (rule db_rep_effects [OF rep quiet]) (simp_all add: printf_def)
    then show ?thesis
      using quiet_goes [OF assms] quiet by blast
  qed
  then show "goes sock i w (log_result op user code w)" "goes sock i w (log_sent n s u w)"
    "goes sock i w (log_stored n s u w)"
    by (simp_all add: log_result_def log_sent_def log_stored_def)
qed

lemma reply_goes:
  assumes "safe sock i w"
  shows "goes sock i w (snd (send_server_reply sock code w))"
  using reply_served [of w _ sock code] served_goes [OF assms] assms by (fastforce simp: safe_def)

lemma first_ack_goes:
  assumes "safe sock i w"
  shows "goes sock i w (aux_send_first_ack sock code n w)"
  using first_ack_served [of w _ sock code n] served_goes [OF assms] assms by (fastforce simp: safe_def)

lemma modify_goes:
  assumes "safe sock i w" "valid_user (e_username e)" "e_type e = ENT_TYPE_UD" "entry_ok e"
  shows "goes sock i w (snd (db_io_op_usr_ent e MODIFY w))"
proof -
  obtain db where rep: "db_rep w db" using assms(1) by (auto simp: safe_def)
  show ?thesis
  proof (cases "db (e_username e)")
    case None
    then show ?thesis
      using account_io_missing [OF rep assms(2) None refl, of MODIFY] assms(1,3) db_rep_simps(2) [OF rep]
      by (auto intro!: quiet_goes [OF assms(1), of _ db] simp: entry_type_ok_def)
  next
    case (Some a)
    have "user_entry (e_username e) e ((entry_account e)\<lparr>a_pend := a_pend a\<rparr>)"
      using assms(3,4) by (simp add: user_entry_def entry_account_def)
    then show ?thesis
      using modify_account_refines [OF rep assms(2) Some] db_only_effects
      by (fastforce intro: quiet_goes [OF assms(1)])
  qed
qed

lemma read_goes:
  assumes "safe sock i w" "valid_user (e_username e)" "e_type e = ENT_TYPE_UD" "entry_ok e"
    and "db_io_op_usr_ent e READ w = ((r, c), w')"
  shows "goes sock i w w' \<and> e_username c = e_username e \<and> e_type c = ENT_TYPE_UD \<and> entry_ok c"
proof -
  obtain db where rep: "db_rep w db" using assms(1) by (auto simp: safe_def)
  show ?thesis
  proof (cases "db (e_username e)")
    case None
    then show ?thesis
      using account_io_missing [OF rep assms(2) None refl, of READ] assms db_rep_simps(2) [OF rep]
      by (auto intro!: quiet_goes [OF assms(1), of _ db] simp: entry_type_ok_def)
  next
    case (Some a)
    then show ?thesis
      using read_account_refines [OF rep assms(2) Some refl assms(3,4)] assms(5) db_rep_simps(1) [OF rep]
      by (auto intro!: quiet_goes [OF assms(1), of _ db] dest: user_entry_facts)
  qed
qed


lemma exists_goes:
  assumes "safe sock i w" "valid_user u"
  shows "goes sock i w (snd (db_user_exists u w))"
proof -
  obtain db where rep: "db_rep w db" using assms(1) by (auto simp: safe_def)
  then show ?thesis
    using user_exists_refines [OF rep assms(2)] db_rep_simps(2) [OF rep]
    by (auto intro!: quiet_goes [OF assms(1), of _ db])
qed

lemma create_goes:
  assumes "safe sock i w" "valid_user (e_username e)" "e_type e = ENT_TYPE_UD" "entry_ok e"
  shows "goes sock i w (snd (db_creat_usr_tbl e w))"
proof -
  obtain db where rep: "db_rep w db" using assms(1) by (auto simp: safe_def)
  show ?thesis
  proof (cases "db (e_username e) = None")
    case True
    then show ?thesis
      using create_user_refines [OF rep refl assms(2) True assms(3,4)] db_only_effects
      by (fastforce intro: quiet_goes [OF assms(1)])
  next
    case False
    then show ?thesis
      using create_user_exists [OF rep assms(2)] db_rep_simps(2) [OF rep]
      by (auto intro!: quiet_goes [OF assms(1), of _ db])
  qed
qed

lemma delete_goes:
  assumes "safe sock i w" "valid_user u"
  shows "goes sock i w (snd (db_del_usr_tbl u w))"
proof -
  obtain db where rep: "db_rep w db" using assms(1) by (auto simp: safe_def)
  show ?thesis
  proof (cases "db u = None")
    case True
    have "look (w_files w) (w_cwd w @ [DB_DIR, u @ ''-table'']) = None"
      using db_rep_user(1) [OF rep assms(2) True] by (simp add: table_def)
    then have "db_del_usr_tbl u w = (DBMS_ERR_NOT_EXISTS, w\<lparr>w_errno := ENOENT\<rparr>)"
      using remove_recursive_missing_file [OF _ resolve_user_table] db_rep_user(3) [OF rep assms(2)] assms(2)
      by (simp add: db_del_usr_tbl_def world_ok_def)
    then show ?thesis
      using db_rep_simps(2) [OF rep] by (auto intro!: quiet_goes [OF assms(1), of _ db])
  next
    case False
    then show ?thesis
      using delete_user_refines [OF rep assms(2)] db_only_effects
      by (fastforce intro: quiet_goes [OF assms(1)])
  qed
qed

lemma store_goes:
  assumes "safe sock i w" "valid_user u" "msg_entry u n m e"
  shows "goes sock i w (snd (db_io_op_usr_ent e CREATE w))"
proof -
  obtain db where rep: "db_rep w db" using assms(1) by (auto simp: safe_def)
  show ?thesis
  proof (cases "db u")
    case None
    have "calm w" "world_ok w" using rep by (simp_all add: db_rep_def world_ok_def)
    moreover have "resolve w (entry_path e) = Inl ENOENT"
      using resolve_no_table(3) [OF \<open>world_ok w\<close> assms(2) db_rep_user(1) [OF rep assms(2) None]]
        message_path [OF msg_entry_facts(3,2,4) [OF assms(3)]] by simp
    ultimately have "db_io_op_usr_ent e CREATE w = ((DBMS_ERR_NOT_EXISTS, e), w\<lparr>w_errno := ENOENT\<rparr>)"
      using msg_entry_facts(3) [OF assms(3)]
      by (simp add: db_io_op_usr_ent_def open_file_def sys_open_def may_fail_calm failing_def)
    then show ?thesis
      using db_rep_simps(2) [OF rep] by (auto intro!: quiet_goes [OF assms(1), of _ db])
  next
    case (Some a)
    then show ?thesis
      using store_message_refines [OF rep assms(2) Some assms(3)] store_message_taken [OF rep assms(2) Some assms(3)]
        db_rep_simps(2) [OF rep] db_only_effects
      by (cases "a_pend a n = None") (fastforce intro: quiet_goes [OF assms(1)])+
  qed
qed

lemma message_goes:
  assumes "safe sock i w" "valid_user (e_username e)" "e_type e = ENT_TYPE_UD" "entry_ok e"
    and "clt_send_message rq e w = ((r, c), w')" "cstr (rq_op_code rq) = SEND_MESSAGE"
  shows "goes sock i w w' \<and> e_username c = e_username e \<and> e_type c = ENT_TYPE_UD \<and> entry_ok c"
proof -
  obtain db where rep: "db_rep w db" using assms(1) by (auto simp: safe_def)
  show ?thesis
  proof (cases "db (e_username e)")
    case None
    then show ?thesis
      using connect_missing_user [OF rep assms(2) None refl assms(3)] assms db_rep_simps(2) [OF rep]
      by (auto intro!: quiet_goes [OF assms(1), of _ db] simp: clt_send_message_def)
  next
    case (Some a)
    have "user_entry (e_username e) c a \<and> effects {} w w' \<and> w_files w' = w_files w"
      using send_message_listening [OF rep assms(2) Some _ refl assms(3,4,6) refl refl refl]
        send_message_refused [OF rep assms(2) Some _ refl assms(3,4), of rq] assms(5)
      by (cases "listening w a") auto
    then show ?thesis
      using quiet_goes [OF assms(1)] db_rep_effects [OF rep] by (auto dest: user_entry_facts)
  qed
qed

lemma second_ack_goes:
  assumes "safe sock i w" "valid_user (e_username e)" "e_type e = ENT_TYPE_UD" "entry_ok e"
    and "cstr (rq_op_code rq) = SEND_MESS_ACK"
  shows "goes sock i w (snd (clt_send_mess_ack rq e w))"
proof -
  obtain db where rep: "db_rep w db" using assms(1) by (auto simp: safe_def)
  show ?thesis
    using send_ack [OF rep assms(2) refl assms(3-5) refl] quiet_goes [OF assms(1)] db_rep_effects [OF rep]
    by fastforce
qed

lemma small_calls_goes:
  assumes "safe sock i w"
  shows "goes sock i w (snd (str_to_num s INT_T w))" "goes sock i w (snd (sys_getpeername d w))"
proof -
  obtain db where rep: "db_rep w db" using assms by (auto simp: safe_def)
  then have "calm w" by (simp add: db_rep_def world_ok_def)
  then have "snd (sys_getpeername d w) = w"
    by (simp add: getpeername_calm)
  then show "goes sock i w (snd (sys_getpeername d w))" using quiet_goes [OF assms rep] by simp
  have "\<exists>e. snd (str_to_num s INT_T w) = w\<lparr>w_errno := e\<rparr>"
    by (cases "strtol s") (auto simp: str_to_num_def Let_def clear_errno_def)
  then obtain e where "snd (str_to_num s INT_T w) = w\<lparr>w_errno := e\<rparr>" ..
  then show "goes sock i w (snd (str_to_num s INT_T w))"
    using quiet_goes [OF assms, of "w\<lparr>w_errno := e\<rparr>" db] db_rep_simps(2) [OF rep] by simp
qed


lemma get_pend_goes:
  assumes "safe sock i w" "valid_user u" "e_username e = u" "e_type e = ENT_TYPE_P_MSG" "entry_ok e"
    and "db_get_pend_msg e w = ((r, c), w')"
  shows "goes sock i w w' \<and> (r = DBMS_SUCCESS \<longrightarrow> (\<exists>n m. msg_entry u n m c))"
proof -
  obtain db where rep: "db_rep w db" using assms(1) by (auto simp: safe_def)
  consider "db u = None" | a where "db u = Some a" "a_pend a = Map.empty"
    | a where "db u = Some a" "a_pend a \<noteq> Map.empty" by blast
  then show ?thesis
  proof cases
    case 1
    then show ?thesis
      using get_pend_no_user [OF rep assms(2) _ assms(3,4)] assms(6) db_rep_simps(2) [OF rep]
      by (auto intro!: quiet_goes [OF assms(1), of _ db])
  next
    case 2
    then show ?thesis
      using get_pend_none [OF rep assms(2) _ _ assms(3,4)] assms(6) db_rep_simps(2) [OF rep]
      by (auto intro!: quiet_goes [OF assms(1), of _ db] simp: clear_errno_def)
  next
    case 3
    then obtain n m c' x where get: "msg_entry u n m c'"
        "db_get_pend_msg e w = ((DBMS_SUCCESS, c'), w\<lparr>w_errno := x, w_next := Suc (w_next w)\<rparr>)"
      using get_pend_refines [OF rep assms(2) _ _ assms(3-5)] by blast
    moreover have "db_rep (w\<lparr>w_errno := x, w_next := Suc (w_next w)\<rparr>) db"
      by (rule db_rep_effects [OF rep effects_quiet(1) [of "{}"]]) simp_all
    ultimately show ?thesis
      using assms(6) quiet_goes [OF assms(1) _ effects_quiet(1)] by (cases m) auto
  qed
qed

lemma remove_gone: "calm w \<Longrightarrow> missing w p \<Longrightarrow> remove_recursive p w = (DBMS_ERR_NOT_EXISTS, w\<lparr>w_errno := ENOENT\<rparr>)"
  by (simp add: remove_recursive_def opendir_gone)

lemma delete_message_goes:
  assumes "safe sock i w" "valid_user u" "msg_entry u n m e"
  shows "goes sock i w (snd (db_io_op_usr_ent e DELETE w))"
proof -
  obtain db where rep: "db_rep w db" using assms(1) by (auto simp: safe_def)
  have calm: "calm w" "world_ok w" using rep by (simp_all add: db_rep_def world_ok_def)
  have path: "entry_path e = pend_msg_path u n"
    by (rule message_path) (use assms(3) in \<open>simp_all add: msg_entry_def\<close>)
  show ?thesis
  proof (cases "\<exists>a. db u = Some a \<and> a_pend a n \<noteq> None")
    case True
    then show ?thesis
      using delete_message_refines [OF rep assms(2) _ assms(3)] db_only_effects
      by (fastforce intro: quiet_goes [OF assms(1)])
  next
    case False
    have "missing w (pend_msg_path u n)"
    proof (cases "db u")
      case None
      then show ?thesis
        using resolve_no_table(3) [OF calm(2) assms(2) db_rep_user(1) [OF rep assms(2)]] by (simp add: missing_def)
    next
      case (Some a)
      then show ?thesis
        using message_file(1) [OF rep assms(2) Some] message_file(2) [OF rep assms(2) Some, of n] False Some
        by (metis missing_def)
    qed
    then have "snd (db_io_op_usr_ent e DELETE w) = w\<lparr>w_errno := ENOENT\<rparr>"
      using remove_gone [OF calm(1)] assms(3) path by (simp add: db_io_op_usr_ent_def msg_entry_def)
    then show ?thesis
      using db_rep_simps(2) [OF rep] by (auto intro!: quiet_goes [OF assms(1), of _ db])
  qed
qed

subsection \<open>Each service keeps the database\<close>

lemma keeps_refuse [simp]: "keeps sock i (refuse_steps sock code)"
  unfolding refuse_steps_def by (rule keeps_do) (simp_all add: reply_goes)

lemma keeps_reply [simp]: "keeps sock i (reply_steps op sock req code)"
  unfolding reply_steps_def by (rule keeps_do) (simp_all add: log_goes)

lemma named_entry:
  assumes "garbage_ok g" "valid_user u"
  shows "e_username (set_e_type ENT_TYPE_UD (set_e_username u (g_entry g v))) = u"
    "e_type (set_e_type ENT_TYPE_UD (set_e_username u (g_entry g v))) = ENT_TYPE_UD"
    "entry_ok (set_e_type ENT_TYPE_UD (set_e_username u (g_entry g v)))"
    "e_username (set_e_username u (set_e_type ENT_TYPE_UD (g_entry g v))) = u"
    "e_type (set_e_username u (set_e_type ENT_TYPE_UD (g_entry g v))) = ENT_TYPE_UD"
    "entry_ok (set_e_username u (set_e_type ENT_TYPE_UD (g_entry g v)))"
    "e_username (set_e_last_msg_id n (set_e_type ENT_TYPE_UD (set_e_username u (g_entry g v)))) = u"
    "e_type (set_e_last_msg_id n (set_e_type ENT_TYPE_UD (set_e_username u (g_entry g v)))) = ENT_TYPE_UD"
    "entry_ok (set_e_last_msg_id n (set_e_type ENT_TYPE_UD (set_e_username u (g_entry g v))))"
  using assms by (simp_all add: cmem)

lemma keeps_read:
  assumes "valid_user (e_username e)" "e_type e = ENT_TYPE_UD" "entry_ok e"
    and "\<And>r c. e_username c = e_username e \<Longrightarrow> e_type c = ENT_TYPE_UD \<Longrightarrow> entry_ok c \<Longrightarrow>
      keeps sock i (k (r, c))"
  shows "keeps sock i (call (db_io_op_usr_ent e READ) k)"
  using read_goes [OF _ assms(1-3)] assms(4) by (intro keeps_call) force

lemma db_io_modify_entry: "db_io_op_usr_ent e MODIFY w = ((r, c), w') \<Longrightarrow> c = e"
  by (auto simp: db_io_op_usr_ent_def write_entry_def split: prod.splits if_splits)

lemma keeps_modify:
  assumes "valid_user (e_username e)" "e_type e = ENT_TYPE_UD" "entry_ok e"
    and "\<And>r. keeps sock i (k (r, e))"
  shows "keeps sock i (call (db_io_op_usr_ent e MODIFY) k)"
proof (rule keeps_call)
  fix w x w' assume "safe sock i w" "db_io_op_usr_ent e MODIFY w = (x, w')"
  then show "goes sock i w w' \<and> keeps sock i (k x)"
    using modify_goes [OF _ assms(1-3)] db_io_modify_entry assms(4) by (cases x) (metis snd_conv)
qed

lemma keeps_small:
  "(\<And>x. keeps sock i (k x)) \<Longrightarrow> keeps sock i (call (str_to_num s INT_T) k)"
  "(\<And>y. keeps sock i (l y)) \<Longrightarrow> keeps sock i (call (sys_getpeername d) l)"
  by (rule keeps_call_any, simp_all add: small_calls_goes)+

lemma keeps_exists:
  "valid_user u \<Longrightarrow> (\<And>x. keeps sock i (k x)) \<Longrightarrow> keeps sock i (call (db_user_exists u) k)"
  by (rule keeps_call_any) (simp_all add: exists_goes)

lemma keeps_message:
  assumes "valid_user (e_username e)" "e_type e = ENT_TYPE_UD" "entry_ok e" "cstr (rq_op_code rq) = SEND_MESSAGE"
    and "\<And>r c. e_username c = e_username e \<Longrightarrow> e_type c = ENT_TYPE_UD \<Longrightarrow> entry_ok c \<Longrightarrow>
      keeps sock i (k (r, c))"
  shows "keeps sock i (call (clt_send_message rq e) k)"
  using message_goes [OF _ assms(1-3) _ assms(4)] assms(5) by (intro keeps_call) force

lemma keeps_log:
  "keeps sock i p \<Longrightarrow> keeps sock i (do_call (log_sent n s u) p)"
  "keeps sock i p \<Longrightarrow> keeps sock i (do_call (log_stored n s u) p)"
  "keeps sock i p \<Longrightarrow> keeps sock i (do_call (log_result op user code) p)"
  by (rule keeps_do, simp_all add: log_goes)+

lemma keeps_get_pend:
  assumes "valid_user u" "e_username e = u" "e_type e = ENT_TYPE_P_MSG" "entry_ok e"
    and "\<And>n m c. msg_entry u n m c \<Longrightarrow> valid_user (e_msg_sender c) \<Longrightarrow> keeps sock i (k (DBMS_SUCCESS, c))"
    and "\<And>r c. r \<noteq> DBMS_SUCCESS \<Longrightarrow> keeps sock i (k (r, c))"
  shows "keeps sock i (call (db_get_pend_msg e) k)"
proof (rule keeps_call)
  fix w x w' assume "safe sock i w" "db_get_pend_msg e w = (x, w')"
  then have "goes sock i w w'" "fst x = DBMS_SUCCESS \<Longrightarrow> \<exists>n m. msg_entry u n m (snd x)"
    using get_pend_goes [OF _ assms(1-4), of sock i w "fst x" "snd x" w'] by (metis prod.collapse)+
  then show "goes sock i w w' \<and> keeps sock i (k x)"
    using assms(5) [of _ _ "snd x"] assms(6) [of "fst x" "snd x"] msg_entry_facts(5,7)
    by (cases "fst x = DBMS_SUCCESS") (metis prod.collapse)+
qed

lemma db_io_delete_entry: "db_io_op_usr_ent e DELETE w = ((r, c), w') \<Longrightarrow> c = e"
  by (auto simp: db_io_op_usr_ent_def split: prod.splits if_splits)

lemma keeps_delete:
  assumes "valid_user u" "msg_entry u n m e" "\<And>r. keeps sock i (k (r, e))"
  shows "keeps sock i (call (db_io_op_usr_ent e DELETE) k)"
proof (rule keeps_call)
  fix w x w' assume "safe sock i w" "db_io_op_usr_ent e DELETE w = (x, w')"
  then show "goes sock i w w' \<and> keeps sock i (k x)"
    using delete_message_goes [OF _ assms(1,2)] db_io_delete_entry assms(3) by (cases x) (metis snd_conv)
qed

lemma keeps_second_ack:
  assumes "valid_user (e_username e)" "e_type e = ENT_TYPE_UD" "entry_ok e" "cstr (rq_op_code rq) = SEND_MESS_ACK"
    and "\<And>r c. e_type c = ENT_TYPE_UD \<Longrightarrow> entry_ok c \<Longrightarrow> keeps sock i (k (r, c))"
  shows "keeps sock i (call (clt_send_mess_ack rq e) k)"
proof (rule keeps_call)
  fix w x w' assume w: "safe sock i w" "clt_send_mess_ack rq e w = (x, w')"
  then obtain db where rep: "db_rep w db" by (auto simp: safe_def)
  show "goes sock i w w' \<and> keeps sock i (k x)"
    using send_ack [OF rep assms(1) refl assms(2-4) refl] w(2) assms(5) quiet_goes [OF w(1)] db_rep_effects [OF rep]
    by fastforce
qed

lemma keeps_register:
  assumes "garbage_ok g" "valid_user (cstr (rq_username req))"
  shows "keeps sock i (register_steps g sock req)"
  unfolding register_steps_def using assms(2) named_entry [OF assms]
  by (intro keeps_call_any) (auto intro!: create_goes)

lemma keeps_unregister:
  assumes "valid_user (cstr (rq_username req))"
  shows "keeps sock i (unregister_steps sock req)"
  unfolding unregister_steps_def using assms
  by (auto intro!: keeps_call_any exists_goes delete_goes)

lemma keeps_disconnect:
  assumes "garbage_ok g" "valid_user (cstr (rq_username req))"
  shows "keeps sock i (disconnect_steps g sock req)"
  unfolding disconnect_steps_def using assms(2) named_entry [OF assms]
  by (auto simp: Let_def cmem intro!: keeps_read keeps_modify)

lemma keeps_pend:
  assumes "valid_user u"
  shows "e_username p = u \<Longrightarrow> e_type p = ENT_TYPE_P_MSG \<Longrightarrow> entry_ok p \<Longrightarrow>
    e_username r = u \<Longrightarrow> e_type r = ENT_TYPE_UD \<Longrightarrow> entry_ok r \<Longrightarrow> e_type s = ENT_TYPE_UD \<Longrightarrow> entry_ok s \<Longrightarrow>
    cstr (rq_op_code mr) = SEND_MESSAGE \<Longrightarrow> cstr (rq_op_code ar) = SEND_MESS_ACK \<Longrightarrow>
    keeps sock i (pend_steps n mr ar s r p)"
proof (induction n arbitrary: mr ar s r p)
  case (Suc n)
  have next_round: "keeps sock i (pend_steps n mr' ar' s' r' p')"
    if "msg_entry u k m p'" "e_username r' = u" "e_type r' = ENT_TYPE_UD" "entry_ok r'"
      "e_type s' = ENT_TYPE_UD" "entry_ok s'"
      "cstr (rq_op_code mr') = SEND_MESSAGE" "cstr (rq_op_code ar') = SEND_MESS_ACK" for mr' ar' s' r' p' k m
    using Suc.IH [of p' r' s' mr' ar'] that by (simp add: msg_entry_def)
  show ?case
    unfolding pend_steps.simps
    by (rule keeps_get_pend [OF assms Suc.prems(1-3)])
      (use Suc.prems assms in \<open>auto simp: Let_def cmem
        intro!: keeps_message keeps_modify keeps_log keeps_delete keeps_second_ack next_round\<close>)
qed simp

lemma keeps_forward:
  assumes "garbage_ok g" "valid_user u" "e_username p = u" "e_type p = ENT_TYPE_P_MSG" "entry_ok p"
  shows "keeps sock i (forward_steps n g p)"
  unfolding forward_steps_def using named_entry [OF assms(1,2)] assms
  by (auto simp: Let_def cmem SEND_MESSAGE_def SEND_MESS_ACK_def intro!: keeps_read keeps_pend)

lemma keeps_connect_reply:
  assumes "garbage_ok g" "valid_user (cstr (rq_username req))"
  shows "keeps sock i (connect_reply_steps n g sock req reply)"
  unfolding connect_reply_steps_def using assms
  by (auto simp: cmem intro!: keeps_log keeps_forward keeps_do reply_goes)

lemma keeps_connect:
  assumes "garbage_ok g" "valid_user (cstr (rq_username req))"
  shows "keeps sock i (connect_steps n g sock req)"
  unfolding connect_steps_def using assms(2) named_entry [OF assms] keeps_connect_reply [OF assms]
  by (auto simp: Let_def cmem intro!: keeps_read keeps_small keeps_modify)

subsection \<open>\<open>SEND\<close>\<close>

lemma keeps_ack:
  assumes "garbage_ok g" "valid_user (cstr (rq_message_sender req))"
  shows "keeps sock i (ack_steps g sock req reply recipient e)"
  unfolding ack_steps_def using assms(2) named_entry [OF assms]
  by (auto simp: Let_def SEND_MESS_ACK_def intro!: keeps_do keeps_second_ack first_ack_goes)

lemma db_io_create_entry: "db_io_op_usr_ent e CREATE w = ((r, c), w') \<Longrightarrow> c = e"
  by (auto simp: db_io_op_usr_ent_def write_entry_def split: prod.splits if_splits)

lemma keeps_create:
  assumes "valid_user u" "msg_entry u n m e" "\<And>r. keeps sock i (k (r, e))"
  shows "keeps sock i (call (db_io_op_usr_ent e CREATE) k)"
proof (rule keeps_call)
  fix w x w' assume "safe sock i w" "db_io_op_usr_ent e CREATE w = (x, w')"
  then show "goes sock i w w' \<and> keeps sock i (k x)"
    using store_goes [OF _ assms(1,2)] db_io_create_entry assms(3) by (cases x) (metis snd_conv)
qed

lemma keeps_store:
  assumes "garbage_ok g" "valid_user (cstr (rq_message_sender req))" "valid_user u" "msg_entry u n m e"
  shows "keeps sock i (store_steps g sock req reply recipient e)"
  unfolding store_steps_def using keeps_ack [OF assms(1,2)]
  by (auto simp: Let_def intro!: keeps_create [OF assms(3,4)] keeps_log)

lemma keeps_pass:
  assumes "garbage_ok g" "valid_user (cstr (rq_recipient req))" "valid_user (cstr (rq_message_sender req))"
    and "fits_array 256 (cstr (rq_message_content req))"
    and e: "e_username e = cstr (rq_recipient req)" "e_type e = ENT_TYPE_UD" "entry_ok e"
  shows "keeps sock i (pass_steps g sock req e)"
proof -
  have store: "keeps sock i (store_steps g sock req reply r (set_e_msg_id (e_last_msg_id e)
      (set_e_msg_content (cstr (rq_message_content req)) (set_e_msg_sender (cstr (rq_message_sender req))
        (set_e_username (cstr (rq_recipient req)) (set_e_type ENT_TYPE_P_MSG (g_entry g ''send.msg_entry'')))))))"
    for reply r
    by (rule keeps_store [OF assms(1,3,2) send_pass_entry [OF assms(2-4)]]) (use assms(1) in simp)
  have "cstr (rq_op_code (send_message_request g v s n m)) = SEND_MESSAGE" for v s n m
    by (simp add: send_message_request_def SEND_MESSAGE_def)
  then show ?thesis
    unfolding pass_steps_def using e assms(2) store
    by (auto simp: Let_def cmem intro!: keeps_message keeps_log keeps_modify)
qed

lemma keeps_send:
  assumes "garbage_ok g" "valid_user (cstr (rq_recipient req))" "valid_user (cstr (rq_message_sender req))"
    and "fits_array 256 (cstr (rq_message_content req))"
  shows "keeps sock i (send_steps g sock req)"
  unfolding send_steps_calls
  using assms(2,3) named_entry [OF assms(1,2)] keeps_pass [OF assms]
  by (auto simp: cmem intro!: keeps_exists keeps_read keeps_modify)

subsection \<open>Each request keeps the database\<close>

lemma keeps_recv:
  assumes "wire_ok s" "MAX_MSG_SIZE \<le> length buf" "keeps sock rest (k (0, strcpy_buf s buf))"
  shows "keeps sock (s @ NUL # rest) (call (recv_string sock buf) k)"
proof (rule guided_call)
  fix w assume w: "safe sock (s @ NUL # rest) w"
  then obtain db where rep: "db_rep w db" "client w sock" "w_in w sock = s @ NUL # rest" by (auto simp: safe_def)
  obtain w1 where w1: "recv_string sock buf w = ((0, strcpy_buf s buf), w1)" "served sock w w1 rest []" "db_rep w1 db"
    using receive [OF rep(1,2) assms(2,1) rep(3)] by blast
  show "\<exists>a w' s'. recv_string sock buf w = (a, w') \<and> safe sock s' w' \<and> safe_step sock w w' \<and> keeps sock s' (k a)"
    using w1(1) served_goes [OF w w1(2,3)] assms(3) by (auto simp: goes_def)
qed

text \<open>The process that serves a job, and what two jobs must not share: the socket.\<close>

definition job_steps :: "nat \<Rightarrow> job \<Rightarrow> service" where
  "job_steps n j = service_steps n (j_garbage j) (j_sock j) (j_request j)"

lemma wire_string: "wire_ok s \<Longrightarrow> cstr (strcpy_buf s buf) = s"
  by (simp add: wire_ok_def)

lemma wire_content: "wire_ok s \<Longrightarrow> fits_array 256 s"
  by (simp add: wire_ok_def fits_array_def MAX_MSG_SIZE_def)

lemma keeps_service:
  assumes "command_ok c" "garbage_ok g" "request_ok rq" "MAX_MSG_SIZE \<le> length (rq_op_code rq)"
  shows "keeps sock (command_bytes c) (service_steps n g sock rq)"
proof -
  note len = assms(3,4) [unfolded request_ok_def]
  have ops: "wire_ok REGISTER" "wire_ok UNREGISTER" "wire_ok CONNECT" "wire_ok DISCONNECT" "wire_ok SEND"
    by (simp_all add: wire_ok_def MAX_MSG_SIZE_def REGISTER_def UNREGISTER_def CONNECT_def DISCONNECT_def SEND_def)
  note steps = service_steps_def recv_name_def recv_port_def recv_content_def
  show ?thesis
  proof (cases c)
    case (Register u)
    then show ?thesis using assms(1,2) len
      by (auto simp: steps Let_def name_ok_def wire_string ops intro!: keeps_recv keeps_register)
  next
    case (Unregister u)
    then show ?thesis using assms(1,2) len
      by (auto simp: steps Let_def name_ok_def wire_string ops intro!: keeps_recv keeps_unregister)
  next
    case (Connect u p)
    then show ?thesis using assms(1,2) len
      by (auto simp: steps Let_def name_ok_def wire_string wire_show_u ops intro!: keeps_recv keeps_connect)
  next
    case (Disconnect u)
    then show ?thesis using assms(1,2) len
      by (auto simp: steps Let_def name_ok_def wire_string ops intro!: keeps_recv keeps_disconnect)
  next
    case (Send s u m)
    then show ?thesis using assms(1,2) len
      by (auto simp: steps Let_def name_ok_def wire_string wire_content ops intro!: keeps_recv keeps_send)
  qed
qed

lemma keeps_job:
  assumes "job_ready j w"
  shows "keeps (j_sock j) (command_bytes (j_command j)) (job_steps n j)"
  unfolding job_steps_def using assms by (intro keeps_service) (simp_all add: job_ready_def)

end
