(* ===== verification/Noninterference.thy ===== *)
theory Noninterference
  imports Interleaving
begin

section \<open>Services of different users do not interfere\<close>

text \<open>
  Here the assertion of a service is everything it knows: what its client has still to send and has
  been sent, and the accounts of the users its command names. Its steps change no other account and
  no other client. Services whose commands name different users then do in every interleaving what
  the specification says they do one after the other.
\<close>

primrec users_of :: "command \<Rightarrow> string set" where
  "users_of (Register u) = {u}"
| "users_of (Unregister u) = {u}"
| "users_of (Connect u p) = {u}"
| "users_of (Disconnect u) = {u}"
| "users_of (Send s u m) = {s, u}"

type_synonym local_state = "bytes \<times> bytes \<times> db"

definition holds :: "(u32 \<Rightarrow> u16 \<Rightarrow> bool) \<Rightarrow> (fd \<Rightarrow> u32) \<Rightarrow> fd \<Rightarrow> string set \<Rightarrow> local_state \<Rightarrow> world \<Rightarrow> bool" where
  "holds acc ip sock U s w \<longleftrightarrow> (case s of (i, out, d) \<Rightarrow>
     client w sock \<and> w_in w sock = i \<and> w_out w sock = out \<and> w_accepts w = acc \<and> w_peer_ip w = ip \<and>
     (\<exists>db. db_rep w db \<and> (\<forall>u \<in> U. db u = d u)))"

definition own_step :: "fd \<Rightarrow> string set \<Rightarrow> world \<Rightarrow> world \<Rightarrow> bool" where
  "own_step sock U w w' \<longleftrightarrow> effects {sock} w w' \<and>
     (\<exists>db db'. db_rep w db \<and> db_rep w' db' \<and> (\<forall>u. u \<notin> U \<longrightarrow> db' u = db u))"

subsection \<open>The files determine the accounts\<close>

lemma pend_unique:
  assumes "pend_files u T p" "pend_files u T q"
  shows "p n = q n"
proof -
  have name: "T [PEND_MSGS_TABLE, show_u n] \<noteq> None \<Longrightarrow> r n \<noteq> None" if "pend_files u T r" for r
    using pend_filesD(1) [OF that, of "show_u n"] show_u_inject by metis
  have ent: "\<exists>e. T [PEND_MSGS_TABLE, show_u n] = Some (FileI e) \<and> m = (e_msg_sender e, e_msg_content e)"
    if "pend_files u T r" "r n = Some m" for r m
    using that unfolding pend_files_def msg_entry_def by blast
  show ?thesis
  proof (cases "p n")
    case None
    then show ?thesis using name [OF assms(1)] ent [OF assms(2)] by (cases "q n") auto
  next
    case (Some m)
    then obtain m' where "q n = Some m'"
      using name [OF assms(2)] ent [OF assms(1) Some] by fastforce
    then show ?thesis using Some ent [OF assms(1) Some] ent [OF assms(2)] by fastforce
  qed
qed

lemma slot_unique:
  assumes "slot_files u T x" "slot_files u T y"
  shows "x = y"
proof (cases x; cases y)
  fix a b assume xy: "x = Some a" "y = Some b"
  then have f: "account_files u T a" "account_files u T b" using assms by simp_all
  have "entry_account e = a\<lparr>a_pend := Map.empty\<rparr> \<Longrightarrow> entry_account e = b\<lparr>a_pend := Map.empty\<rparr> \<Longrightarrow>
      a_pend a = a_pend b \<Longrightarrow> a = b" for e
    by (cases a; cases b) simp
  moreover have "a_pend a = a_pend b"
  proof
    fix n
    show "a_pend a n = a_pend b n"
      using f pend_unique [of u T "a_pend a" "a_pend b" n] by (simp add: account_files_def)
  qed
  ultimately show "x = y"
    using f xy by (auto simp: account_files_def user_entry_def)
qed (use assms in \<open>auto simp: account_files_def\<close>)

lemma db_rep_unique:
  assumes "db_rep w db" "db_rep w db'"
  shows "db = db'"
proof
  fix u
  show "db u = db' u"
  proof (cases "valid_user u")
    case True
    then show ?thesis using assms slot_unique by (auto simp: db_rep_def)
  next
    case False
    then show ?thesis using assms by (cases "db u"; cases "db' u") (auto simp: db_rep_def dom_def)
  qed
qed

lemma own_step_db:
  "own_step sock U w w' \<Longrightarrow> db_rep w db \<Longrightarrow> \<exists>db'. db_rep w' db' \<and> (\<forall>u. u \<notin> U \<longrightarrow> db' u = db u)"
  unfolding own_step_def using db_rep_unique by blast

definition job_holds :: "(u32 \<Rightarrow> u16 \<Rightarrow> bool) \<Rightarrow> (fd \<Rightarrow> u32) \<Rightarrow> job \<Rightarrow> local_state \<Rightarrow> world \<Rightarrow> bool" where
  "job_holds acc ip j = holds acc ip (j_sock j) (users_of (j_command j))"

definition job_step :: "job \<Rightarrow> world \<Rightarrow> world \<Rightarrow> bool" where
  "job_step j = own_step (j_sock j) (users_of (j_command j))"

definition jobs_disjoint :: "job \<Rightarrow> job \<Rightarrow> bool" where
  "jobs_disjoint j k \<longleftrightarrow> j_sock j \<noteq> j_sock k \<and> users_of (j_command j) \<inter> users_of (j_command k) = {}"

interpretation jobs: interference "job_holds acc ip" job_step jobs_disjoint for acc ip
proof
  fix j k :: job and s w w'
  assume d: "jobs_disjoint j k" and A: "job_holds acc ip k s w" and G: "job_step j w w'"
  obtain i out db1 where s: "s = (i, out, db1)" by (cases s)
  obtain db where db: "db_rep w db" "\<forall>u \<in> users_of (j_command k). db u = db1 u" "client w (j_sock k)"
    using A by (auto simp: job_holds_def holds_def s)
  obtain db' where db': "db_rep w' db'" "\<forall>u. u \<notin> users_of (j_command j) \<longrightarrow> db' u = db u"
    using own_step_db [OF G [unfolded job_step_def] db(1)] by blast
  have e: "effects {j_sock j} w w'" using G by (simp add: job_step_def own_step_def)
  have "\<forall>u \<in> users_of (j_command k). db' u = db1 u"
    using db(2) db'(2) d by (auto simp: jobs_disjoint_def)
  then show "job_holds acc ip k s w'"
    using A d effects_client [OF e, of "j_sock k"] effects_fields(4,5) [OF e] db'(1) db(3)
    by (auto simp: job_holds_def holds_def s jobs_disjoint_def)
qed

subsection \<open>What each call does to the accounts the service owns\<close>

lemma holdsI:
  assumes "served sock w w' j b" "db_rep w' db'" "\<forall>u \<in> U. db' u = d' u" "holds acc ip sock U (i, out, d) w"
  shows "holds acc ip sock U (j, out @ b, d') w'"
proof -
  have e: "effects {sock} w w'" using assms(1) by (simp add: served_def)
  have "client w' sock"
    using assms(1,4) effects_fields(6) [OF e] by (auto simp: served_def client_def holds_def)
  then show ?thesis
    using assms effects_fields(4,5) [OF e] by (auto simp: holds_def served_def)
qed

text \<open>The service comes to its end, with \<open>F\<close>.\<close>

abbreviation completes :: "(local_state \<Rightarrow> bool) \<Rightarrow> local_state \<Rightarrow> outcome \<Rightarrow> bool" where
  "completes F s r \<equiv> F s \<and> r = Done"

abbreviation does :: "(u32 \<Rightarrow> u16 \<Rightarrow> bool) \<Rightarrow> (fd \<Rightarrow> u32) \<Rightarrow> fd \<Rightarrow> string set \<Rightarrow> (local_state \<Rightarrow> bool) \<Rightarrow>
    bytes \<Rightarrow> bytes \<Rightarrow> db \<Rightarrow> service \<Rightarrow> bool" where
  "does acc ip sock U F i out d p \<equiv> guided (holds acc ip sock U) (own_step sock U) (completes F) (i, out, d) p"

lemma does_served:
  assumes "\<And>w db. db_rep w db \<Longrightarrow> client w sock \<Longrightarrow> w_in w sock = i \<Longrightarrow> \<forall>u \<in> U. db u = d u \<Longrightarrow>
      \<exists>a w' b j. f w = (a, w') \<and> served sock w w' j b \<and> db_rep w' db \<and>
        does acc ip sock U F j (out @ b) d (k a)"
  shows "does acc ip sock U F i out d (call f k)"
proof (rule guided_call)
  fix w assume h: "holds acc ip sock U (i, out, d) w"
  then obtain db where db: "db_rep w db" "client w sock" "w_in w sock = i" "\<forall>u \<in> U. db u = d u"
    by (auto simp: holds_def)
  obtain a w' b j where r: "f w = (a, w')" "served sock w w' j b" "db_rep w' db"
      "does acc ip sock U F j (out @ b) d (k a)"
    using assms [OF db] by blast
  have "own_step sock U w w'"
    using r(2,3) db(1) by (auto simp: own_step_def served_def)
  then show "\<exists>a w' s'. f w = (a, w') \<and> holds acc ip sock U s' w' \<and> own_step sock U w w' \<and>
      guided (holds acc ip sock U) (own_step sock U) (completes F) s' (k a)"
    using r(1,4) holdsI [OF r(2,3) db(4) h] by blast
qed

lemma does_quiet:
  assumes "\<And>w db. db_rep w db \<Longrightarrow> \<forall>u \<in> U. db u = d u \<Longrightarrow> w_accepts w = acc \<Longrightarrow> w_peer_ip w = ip \<Longrightarrow>
      \<exists>a w' db' d'. f w = (a, w') \<and> effects {} w w' \<and> db_rep w' db' \<and> (\<forall>u. u \<notin> U \<longrightarrow> db' u = db u) \<and>
        (\<forall>u \<in> U. db' u = d' u) \<and> does acc ip sock U F i out d' (k a)"
  shows "does acc ip sock U F i out d (call f k)"
proof (rule guided_call)
  fix w assume h: "holds acc ip sock U (i, out, d) w"
  then obtain db where db: "db_rep w db" "\<forall>u \<in> U. db u = d u" "w_accepts w = acc" "w_peer_ip w = ip"
    by (auto simp: holds_def)
  obtain a w' db' d' where r: "f w = (a, w')" "effects {} w w'" "db_rep w' db'" "\<forall>u. u \<notin> U \<longrightarrow> db' u = db u"
      "\<forall>u \<in> U. db' u = d' u" "does acc ip sock U F i out d' (k a)"
    using assms [OF db] by blast
  have "served sock w w i []" "client w sock" using h by (auto simp: served_def holds_def)
  then have "served sock w w' i []" using served_effects(1) [OF _ r(2)] by blast
  then have "holds acc ip sock U (i, out, d') w'"
    using holdsI [OF _ r(3,5) h] by fastforce
  moreover have "own_step sock U w w'"
    using effects_mono [OF r(2)] db(1) r(3,4) by (auto simp: own_step_def)
  ultimately show "\<exists>a w' s'. f w = (a, w') \<and> holds acc ip sock U s' w' \<and> own_step sock U w w' \<and>
      guided (holds acc ip sock U) (own_step sock U) (completes F) s' (k a)"
    using r(1,6) by blast
qed

text \<open>A call that leaves the accounts as they are, and one that changes the account of one user.\<close>

lemma does_look:
  assumes "\<And>w db. db_rep w db \<Longrightarrow> \<forall>u \<in> U. db u = d u \<Longrightarrow> w_accepts w = acc \<Longrightarrow> w_peer_ip w = ip \<Longrightarrow>
      \<exists>a w'. f w = (a, w') \<and> effects {} w w' \<and> db_rep w' db \<and>
        does acc ip sock U F i out d (k a)"
  shows "does acc ip sock U F i out d (call f k)"
  using assms by (intro does_quiet) blast

lemma does_change:
  assumes "u \<in> U" "\<And>w db. db_rep w db \<Longrightarrow> db u = d u \<Longrightarrow> \<exists>w'. f w = (a, w') \<and> db_only w w' \<and> db_rep w' (db(u := x))"
    and "does acc ip sock U F i out (d(u := x)) (k a)"
  shows "does acc ip sock U F i out d (call f k)"
proof (rule does_quiet)
  fix w db assume w: "db_rep w db" "\<forall>v \<in> U. db v = d v"
  then obtain w' where w': "f w = (a, w')" "db_only w w'" "db_rep w' (db(u := x))"
    using assms(1,2) by blast
  have "\<forall>v. v \<notin> U \<longrightarrow> (db(u := x)) v = db v" "\<forall>v \<in> U. (db(u := x)) v = (d(u := x)) v"
    using assms(1) w(2) by auto
  then show "\<exists>a w' db' d'. f w = (a, w') \<and> effects {} w w' \<and> db_rep w' db' \<and> (\<forall>u. u \<notin> U \<longrightarrow> db' u = db u) \<and>
      (\<forall>u \<in> U. db' u = d' u) \<and> does acc ip sock U F i out d' (k a)"
    using w' db_only_effects [OF w'(2)] assms(3) by blast
qed

lemma does_do:
  assumes "\<And>w. \<exists>e. h w = w\<lparr>w_log := e\<rparr>" "does acc ip sock U F i out d p"
  shows "does acc ip sock U F i out d (do_call h p)"
  unfolding do_call_def
proof (rule does_look)
  fix w db assume w: "db_rep w db"
  obtain e where h: "h w = w\<lparr>w_log := e\<rparr>" using assms(1) by blast
  have q: "effects {} w (h w)" by (simp add: effects_def h)
  have "db_rep (h w) db" by (rule db_rep_effects [OF w q]) (simp_all add: h)
  then show "\<exists>a w'. ((), h w) = (a, w') \<and> effects {} w w' \<and> db_rep w' db \<and> does acc ip sock U F i out d p"
    using q assms(2) by blast
qed

lemma does_log:
  "does acc ip sock U F i out d p \<Longrightarrow> does acc ip sock U F i out d (do_call (log_sent n s u) p)"
  "does acc ip sock U F i out d p \<Longrightarrow> does acc ip sock U F i out d (do_call (log_stored n s u) p)"
  "does acc ip sock U F i out d p \<Longrightarrow> does acc ip sock U F i out d (do_call (log_result op user code) p)"
  by (rule does_do, auto simp: log_sent_def log_stored_def log_result_def printf_def)+

lemma does_reply:
  assumes "does acc ip sock U F i (out @ reply_byte code) d p"
  shows "does acc ip sock U F i out d (do_call (\<lambda>w. snd (send_server_reply sock code w)) p)"
  unfolding do_call_def
proof (rule does_served)
  fix w db assume "db_rep w db" "client w sock" "w_in w sock = i"
  then show "\<exists>a w' b j. ((), snd (send_server_reply sock code w)) = (a, w') \<and> served sock w w' j b \<and> db_rep w' db \<and>
      does acc ip sock U F j (out @ b) d p"
    using reply_served [of w db sock code] assms by fastforce
qed

lemma does_first_ack:
  assumes "does acc ip sock U F i
    (out @ reply_byte code @ (if code = SRV_SUCCESS then show_u n @ [NUL] else [])) d p"
  shows "does acc ip sock U F i out d (do_call (aux_send_first_ack sock code n) p)"
  unfolding do_call_def
proof (rule does_served)
  fix w db assume "db_rep w db" "client w sock" "w_in w sock = i"
  then show "\<exists>a w' b j. ((), aux_send_first_ack sock code n w) = (a, w') \<and> served sock w w' j b \<and> db_rep w' db \<and>
      does acc ip sock U F j (out @ b) d p"
    using first_ack_served [of w db sock code n] assms by blast
qed

lemma does_recv:
  assumes "wire_ok s" "MAX_MSG_SIZE \<le> length buf" "does acc ip sock U F rest out d (k (0, strcpy_buf s buf))"
  shows "does acc ip sock U F (s @ NUL # rest) out d (call (recv_string sock buf) k)"
proof (rule does_served)
  fix w db assume "db_rep w db" "client w sock" "w_in w sock = s @ NUL # rest"
  then show "\<exists>a w' b j. recv_string sock buf w = (a, w') \<and> served sock w w' j b \<and> db_rep w' db \<and>
      does acc ip sock U F j (out @ b) d (k a)"
    using receive [OF _ _ assms(2,1)] assms(3) by fastforce
qed

lemma does_exists:
  assumes "u \<in> U" "valid_user u" "does acc ip sock U F i out d (k (of_bool (d u \<noteq> None)))"
  shows "does acc ip sock U F i out d (call (db_user_exists u) k)"
proof (rule does_look)
  fix w db assume w: "db_rep w db" "\<forall>u \<in> U. db u = d u"
  then show "\<exists>a w'. db_user_exists u w = (a, w') \<and> effects {} w w' \<and> db_rep w' db \<and> does acc ip sock U F i out d (k a)"
    using user_exists_refines [OF w(1) assms(2)] assms(1,3) by fastforce
qed

lemma does_read:
  assumes "u \<in> U" "valid_user u" "d u = Some a" "e_username e = u" "e_type e = ENT_TYPE_UD" "entry_ok e"
    and "\<And>c. user_entry u c a \<Longrightarrow> does acc ip sock U F i out d (k (DBMS_SUCCESS, c))"
  shows "does acc ip sock U F i out d (call (db_io_op_usr_ent e READ) k)"
proof (rule does_look)
  fix w db assume w: "db_rep w db" "\<forall>u \<in> U. db u = d u"
  then obtain c where "db_io_op_usr_ent e READ w = ((DBMS_SUCCESS, c), w\<lparr>w_next := Suc (w_next w)\<rparr>)" "user_entry u c a"
    using read_account_refines [OF w(1) assms(2) _ assms(4-6), of a] assms(1,3) by auto
  then show "\<exists>a w'. db_io_op_usr_ent e READ w = (a, w') \<and> effects {} w w' \<and> db_rep w' db \<and>
      does acc ip sock U F i out d (k a)"
    using w(1) assms(7) by fastforce
qed

lemma does_read_none:
  assumes "u \<in> U" "valid_user u" "d u = None" "e_username e = u" "e_type e = ENT_TYPE_UD"
    and "does acc ip sock U F i out d (k (DBMS_ERR_NOT_EXISTS, e))"
  shows "does acc ip sock U F i out d (call (db_io_op_usr_ent e READ) k)"
proof (rule does_look)
  fix w db assume w: "db_rep w db" "\<forall>u \<in> U. db u = d u"
  then have "db_io_op_usr_ent e READ w = ((DBMS_ERR_NOT_EXISTS, e), w\<lparr>w_errno := ENOENT\<rparr>)"
    using account_io_missing [OF w(1) assms(2) _ assms(4), of READ] assms(1,3,5) by (simp add: entry_type_ok_def)
  then show "\<exists>a w'. db_io_op_usr_ent e READ w = (a, w') \<and> effects {} w w' \<and> db_rep w' db \<and>
      does acc ip sock U F i out d (k a)"
    using w(1) assms(6) by simp
qed

lemma does_modify:
  assumes "u \<in> U" "valid_user u" "d u = Some a" "user_entry u e a'" "a_pend a' = a_pend a"
    and "does acc ip sock U F i out (d(u \<mapsto> a')) (k (DBMS_SUCCESS, e))"
  shows "does acc ip sock U F i out d (call (db_io_op_usr_ent e MODIFY) k)"
  using modify_account_refines [OF _ assms(2) _ assms(4,5)] assms(1,3,6)
  by (intro does_change [where u = u and x = "Some a'" and a = "(DBMS_SUCCESS, e)"]) auto

lemma does_create:
  assumes "u \<in> U" "e_username e = u" "valid_user u" "e_type e = ENT_TYPE_UD" "entry_ok e"
    and "d u = None \<Longrightarrow> does acc ip sock U F i out (d(u \<mapsto> entry_account e)) (k (DBMS_SUCCESS, e))"
    and "d u \<noteq> None \<Longrightarrow> does acc ip sock U F i out d (k (DBMS_ERR_EXISTS, e))"
  shows "does acc ip sock U F i out d (call (db_creat_usr_tbl e) k)"
proof (cases "d u")
  case None
  then show ?thesis
    using create_user_refines [OF _ assms(2,3) _ assms(4,5)] assms(1,6)
    by (intro does_change [where u = u and x = "Some (entry_account e)" and a = "(DBMS_SUCCESS, e)"]) auto
next
  case (Some a)
  show ?thesis
  proof (rule does_look)
    fix w db assume w: "db_rep w db" "\<forall>u \<in> U. db u = d u"
    then show "\<exists>a w'. db_creat_usr_tbl e w = (a, w') \<and> effects {} w w' \<and> db_rep w' db \<and>
        does acc ip sock U F i out d (k a)"
      using create_user_exists [OF w(1), of e] assms(1-3,7) Some by fastforce
  qed
qed

lemma does_delete:
  assumes "u \<in> U" "valid_user u" "d u \<noteq> None" "does acc ip sock U F i out (d(u := None)) (k 0)"
  shows "does acc ip sock U F i out d (call (db_del_usr_tbl u) k)"
  using delete_user_refines [OF _ assms(2)] assms(1,3,4)
  by (intro does_change [where u = u and x = None and a = 0]) auto

lemma does_message:
  assumes "u \<in> U" "valid_user u" "d u = Some a" "e_username e = u" "e_type e = ENT_TYPE_UD" "entry_ok e"
    and "cstr (rq_op_code rq) = SEND_MESSAGE"
    and "\<And>c. user_entry u c a \<Longrightarrow>
      does acc ip sock U F i out d (k (if acc (a_ip a) (a_port a) then SRV_SUCCESS else GEN_ERR_ANY, c))"
  shows "does acc ip sock U F i out d (call (clt_send_message rq e) k)"
proof (rule does_look)
  fix w db assume w: "db_rep w db" "\<forall>u \<in> U. db u = d u" "w_accepts w = acc"
  then have a: "db u = Some a" using assms(1,3) by simp
  have "\<exists>c w'. clt_send_message rq e w = ((if acc (a_ip a) (a_port a) then SRV_SUCCESS else GEN_ERR_ANY, c), w') \<and>
      user_entry u c a \<and> effects {} w w' \<and> w_files w' = w_files w"
    using send_message_listening [OF w(1) assms(2) a _ assms(4-7) refl refl refl]
      send_message_refused [OF w(1) assms(2) a _ assms(4-6), of rq] w(3)
    by (cases "acc (a_ip a) (a_port a)") auto
  then obtain c w' where "clt_send_message rq e w = ((if acc (a_ip a) (a_port a) then SRV_SUCCESS else GEN_ERR_ANY, c), w')"
      "user_entry u c a" "effects {} w w'" "w_files w' = w_files w" by blast
  then show "\<exists>a w'. clt_send_message rq e w = (a, w') \<and> effects {} w w' \<and> db_rep w' db \<and>
      does acc ip sock U F i out d (k a)"
    using assms(8) db_rep_effects [OF w(1)] by blast
qed

lemma does_second_ack:
  assumes "valid_user (e_username e)" "e_type e = ENT_TYPE_UD" "entry_ok e" "cstr (rq_op_code rq) = SEND_MESS_ACK"
    and "\<And>r c. e_type c = ENT_TYPE_UD \<Longrightarrow> entry_ok c \<Longrightarrow> does acc ip sock U F i out d (k (r, c))"
  shows "does acc ip sock U F i out d (call (clt_send_mess_ack rq e) k)"
proof (rule does_look)
  fix w db assume w: "db_rep w db"
  obtain r c w' where "clt_send_mess_ack rq e w = ((r, c), w')" "e_type c = ENT_TYPE_UD" "entry_ok c"
      "effects {} w w'" "w_files w' = w_files w"
    using send_ack [OF w assms(1) refl assms(2-4) refl] by blast
  then show "\<exists>a w'. clt_send_mess_ack rq e w = (a, w') \<and> effects {} w w' \<and> db_rep w' db \<and>
      does acc ip sock U F i out d (k a)"
    using assms(5) db_rep_effects [OF w] by blast
qed

lemma does_store:
  assumes "u \<in> U" "valid_user u" "d u = Some a" "msg_entry u n m e"
    and "a_pend a n = None \<Longrightarrow>
      does acc ip sock U F i out (d(u \<mapsto> a\<lparr>a_pend := (a_pend a)(n \<mapsto> m)\<rparr>)) (k (DBMS_SUCCESS, e))"
    and "a_pend a n \<noteq> None \<Longrightarrow> does acc ip sock U F i out d (k (DBMS_ERR_ANY, e))"
  shows "does acc ip sock U F i out d (call (db_io_op_usr_ent e CREATE) k)"
proof (cases "a_pend a n = None")
  case True
  then show ?thesis
    using store_message_refines [OF _ assms(2) _ assms(4)] assms(1,3,5)
    by (intro does_change [where u = u and x = "Some (a\<lparr>a_pend := (a_pend a)(n \<mapsto> m)\<rparr>)" and a = "(DBMS_SUCCESS, e)"])
      auto
next
  case False
  show ?thesis
  proof (rule does_look)
    fix w db assume w: "db_rep w db" "\<forall>u \<in> U. db u = d u"
    then have "db_io_op_usr_ent e CREATE w = ((DBMS_ERR_ANY, e), w\<lparr>w_errno := EEXIST\<rparr>)"
      using store_message_taken [OF w(1) assms(2) _ assms(4) False] assms(1,3) by simp
    then show "\<exists>a w'. db_io_op_usr_ent e CREATE w = (a, w') \<and> effects {} w w' \<and> db_rep w' db \<and>
        does acc ip sock U F i out d (k a)"
      using w(1) assms(6) [OF False] by simp
  qed
qed

lemma does_delete_message:
  assumes "u \<in> U" "valid_user u" "d u = Some a" "msg_entry u n m e" "a_pend a n \<noteq> None"
    and "does acc ip sock U F i out (d(u \<mapsto> a\<lparr>a_pend := (a_pend a)(n := None)\<rparr>)) (k (DBMS_SUCCESS, e))"
  shows "does acc ip sock U F i out d (call (db_io_op_usr_ent e DELETE) k)"
  using delete_message_refines [OF _ assms(2) _ assms(4)] assms(1,3,5,6)
  by (intro does_change [where u = u and x = "Some (a\<lparr>a_pend := (a_pend a)(n := None)\<rparr>)" and a = "(DBMS_SUCCESS, e)"])
    auto

lemma does_get_pend:
  assumes "u \<in> U" "valid_user u" "d u = Some a" "e_username e = u" "e_type e = ENT_TYPE_P_MSG" "entry_ok e"
    and "a_pend a = Map.empty \<Longrightarrow> does acc ip sock U F i out d (k (DBMS_ERR_NOT_EXISTS, e))"
    and "\<And>n m c. a_pend a n = Some m \<Longrightarrow> msg_entry u n m c \<Longrightarrow> does acc ip sock U F i out d (k (DBMS_SUCCESS, c))"
  shows "does acc ip sock U F i out d (call (db_get_pend_msg e) k)"
proof (rule does_look)
  fix w db assume w: "db_rep w db" "\<forall>u \<in> U. db u = d u"
  then have a: "db u = Some a" using assms(1,3) by simp
  show "\<exists>a w'. db_get_pend_msg e w = (a, w') \<and> effects {} w w' \<and> db_rep w' db \<and> does acc ip sock U F i out d (k a)"
  proof (cases "a_pend a = Map.empty")
    case True
    then show ?thesis
      using get_pend_none [OF w(1) assms(2) a True assms(4,5)] assms(7) w(1) effects_quiet(4) [of "{}" w]
      by (auto simp: clear_errno_def)
  next
    case False
    obtain n m c x where "a_pend a n = Some m" "msg_entry u n m c"
        "db_get_pend_msg e w = ((DBMS_SUCCESS, c), w\<lparr>w_errno := x, w_next := Suc (w_next w)\<rparr>)"
      using get_pend_refines [OF w(1) assms(2) a False assms(4-6)] by blast
    moreover have "db_rep (w\<lparr>w_errno := x, w_next := Suc (w_next w)\<rparr>) db"
      by (rule db_rep_effects [OF w(1) effects_quiet(1) [of "{}"]]) simp_all
    ultimately show ?thesis
      using assms(8) effects_quiet(1) by blast
  qed
qed

lemma does_port:
  assumes "does acc ip sock U F i out d (k (0, Some (IntNum p)))"
  shows "does acc ip sock U F i out d (call (str_to_num (show_u p) INT_T) k)"
proof (rule does_look)
  fix w db assume w: "db_rep w db"
  have "db_rep (clear_errno w) db"
    by (rule db_rep_effects [OF w effects_quiet(4) [of "{}"]]) (simp_all add: clear_errno_def)
  then show "\<exists>a w'. str_to_num (show_u p) INT_T w = (a, w') \<and> effects {} w w' \<and> db_rep w' db \<and>
      does acc ip sock U F i out d (k a)"
    using assms by (simp add: str_to_num_show_int)
qed

lemma does_getpeername:
  assumes "does acc ip sock U F i out d (k (0, ip sock))"
  shows "does acc ip sock U F i out d (call (sys_getpeername sock) k)"
proof (rule does_look)
  fix w db assume w: "db_rep w db" "w_peer_ip w = ip"
  then have "calm w" by (simp add: db_rep_def world_ok_def)
  then show "\<exists>a w'. sys_getpeername sock w = (a, w') \<and> effects {} w w' \<and> db_rep w' db \<and>
      does acc ip sock U F i out d (k a)"
    using assms w by (simp add: getpeername_calm)
qed

subsection \<open>The services\<close>

lemma does_answer:
  assumes "F (i, out @ reply_byte code, d)"
  shows "does acc ip sock U F i out d (refuse_steps sock code)"
    "does acc ip sock U F i out d (reply_steps op sock req code)"
  using assms by (auto simp: reply_steps_def refuse_steps_def intro!: does_log does_reply)

lemma does_register:
  assumes "u \<in> U" "valid_user u" "cstr (rq_username req) = u" "garbage_ok g"
    and "case chat_spec g acc x (Register u) d of (b, d') \<Rightarrow> F (i, out @ b, d')"
  shows "does acc ip sock U F i out d (register_steps g sock req)"
proof -
  let ?e = "set_e_last_msg_id 0 (set_e_type ENT_TYPE_UD (set_e_username u (g_entry g ''register.entry'')))"
  have "entry_account ?e = new_account g"
    using assms(2,4) by (simp add: entry_account_def new_account_def cmem)
  then show ?thesis
    unfolding register_steps_def using assms named_entry(7-9) [OF assms(4,2)]
    by (intro does_create [where u = u]) (auto intro!: does_answer)
qed

lemma does_unregister:
  assumes "u \<in> U" "valid_user u" "cstr (rq_username req) = u"
    and "case chat_spec g acc x (Unregister u) d of (b, d') \<Rightarrow> F (i, out @ b, d')"
  shows "does acc ip sock U F i out d (unregister_steps sock req)"
  unfolding unregister_steps_def assms(3) using assms(1,2,4)
  by (intro does_exists [where u = u]) (auto intro!: does_answer does_delete)

lemma does_disconnect:
  assumes "u \<in> U" "valid_user u" "cstr (rq_username req) = u" "garbage_ok g"
    and F: "case disconnect_outcome (d u) of (code, x) \<Rightarrow> F (i, out @ reply_byte code, d(u := x))"
  shows "does acc ip sock U F i out d (disconnect_steps g sock req)"
proof (cases "d u")
  case None
  then have "d(u := None) = d" by auto
  then show ?thesis
    unfolding disconnect_steps_def using assms(1-3) F None named_entry(1-3) [OF assms(4,2)]
    by (intro does_read_none [where u = u]) (auto simp: disconnect_outcome_def intro!: does_answer)
next
  case (Some a)
  then have same: "d(u \<mapsto> a) = d" by auto
  have e: "user_entry u (set_e_port 0 (set_e_ip 0 (set_e_status STATUS_DCN c)))
      (a\<lparr>a_status := STATUS_DCN, a_ip := 0, a_port := 0\<rparr>)" if "user_entry u c a" for c
    using that by (simp add: user_entry_iff cmem)
  show ?thesis
    unfolding disconnect_steps_def using assms(1-3) F Some same named_entry(1-3) [OF assms(4,2)]
    by (intro does_read [where u = u])
      (auto simp: disconnect_outcome_def user_entry_facts(4) split: if_splits
        intro!: does_answer does_modify [where u = u and a = a, OF _ _ _ e])
qed

text \<open>Forwarding: one round less is needed for every message that is taken out.\<close>

lemma does_pend:
  assumes u: "u \<in> U" "valid_user u"
  shows "d u = Some a \<Longrightarrow> card (dom (a_pend a)) < n \<Longrightarrow> F (i, out, d(u \<mapsto> pend_outcome acc a)) \<Longrightarrow>
    e_username p = u \<Longrightarrow> e_type p = ENT_TYPE_P_MSG \<Longrightarrow> entry_ok p \<Longrightarrow>
    e_username r = u \<Longrightarrow> e_type r = ENT_TYPE_UD \<Longrightarrow> entry_ok r \<Longrightarrow> e_type s = ENT_TYPE_UD \<Longrightarrow> entry_ok s \<Longrightarrow>
    cstr (rq_op_code mr) = SEND_MESSAGE \<Longrightarrow> cstr (rq_op_code ar) = SEND_MESS_ACK \<Longrightarrow>
    does acc ip sock U F i out d (pend_steps n mr ar s r p)"
proof (induction n arbitrary: a d mr ar s r p)
  case (Suc n)
  have empty: "a_pend a = Map.empty \<Longrightarrow> F (i, out, d)"
    using Suc.prems(1,3) by (simp add: pend_outcome_def fun_upd_idem)
  have refused: "F (i, out, d(u \<mapsto> a\<lparr>a_status := STATUS_DCN\<rparr>))"
    if "\<not> acc (a_ip a) (a_port a)" "a_pend a k = Some m" for k m
  proof -
    have "pend_outcome acc a = a\<lparr>a_status := STATUS_DCN\<rparr>"
      using that by (auto simp: pend_outcome_def)
    then show ?thesis using Suc.prems(3) by (simp only:)
  qed
  have deliver: "does acc ip sock U F i out (d(u \<mapsto> a\<lparr>a_pend := (a_pend a)(k := None)\<rparr>)) (pend_steps n mr' ar' s' r' c)"
    if "acc (a_ip a) (a_port a)" "a_pend a k = Some m" "msg_entry u k m c" "user_entry u r' a"
      "e_type s' = ENT_TYPE_UD" "entry_ok s'"
      "cstr (rq_op_code mr') = SEND_MESSAGE" "cstr (rq_op_code ar') = SEND_MESS_ACK" for k m c mr' ar' s' r'
  proof (rule Suc.IH [where a = "a\<lparr>a_pend := (a_pend a)(k := None)\<rparr>"])
    have "0 < card (dom (a_pend a))"
      using that(2) by (auto simp: card_gt_0_iff)
    then show "card (dom (a_pend (a\<lparr>a_pend := (a_pend a)(k := None)\<rparr>))) < n"
      using Suc.prems(2) that(2) by (simp add: card_Diff_singleton domI)
    have "pend_outcome acc (a\<lparr>a_pend := (a_pend a)(k := None)\<rparr>) = pend_outcome acc a"
      using that(1,2) by (auto simp: pend_outcome_def)
    then show "F (i, out, (d(u \<mapsto> a\<lparr>a_pend := (a_pend a)(k := None)\<rparr>))
        (u \<mapsto> pend_outcome acc (a\<lparr>a_pend := (a_pend a)(k := None)\<rparr>)))"
      using Suc.prems(3) by (simp only: fun_upd_upd)
  qed (use that msg_entry_facts [OF that(3)] user_entry_facts [OF that(4)] in simp_all)
  have e: "user_entry u (set_e_status STATUS_DCN r') (a\<lparr>a_status := STATUS_DCN\<rparr>)" if "user_entry u r' a" for r'
    using that by (simp add: user_entry_iff cmem)
  have s: "valid_user (e_username (set_e_username (e_msg_sender c) s))"
      "e_type (set_e_username (e_msg_sender c) s) = ENT_TYPE_UD" "entry_ok (set_e_username (e_msg_sender c) s)"
    if "msg_entry u k m c" for k m c
    using Suc.prems(10,11) msg_entry_facts(5,7) [OF that] by (simp_all add: cmem)
  show ?case
    unfolding pend_steps.simps
    by (rule does_get_pend [where u = u and a = a])
      (use Suc.prems u s e refused deliver empty in \<open>auto simp: Let_def
        intro!: does_message [where u = u and a = a] does_log does_second_ack
          does_delete_message [where u = u and a = a] does_modify [where u = u and a = a and a' = "a\<lparr>a_status := STATUS_DCN\<rparr>"]\<close>)
qed simp

lemma does_forward:
  assumes "u \<in> U" "valid_user u" "garbage_ok g" "e_username p = u" "e_type p = ENT_TYPE_P_MSG" "entry_ok p"
    and n: "\<And>a. d u = Some a \<Longrightarrow> card (dom (a_pend a)) < n"
    and F: "F (i, out, d(u := map_option (pend_outcome acc) (d u)))"
  shows "does acc ip sock U F i out d (forward_steps n g p)"
proof (cases "d u")
  case None
  then have "d(u := None) = d" by auto
  then show ?thesis
    unfolding forward_steps_def using assms None named_entry(4,5) [OF assms(3,2)]
    by (auto simp: Let_def intro!: does_read_none [where u = u])
next
  case (Some a)
  show ?thesis
    unfolding forward_steps_def using assms Some named_entry(4-6) [OF assms(3,2)] user_entry_facts(1-3)
    by (auto simp: Let_def cmem SEND_MESSAGE_def SEND_MESS_ACK_def
        intro!: does_read [where u = u and a = a] does_pend [where u = u and a = a])
qed

lemma does_connect_reply:
  assumes "u \<in> U" "valid_user u" "cstr (rq_username req) = u" "garbage_ok g"
    and "\<And>a. d u = Some a \<Longrightarrow> card (dom (a_pend a)) < n"
    and "F (i, out @ reply_byte code, d(u := map_option (pend_outcome acc) (d u)))"
  shows "does acc ip sock U F i out d (connect_reply_steps n g sock req code)"
  unfolding connect_reply_steps_def using assms
  by (auto simp: cmem intro!: does_log does_reply does_forward [where u = u])

lemma does_connect:
  assumes "u \<in> U" "valid_user u" "cstr (rq_username req) = u" "garbage_ok g" "cstr (rq_client_port req) = show_u p"
    and n: "\<And>a. d u = Some a \<Longrightarrow> card (dom (a_pend a)) < n"
    and F: "case connect_outcome g acc (ip sock) p (d u) of (code, x) \<Rightarrow> F (i, out @ reply_byte code, d(u := x))"
  shows "does acc ip sock U F i out d (connect_steps n g sock req)"
proof (cases "d u")
  case None
  then show ?thesis
    unfolding connect_steps_def using assms(1-4) F None named_entry(1-3) [OF assms(4,2)]
    by (auto simp: connect_outcome_def intro!: does_read_none [where u = u] does_connect_reply [where u = u])
next
  case (Some a)
  let ?a = "a\<lparr>a_status := STATUS_CN, a_ip := ip sock, a_port := ucast p\<rparr>"
  have e: "user_entry u (set_e_ip (ip sock) (set_e_port (ucast p) (set_e_status STATUS_CN c))) ?a" if "user_entry u c a" for c
    using that by (simp add: user_entry_iff cmem)
  show ?thesis
    unfolding connect_steps_def assms(3,5) using assms(1-4) F Some n named_entry(1-3) [OF assms(4,2)] e
    by (auto simp: connect_outcome_def port_of_def Let_def user_entry_facts(4) split: if_splits
        intro!: does_read [where u = u and a = a] does_connect_reply [where u = u] does_port does_getpeername
          does_modify [where u = u and a = a and a' = ?a])
qed

subsection \<open>\<open>SEND\<close>\<close>

lemma does_ack:
  assumes "valid_user (cstr (rq_message_sender req))" "garbage_ok g" "e_msg_id me = n"
    and "F (i, out @ reply_byte code @ (if code = SRV_SUCCESS then show_u n @ [NUL] else []), d)"
  shows "does acc ip sock U F i out d (ack_steps g sock req code c me)"
  unfolding ack_steps_def assms(3) using assms(1,4) named_entry(4-6) [OF assms(2,1)]
  by (auto simp: Let_def SEND_MESS_ACK_def simp del: append_assoc intro!: does_first_ack does_second_ack)

text \<open>The account after the delivery was tried, and after the message was stored.\<close>

lemma does_store_steps:
  assumes "u \<in> U" "valid_user u" "d u = Some a" "user_entry u c a" "msg_entry u n (s, m) me"
    and "valid_user (cstr (rq_message_sender req))" "garbage_ok g"
    and F: "if \<not> stores g a then F (i, out @ reply_byte SRV_SUCCESS @ show_u n @ [NUL], d)
      else if a_pend a n = None then
        F (i, out @ reply_byte SRV_SUCCESS @ show_u n @ [NUL], d(u \<mapsto> a\<lparr>a_pend := (a_pend a)(n \<mapsto> (s, m))\<rparr>))
      else F (i, out @ reply_byte SRV_ERR_SEND_ANY, d)"
  shows "does acc ip sock U F i out d (store_steps g sock req SRV_SUCCESS c me)"
proof -
  have st: "(e_status c = STATUS_DCN \<or> g_code g ''send.send_msg_reply'' \<noteq> SRV_SUCCESS) = stores g a"
    using user_entry_facts(4) [OF assms(4)] by (simp add: stores_def)
  have id: "e_msg_id me = n" using assms(5) by (simp add: msg_entry_def)
  show ?thesis
  proof (cases "stores g a")
    case True
    then show ?thesis
      unfolding store_steps_def st using assms(1-3,5-7) F id
      by (auto simp: Let_def intro!: does_store [where u = u and a = a and n = n and m = "(s, m)"] does_log does_ack)
  next
    case False
    then show ?thesis
      unfolding store_steps_def st using assms(6,7) F id by (auto intro!: does_ack)
  qed
qed

text \<open>From the delivery on, for the account \<open>a\<close> whose number has already been advanced.\<close>

lemma does_pass:
  assumes "u \<in> U" "valid_user u" "d u = Some a" "user_entry u c a" "garbage_ok g"
    and names: "cstr (rq_message_sender req) = s" "cstr (rq_recipient req) = u" "cstr (rq_message_content req) = m"
      "valid_user s" "fits_array 256 m"
    and tried: "tried = (if a_status a = STATUS_CN \<and> \<not> acc (a_ip a) (a_port a) then a\<lparr>a_status := STATUS_DCN\<rparr> else a)"
    and F: "if \<not> stores g tried then F (i, out @ reply_byte SRV_SUCCESS @ show_u (a_last a) @ [NUL], d(u \<mapsto> tried))
      else if a_pend a (a_last a) = None then
        F (i, out @ reply_byte SRV_SUCCESS @ show_u (a_last a) @ [NUL],
          d(u \<mapsto> tried\<lparr>a_pend := (a_pend a)(a_last a \<mapsto> (s, m))\<rparr>))
      else F (i, out @ reply_byte SRV_ERR_SEND_ANY, d(u \<mapsto> tried))"
  shows "does acc ip sock U F i out d (pass_steps g sock req c)"
proof -
  note cf = user_entry_facts [OF assms(4)]
  let ?me = "set_e_msg_id (a_last a) (set_e_msg_content m (set_e_msg_sender s (set_e_username u
    (set_e_type ENT_TYPE_P_MSG (g_entry g ''send.msg_entry'')))))"
  have me: "msg_entry u (a_last a) (s, m) ?me"
    by (rule send_pass_entry) (use assms in simp_all)
  have store: "does acc ip sock U F i out (d(u \<mapsto> tried)) (store_steps g sock req SRV_SUCCESS c' ?me)"
    if "user_entry u c' tried" for c'
    by (rule does_store_steps [OF assms(1,2) _ that me]) (use assms in auto)
  have op: "cstr (rq_op_code (send_message_request g v s n m)) = SEND_MESSAGE" for v n
    by (simp add: send_message_request_def SEND_MESSAGE_def)
  have same: "tried = a \<Longrightarrow> d(u \<mapsto> tried) = d" using assms(3) by auto
  have e: "user_entry u (set_e_status STATUS_DCN c') (a\<lparr>a_status := STATUS_DCN\<rparr>)" if "user_entry u c' a" for c'
    using that by (simp add: user_entry_iff cmem)
  consider "a_status a = STATUS_CN" "acc (a_ip a) (a_port a)" | "a_status a = STATUS_CN" "\<not> acc (a_ip a) (a_port a)"
    | "a_status a \<noteq> STATUS_CN" by blast
  then show ?thesis
  proof cases
    case 1
    then show ?thesis
      unfolding pass_steps_def names using assms(1-3) cf op store same tried
      by (auto simp: Let_def intro!: does_message [where u = u and a = a] does_log)
  next
    case 2
    then show ?thesis
      unfolding pass_steps_def names using assms(1-3) cf op store tried e
      by (auto simp: Let_def intro!: does_message [where u = u and a = a] does_log
          does_modify [where u = u and a = a and a' = "a\<lparr>a_status := STATUS_DCN\<rparr>"])
  next
    case 3
    then show ?thesis
      unfolding pass_steps_def names using cf store [of c] same tried assms(4) by (auto simp: Let_def)
  qed
qed

lemma does_send:
  assumes "s \<in> U" "u \<in> U" "valid_user s" "valid_user u" "fits_array 256 m" "garbage_ok g"
    and names: "cstr (rq_message_sender req) = s" "cstr (rq_recipient req) = u" "cstr (rq_message_content req) = m"
    and F: "case chat_spec g acc x (Send s u m) d of (b, d') \<Rightarrow> F (i, out @ b, d')"
  shows "does acc ip sock U F i out d (send_steps g sock req)"
proof (cases "d s = None \<or> d u = None")
  case True
  then have "F (i, out @ reply_byte SRV_ERR_SEND_USR_NOT_EXISTS, d)"
    using F by (auto split: option.splits)
  then show ?thesis
    unfolding send_steps_calls names using assms(1-4) True
    by (auto intro!: does_exists [where u = s] does_exists [where u = u] does_answer)
next
  case False
  then obtain a b where ab: "d u = Some a" "d s = Some b" by auto
  let ?n = "next_msg_id (a_last a)"
  let ?a1 = "a\<lparr>a_last := ?n\<rparr>" and ?a2 = "passed_account acc a"
  have e1: "user_entry u (set_e_last_msg_id ?n c) ?a1" if "user_entry u c a" for c
    using that by (simp add: user_entry_iff cmem)
  have pass: "does acc ip sock U F i out (d(u \<mapsto> ?a1)) (pass_steps g sock req c)" if "user_entry u c ?a1" for c
  proof (rule does_pass [where tried = ?a2, OF assms(2,4) _ that assms(6) names assms(3,5)])
    show "?a2 = (if a_status ?a1 = STATUS_CN \<and> \<not> acc (a_ip ?a1) (a_port ?a1) then ?a1\<lparr>a_status := STATUS_DCN\<rparr> else ?a1)"
      by (simp add: passed_account_def Let_def)
    show "if \<not> stores g ?a2 then F (i, out @ reply_byte SRV_SUCCESS @ show_u (a_last ?a1) @ [NUL], (d(u \<mapsto> ?a1))(u \<mapsto> ?a2))
      else if a_pend ?a1 (a_last ?a1) = None then
        F (i, out @ reply_byte SRV_SUCCESS @ show_u (a_last ?a1) @ [NUL],
          (d(u \<mapsto> ?a1))(u \<mapsto> ?a2\<lparr>a_pend := (a_pend ?a1)(a_last ?a1 \<mapsto> (s, m))\<rparr>))
      else F (i, out @ reply_byte SRV_ERR_SEND_ANY, (d(u \<mapsto> ?a1))(u \<mapsto> ?a2))"
      using F ab by (auto simp: send_outcome_def Let_def split: if_splits)
  qed simp
  show ?thesis
    unfolding send_steps_calls names using assms(1-4) ab pass e1 named_entry(4-6) [OF assms(6,4)]
    by (auto simp: user_entry_facts(7) intro!: does_exists [where u = s] does_exists [where u = u]
        does_read [where u = u and a = a] does_modify [where u = u and a = a and a' = ?a1])
qed

subsection \<open>Jobs\<close>

lemma spec_local:
  assumes "\<forall>u \<in> users_of c. db u = db' u"
  shows "fst (chat_spec g acc x c db) = fst (chat_spec g acc x c db')"
    "u \<in> users_of c \<Longrightarrow> snd (chat_spec g acc x c db) u = snd (chat_spec g acc x c db') u"
    "u \<notin> users_of c \<Longrightarrow> snd (chat_spec g acc x c db) u = db u"
  using assms by (cases c; auto split: option.split prod.split)+

definition pend_bound :: "nat \<Rightarrow> db \<Rightarrow> bool" where
  "pend_bound n db \<longleftrightarrow> (\<forall>u a. db u = Some a \<longrightarrow> card (dom (a_pend a)) < n)"

lemma does_job:
  assumes "job_ready j w" "pend_bound n db"
    and F: "case chat_spec (j_garbage j) acc (ip (j_sock j)) (j_command j) db of (b, d') \<Rightarrow> F ([], out @ b, d')"
  shows "does acc ip (j_sock j) (users_of (j_command j)) F (command_bytes (j_command j)) out db (job_steps n j)"
proof -
  have j: "command_ok (j_command j)" "garbage_ok (j_garbage j)" "request_ok (j_request j)"
      "MAX_MSG_SIZE \<le> length (rq_op_code (j_request j))"
    using assms by (simp_all add: job_ready_def)
  note len = j(3,4) [unfolded request_ok_def]
  have ops: "wire_ok REGISTER" "wire_ok UNREGISTER" "wire_ok CONNECT" "wire_ok DISCONNECT" "wire_ok SEND"
    by (simp_all add: wire_ok_def MAX_MSG_SIZE_def REGISTER_def UNREGISTER_def CONNECT_def DISCONNECT_def SEND_def)
  note steps = job_steps_def service_steps_def recv_name_def recv_port_def recv_content_def
  show ?thesis
  proof (cases "j_command j")
    case (Register u)
    then show ?thesis using j len F
      by (auto simp: steps Let_def name_ok_def wire_string ops simp del: chat_spec.simps
          intro!: does_recv does_register [where u = u and x = "ip (j_sock j)"])
  next
    case (Unregister u)
    then show ?thesis using j len F
      by (auto simp: steps Let_def name_ok_def wire_string ops simp del: chat_spec.simps
          intro!: does_recv does_unregister [where u = u and x = "ip (j_sock j)" and g = "j_garbage j"])
  next
    case (Connect u p)
    then show ?thesis using j len F assms(2)
      by (auto simp: steps Let_def name_ok_def wire_string wire_show_u ops pend_bound_def case_prod_unfold
          intro!: does_recv does_connect [where u = u and p = p])
  next
    case (Disconnect u)
    then show ?thesis using j len F
      by (auto simp: steps Let_def name_ok_def wire_string ops case_prod_unfold
          intro!: does_recv does_disconnect [where u = u])
  next
    case (Send s u m)
    then show ?thesis using j len F
      by (auto simp: steps Let_def name_ok_def wire_string wire_content ops simp del: chat_spec.simps
          intro!: does_recv does_send [where u = u and s = s and m = m and x = "ip (j_sock j)"])
  qed
qed

text \<open>Commands of different users, one after the other: each does what it would do first.\<close>

lemma spec_frame: "u \<notin> users_of (j_command j) \<Longrightarrow> snd (spec_job acc ip j db) u = db u"
  using spec_local(3) [of "j_command j" db db] by (simp add: spec_job_def)

lemma spec_other:
  assumes "jobs_disjoint j k"
  shows "fst (spec_job acc ip k (snd (spec_job acc ip j db))) = fst (spec_job acc ip k db)"
    "u \<in> users_of (j_command k) \<Longrightarrow>
      snd (spec_job acc ip k (snd (spec_job acc ip j db))) u = snd (spec_job acc ip k db) u"
proof -
  have "\<forall>u \<in> users_of (j_command k). snd (spec_job acc ip j db) u = db u"
    using assms spec_frame [of _ j acc ip db] by (auto simp: jobs_disjoint_def)
  then show "fst (spec_job acc ip k (snd (spec_job acc ip j db))) = fst (spec_job acc ip k db)"
    "u \<in> users_of (j_command k) \<Longrightarrow>
      snd (spec_job acc ip k (snd (spec_job acc ip j db))) u = snd (spec_job acc ip k db) u"
    unfolding spec_job_def [of acc ip k] by (rule spec_local(1), rule spec_local(2))
qed

lemma spec_all_frame:
  "\<forall>j \<in> set jobs. u \<notin> users_of (j_command j) \<Longrightarrow> snd (spec_all (spec_job acc ip) jobs db) u = db u"
  by (induction jobs arbitrary: db) (simp_all add: case_prod_unfold Let_def spec_frame)

lemma spec_all_nth:
  "sorted_wrt jobs_disjoint jobs \<Longrightarrow> n < length jobs \<Longrightarrow>
    fst (spec_all (spec_job acc ip) jobs db) ! n = fst (spec_job acc ip (jobs ! n) db) \<and>
    (\<forall>u \<in> users_of (j_command (jobs ! n)).
       snd (spec_all (spec_job acc ip) jobs db) u = snd (spec_job acc ip (jobs ! n) db) u)"
proof (induction jobs arbitrary: db n)
  case (Cons j jobs)
  show ?case
  proof (cases n)
    case 0
    have "\<forall>k \<in> set jobs. u \<notin> users_of (j_command k)" if "u \<in> users_of (j_command j)" for u
      using Cons.prems(1) that by (auto simp: jobs_disjoint_def)
    then show ?thesis
      using 0 spec_all_frame [of jobs _ acc ip] by (simp add: case_prod_unfold Let_def)
  next
    case (Suc k)
    then have "jobs_disjoint j (jobs ! k)" using Cons.prems by simp
    then show ?thesis
      using Suc Cons.IH [of k "snd (spec_job acc ip j db)"] Cons.prems spec_other [of j "jobs ! k"]
      by (simp add: case_prod_unfold Let_def)
  qed
qed simp

lemma sorted_apart:
  assumes "sorted_wrt R xs" "\<And>x y. R x y \<Longrightarrow> R y x"
  shows "all_apart R xs"
  unfolding all_apart_def
proof (intro allI impI)
  fix m n assume "m < length xs" "n < length xs" "m \<noteq> n"
  then show "R (xs ! m) (xs ! n)"
    using assms sorted_wrt_nth_less [OF assms(1)] by (cases "m < n") auto
qed

definition job_final :: "world \<Rightarrow> db \<Rightarrow> job \<Rightarrow> local_state \<Rightarrow> bool" where
  "job_final w db j s \<longleftrightarrow> (case s of (i, out, d) \<Rightarrow>
     out = w_out w (j_sock j) @ fst (spec_job (w_accepts w) (w_peer_ip w) j db) \<and>
     (\<forall>u \<in> users_of (j_command j). d u = snd (spec_job (w_accepts w) (w_peer_ip w) j db) u))"

lemma jobs_together:
  assumes "db_rep w db" "\<forall>j \<in> set jobs. job_ready j w" "pend_bound n db"
  shows "together (job_holds (w_accepts w) (w_peer_ip w)) job_step (\<lambda>j. completes (job_final w db j)) jobs
    (map (\<lambda>j. (command_bytes (j_command j), w_out w (j_sock j), db)) jobs) (map (job_steps n) jobs) w"
proof -
  have "job_holds (w_accepts w) (w_peer_ip w) j (command_bytes (j_command j), w_out w (j_sock j), db) w"
    if "job_ready j w" for j
    using that assms(1) by (auto simp: job_holds_def holds_def job_ready_def)
  moreover have "guided (job_holds (w_accepts w) (w_peer_ip w) j) (job_step j) (completes (job_final w db j))
      (command_bytes (j_command j), w_out w (j_sock j), db) (job_steps n j)" if "job_ready j w" for j
    unfolding job_holds_def job_step_def
    by (rule does_job [OF that assms(3)]) (auto simp: job_final_def spec_job_def split: prod.split)
  ultimately show ?thesis
    using assms(2) by (simp add: together_def)
qed

text \<open>What is true after any schedule: finished services have answered, the accounts of a finished
  service are those of the specification, and accounts no service names are untouched.\<close>

lemma disjoint_schedule:
  assumes "db_rep w db" "\<forall>j \<in> set jobs. job_ready j w" "sorted_wrt jobs_disjoint jobs" "pend_bound n db"
    and run: "run_schedule ts (map (job_steps n) jobs) w = (ps, w')"
  shows "\<exists>db'. db_rep w' db' \<and> (\<forall>u. (\<forall>j \<in> set jobs. u \<notin> users_of (j_command j)) \<longrightarrow> db' u = db u) \<and>
    (\<forall>k < length jobs. finished (ps ! k) \<longrightarrow> ps ! k = Ret Done \<and>
      w_out w' (j_sock (jobs ! k)) =
        w_out w (j_sock (jobs ! k)) @ fst (spec_job (w_accepts w) (w_peer_ip w) (jobs ! k) db) \<and>
      (\<forall>u \<in> users_of (j_command (jobs ! k)). db' u = snd (spec_job (w_accepts w) (w_peer_ip w) (jobs ! k) db) u))"
proof -
  define R where "R v v' \<longleftrightarrow> (\<forall>d. db_rep v d \<longrightarrow> (\<exists>d'. db_rep v' d' \<and>
    (\<forall>u. (\<forall>j \<in> set jobs. u \<notin> users_of (j_command j)) \<longrightarrow> d' u = d u)))" for v v'
  have apart: "all_apart jobs_disjoint jobs"
    by (rule sorted_apart [OF assms(3)]) (auto simp: jobs_disjoint_def)
  have R: "R v v" "R v v1 \<Longrightarrow> R v1 v2 \<Longrightarrow> R v v2" for v v1 v2
    unfolding R_def by (blast, metis)
  have step: "R v v'" if "j \<in> set jobs" "job_step j v v'" for j v v'
    using own_step_db [OF that(2) [unfolded job_step_def]] that(1) unfolding R_def by blast
  obtain ss' where ss': "together (job_holds (w_accepts w) (w_peer_ip w)) job_step (\<lambda>j. completes (job_final w db j)) jobs ss' ps w'"
      "R w w'"
    using jobs.schedule_together [OF jobs_together [OF assms(1,2,4)] apart, where R = R and ts = ts] R step run by auto
  obtain db' where db': "db_rep w' db'" "\<forall>u. (\<forall>j \<in> set jobs. u \<notin> users_of (j_command j)) \<longrightarrow> db' u = db u"
    using ss'(2) assms(1) by (auto simp: R_def)
  have "ps ! k = Ret Done \<and> w_out w' (j_sock (jobs ! k)) =
        w_out w (j_sock (jobs ! k)) @ fst (spec_job (w_accepts w) (w_peer_ip w) (jobs ! k) db) \<and>
      (\<forall>u \<in> users_of (j_command (jobs ! k)). db' u = snd (spec_job (w_accepts w) (w_peer_ip w) (jobs ! k) db) u)"
    if k: "k < length jobs" "finished (ps ! k)" for k
  proof -
    obtain i out d where s: "ss' ! k = (i, out, d)" by (cases "ss' ! k")
    obtain a where a: "ps ! k = Ret a" using k(2) by (auto simp: finished_def split: proc.splits)
    have len: "length ps = length jobs" using ss'(1) by (simp add: together_def)
    have h: "holds (w_accepts w) (w_peer_ip w) (j_sock (jobs ! k)) (users_of (j_command (jobs ! k))) (i, out, d) w'"
      and f: "job_final w db (jobs ! k) (i, out, d)" and whole: "a = Done"
      using ss'(1) k(1) len s a by (auto simp: together_def job_holds_def dest!: spec [of _ k])
    have "\<forall>u \<in> users_of (j_command (jobs ! k)). db' u = d u"
      using h db_rep_unique [OF db'(1)] by (auto simp: holds_def)
    then show ?thesis
      using h f a by (simp add: holds_def job_final_def whole)
  qed
  then show ?thesis using db' by blast
qed

end
