(* ===== verification/Races.thy ===== *)
theory Races
  imports Noninterference
begin

section \<open>Services of the same user\<close>

text \<open>
  What can happen between the read and the write of a user's record in \<open>SEND\<close>: the lemmas run the
  first three calls of a \<open>SEND\<close>, another service, and then the rest.
\<close>

subsection \<open>Schedules in pieces\<close>

definition reaches :: "service list \<Rightarrow> world \<Rightarrow> service list \<Rightarrow> world \<Rightarrow> bool" where
  "reaches ps w ps' w' \<longleftrightarrow> (\<exists>ts. run_schedule ts ps w = (ps', w'))"

lemma reaches_trans:
  assumes "reaches ps w ps1 w1" "reaches ps1 w1 ps2 w2"
  shows "reaches ps w ps2 w2"
proof -
  obtain ts ts' where "run_schedule ts ps w = (ps1, w1)" "run_schedule ts' ps1 w1 = (ps2, w2)"
    using assms by (auto simp: reaches_def)
  then have "run_schedule (ts @ ts') ps w = (ps2, w2)"
    by (simp add: schedule_append)
  then show ?thesis by (auto simp: reaches_def)
qed

lemma reaches_run: "i < length ps \<Longrightarrow> run_proc (ps ! i) w = (Done, w') \<Longrightarrow> reaches ps w (ps[i := Ret Done]) w'"
  unfolding reaches_def using run_proc_schedule [of i ps "ps ! i" w Done w'] by auto

lemma client_effects:
  assumes "effects D w w'" "client w c" "c \<notin> D"
  shows "client w' c" "w_in w' c = w_in w c" "w_out w' c = w_out w c"
  using assms(2,3) effects_fields(6) [OF assms(1)] effects_fields(7-9) [OF assms(1), of c]
  by (auto simp: client_def new_fd_def)

text \<open>The rest of a process, run alone from known accounts.\<close>

lemma does_run:
  assumes "db_rep w db" "client w sock"
    and p: "does (w_accepts w) (w_peer_ip w) sock U F (w_in w sock) (w_out w sock) db p"
  shows "\<exists>w' i d. run_proc p w = (Done, w') \<and> F (i, w_out w' sock, d) \<and> db_rep w' (override_on db d U) \<and>
    effects {sock} w w' \<and> client w' sock"
proof -
  define R where "R v v' \<longleftrightarrow> effects {sock} v v' \<and> (\<forall>d. db_rep v d \<longrightarrow> (\<exists>d'. db_rep v' d' \<and> (\<forall>u. u \<notin> U \<longrightarrow> d' u = d u)))"
    for v v'
  have R: "R v v" "R v v1 \<Longrightarrow> R v1 v2 \<Longrightarrow> R v v2" for v v1 v2
    unfolding R_def using effects_trans by (auto, metis)
  have step: "R v v'" if "own_step sock U v v'" for v v'
    using own_step_db [OF that] that unfolding R_def by (auto simp: own_step_def)
  have h: "holds (w_accepts w) (w_peer_ip w) sock U (w_in w sock, w_out w sock, db) w"
    using assms(1,2) by (auto simp: holds_def)
  have "\<exists>r w' s'. run_proc p w = (r, w') \<and> holds (w_accepts w) (w_peer_ip w) sock U s' w' \<and> completes F s' r \<and> R w w'"
    by (rule guided_run [where R = R, OF _ _ _ p h]) (fact R(1), erule (1) R(2), erule step)
  then obtain w' s' where r: "run_proc p w = (Done, w')" "holds (w_accepts w) (w_peer_ip w) sock U s' w'" "F s'" "R w w'"
    by auto
  obtain i out d where s': "s' = (i, out, d)" by (cases s')
  obtain d' where d': "db_rep w' d'" "\<forall>u. u \<notin> U \<longrightarrow> d' u = db u"
    using r(4) assms(1) by (auto simp: R_def)
  have "d' = override_on db d U"
    using r(2) db_rep_unique [OF d'(1)] d'(2) by (auto simp: holds_def s' override_on_def)
  then show ?thesis
    using r d'(1) by (auto simp: holds_def s' R_def)
qed

text \<open>The write of \<open>SEND\<close> and all that follows.\<close>

definition send_rest :: "garbage \<Rightarrow> fd \<Rightarrow> request_t \<Rightarrow> entry_t \<Rightarrow> service" where
  "send_rest g sock req entry = call (db_io_op_usr_ent entry MODIFY) (\<lambda>(r2, entry4).
     if r2 < 0 then refuse_steps sock SRV_ERR_SEND_ANY else pass_steps g sock req entry4)"

lemma send_reads:
  assumes "db_rep w db" "i < length ps" "ps ! i = send_steps g sock req" "garbage_ok g"
    and "cstr (rq_message_sender req) = s" "cstr (rq_recipient req) = u" "valid_user s" "valid_user u"
    and "db s = Some b" "db u = Some a"
  shows "\<exists>e w'. reaches ps w (ps[i := send_rest g sock req e]) w' \<and> effects {} w w' \<and>
    db_rep w' db \<and> user_entry u e (a\<lparr>a_last := next_msg_id (a_last a)\<rparr>)"
proof -
  define e where "e = set_e_username u (set_e_type ENT_TYPE_UD (g_entry g ''send.recipient_entry''))"
  have e: "e_username e = u" "e_type e = ENT_TYPE_UD" "entry_ok e"
    using named_entry(4-6) [OF assms(4,8)] by (simp_all add: e_def)
  obtain x1 where x1: "db_user_exists s w = (1, w\<lparr>w_errno := x1\<rparr>)"
    using user_exists_refines [OF assms(1,7)] assms(9) by auto
  have rep1: "db_rep (w\<lparr>w_errno := x1\<rparr>) db" using assms(1) by simp
  obtain x2 where x2: "db_user_exists u (w\<lparr>w_errno := x1\<rparr>) = (1, w\<lparr>w_errno := x2\<rparr>)"
    using user_exists_refines [OF rep1 assms(8)] assms(10) by auto
  define w2 where "w2 = w\<lparr>w_errno := x2\<rparr>"
  have rep2: "db_rep w2 db" using assms(1) by (simp add: w2_def)
  obtain c where c: "db_io_op_usr_ent e READ w2 = ((DBMS_SUCCESS, c), w2\<lparr>w_next := Suc (w_next w2)\<rparr>)"
      "user_entry u c a"
    using read_account_refines [OF rep2 assms(8,10) e] by blast
  have "run_schedule [i, i, i] ps w =
      (ps[i := send_rest g sock req (set_e_last_msg_id (next_msg_id (a_last a)) c)], w2\<lparr>w_next := Suc (w_next w2)\<rparr>)"
    using x1 x2 c(1) user_entry_facts(7) [OF c(2)] assms(2,3)
    by (simp add: send_steps_calls send_rest_def assms(5,6) w2_def [symmetric] e_def [symmetric])
  then have "reaches ps w (ps[i := send_rest g sock req (set_e_last_msg_id (next_msg_id (a_last a)) c)])
      (w2\<lparr>w_next := Suc (w_next w2)\<rparr>)"
    unfolding reaches_def by blast
  moreover have "effects {} w (w2\<lparr>w_next := Suc (w_next w2)\<rparr>)"
    by (simp add: w2_def effects_def)
  moreover have "user_entry u (set_e_last_msg_id (next_msg_id (a_last a)) c) (a\<lparr>a_last := next_msg_id (a_last a)\<rparr>)"
    using c(2) by (simp add: user_entry_iff cmem)
  ultimately show ?thesis
    using db_rep_simps(1) [OF rep2] by blast
qed

subsection \<open>The write of \<open>SEND\<close> over other changes\<close>

text \<open>
  The rest of a \<open>SEND\<close> to a user that was not connected when its record was read, whatever the record
  has become: the record goes back to what was read.
\<close>

lemma send_rest_run:
  assumes "db_rep w db" "client w sock" "garbage_ok g" "valid_user s" "valid_user u" "fits_array 256 m"
    and "cstr (rq_message_sender req) = s" "cstr (rq_recipient req) = u" "cstr (rq_message_content req) = m"
    and "db u = Some a'" "user_entry u e a" "a_status a = STATUS_DCN"
  shows "\<exists>w'. run_proc (send_rest g sock req e) w = (Done, w') \<and> effects {sock} w w' \<and> client w' sock \<and>
    (if a_pend a' (a_last a) = None then
       w_out w' sock = w_out w sock @ reply_byte SRV_SUCCESS @ show_u (a_last a) @ [NUL] \<and>
       db_rep w' (db(u \<mapsto> a\<lparr>a_pend := (a_pend a')(a_last a \<mapsto> (s, m))\<rparr>))
     else w_out w' sock = w_out w sock @ reply_byte SRV_ERR_SEND_ANY \<and>
       db_rep w' (db(u \<mapsto> a\<lparr>a_pend := a_pend a'\<rparr>)))"
proof -
  let ?b = "a\<lparr>a_pend := a_pend a'\<rparr>"
  let ?out = "if a_pend a' (a_last a) = None
    then (w_out w sock @ reply_byte SRV_SUCCESS @ show_u (a_last a) @ [NUL],
      db(u \<mapsto> a\<lparr>a_pend := (a_pend a')(a_last a \<mapsto> (s, m))\<rparr>))
    else (w_out w sock @ reply_byte SRV_ERR_SEND_ANY, db(u \<mapsto> ?b))"
  define F where "F = (\<lambda>(i :: bytes, out, d). (out, d) = ?out)"
  have e: "user_entry u e ?b" using assms(11) by (simp add: user_entry_def)
  have st: "stores g ?b" using assms(12) by (simp add: stores_def)
  have "does (w_accepts w) (w_peer_ip w) sock {u} F (w_in w sock) (w_out w sock) db (send_rest g sock req e)"
    unfolding send_rest_def
  proof (rule does_modify [where u = u and a = a' and a' = ?b])
    show "does (w_accepts w) (w_peer_ip w) sock {u} F (w_in w sock) (w_out w sock) (db(u \<mapsto> ?b))
        (case (DBMS_SUCCESS, e) of (r2, entry4) \<Rightarrow>
          if r2 < 0 then refuse_steps sock SRV_ERR_SEND_ANY else pass_steps g sock req entry4)"
      using does_pass [where tried = ?b, OF _ assms(5) _ e assms(3,7-9,4,6), of "{u}" "db(u \<mapsto> ?b)"] st assms(12)
      by (auto simp: F_def)
  qed (use assms e in auto)
  then obtain w' i d where r: "run_proc (send_rest g sock req e) w = (Done, w')" "F (i, w_out w' sock, d)"
      "db_rep w' (override_on db d {u})" "effects {sock} w w'" "client w' sock"
    using does_run [OF assms(1,2)] by blast
  have "override_on db d {u} = d" using r(2) by (auto simp: F_def override_on_def split: if_splits)
  then show ?thesis
    using r by (auto simp: F_def split: if_splits)
qed

end
