(* ===== verification/ConcurrencyProps.thy ===== *)
theory ConcurrencyProps
  imports Races Examples
begin

section \<open>Properties of services that run at the same time\<close>

text \<open>
  Services of different users against the specification, and two schedules of services of the same
  user that go wrong.
\<close>

definition eve_job :: job where
  "eve_job = \<lparr>j_sock = 3, j_command = Register ''eve'', j_garbage = example_garbage 0, j_request = example_request\<rparr>"

definition ann_job :: job where
  "ann_job = \<lparr>j_sock = 4, j_command = Disconnect ''ann'', j_garbage = example_garbage 0, j_request = example_request\<rparr>"

definition two_jobs_world :: world where
  "two_jobs_world = example_world (\<lambda>d. if d = 3 then command_bytes (Register ''eve'') else command_bytes (Disconnect ''ann''))"

lemma two_jobs_ready: "job_ready eve_job two_jobs_world" "job_ready ann_job two_jobs_world"
  "jobs_disjoint eve_job ann_job" "jobs_apart eve_job ann_job" "db_rep two_jobs_world example_db"
  using example_rep
  by (simp_all add: job_ready_def eve_job_def ann_job_def two_jobs_world_def name_ok_def jobs_disjoint_def jobs_apart_def)

subsection \<open>Any services\<close>

text \<open>Whatever services run at once and however their calls interleave, the files are a well-formed
  database after every step.\<close>

lemma interleaved_requests_keep_database:
  assumes "db_rep w db" "\<forall>j \<in> set jobs. job_ready j w" "sorted_wrt jobs_apart jobs"
  shows "\<exists>db'. db_rep (snd (run_schedule ts (map (job_steps n) jobs) w)) db'"
proof -
  have "together safe safe_step (\<lambda>_ _ _. True) (map j_sock jobs) (map (\<lambda>j. command_bytes (j_command j)) jobs)
      (map (job_steps n) jobs) w"
    using assms(1,2) keeps_job [of _ w n] by (auto simp: together_def safe_def job_ready_def)
  moreover have "all_apart (\<lambda>c d. c \<noteq> d) (map j_sock jobs)"
    using sorted_apart [OF assms(3)] by (auto simp: all_apart_def jobs_apart_def)
  ultimately show ?thesis
    using services.schedule_together [where R = "\<lambda>w w'. (\<exists>db. db_rep w db) \<longrightarrow> (\<exists>db. db_rep w' db)" and ts = ts]
      assms(1) by (fastforce simp: safe_step_def)
qed

subsection \<open>Services of different users\<close>

text \<open>C7: services of different users, in every interleaving of their calls, answer what the specification
  says of the commands one after the other, and leave the accounts it says once all have finished; every
  schedule can be continued until all have, with all rounds of their loops (\<open>n\<close> is above the number of
  messages pending for each user).\<close>

theorem disjoint_requests_serialize:
  assumes "db_rep w db" "\<forall>j \<in> set jobs. job_ready j w" "sorted_wrt jobs_disjoint jobs" "pend_bound n db"
    and "run_schedule ts (map (job_steps n) jobs) w = (ps, w')"
  shows "(\<forall>k < length jobs. finished (ps ! k) \<longrightarrow> w_out w' (j_sock (jobs ! k)) =
      w_out w (j_sock (jobs ! k)) @ fst (spec_all (spec_job (w_accepts w) (w_peer_ip w)) jobs db) ! k) \<and>
    ((\<forall>p \<in> set ps. finished p) \<longrightarrow> db_rep w' (snd (spec_all (spec_job (w_accepts w) (w_peer_ip w)) jobs db))) \<and>
    (\<exists>ts'. \<forall>p \<in> set (fst (run_schedule (ts @ ts') (map (job_steps n) jobs) w)). p = Ret Done)"
proof -
  let ?all = "spec_all (spec_job (w_accepts w) (w_peer_ip w)) jobs db"
  obtain db' where db': "db_rep w' db'" "\<forall>u. (\<forall>j \<in> set jobs. u \<notin> users_of (j_command j)) \<longrightarrow> db' u = db u"
      "\<forall>k < length jobs. finished (ps ! k) \<longrightarrow> ps ! k = Ret Done \<and>
        w_out w' (j_sock (jobs ! k)) =
          w_out w (j_sock (jobs ! k)) @ fst (spec_job (w_accepts w) (w_peer_ip w) (jobs ! k) db) \<and>
        (\<forall>u \<in> users_of (j_command (jobs ! k)). db' u = snd (spec_job (w_accepts w) (w_peer_ip w) (jobs ! k) db) u)"
    using disjoint_schedule [OF assms] by blast
  have len: "length ps = length jobs" using schedule_length [OF assms(5)] by simp
  have "db' = snd ?all" if all: "\<forall>p \<in> set ps. finished p"
  proof
    fix u
    show "db' u = snd ?all u"
    proof (cases "\<exists>k < length jobs. u \<in> users_of (j_command (jobs ! k))")
      case True
      then show ?thesis using db'(3) all len spec_all_nth [OF assms(3)] by (metis nth_mem)
    next
      case False
      then have "\<forall>j \<in> set jobs. u \<notin> users_of (j_command j)" by (metis in_set_conv_nth)
      then show ?thesis using db'(2) spec_all_frame by metis
    qed
  qed
  moreover have "\<exists>ts'. \<forall>p \<in> set (fst (run_schedule (ts @ ts') (map (job_steps n) jobs) w)). p = Ret Done"
  proof -
    obtain ts' where fin: "\<forall>p \<in> set (fst (run_schedule (ts @ ts') (map (job_steps n) jobs) w)). finished p"
      using schedule_finishes [of ps w'] assms(5) by (auto simp: schedule_append)
    obtain qs v where r: "run_schedule (ts @ ts') (map (job_steps n) jobs) w = (qs, v)" by fastforce
    have len: "length qs = length jobs" using schedule_length [OF r] by simp
    have "qs ! i = Ret Done" if "i < length jobs" for i
    proof -
      have "finished (qs ! i)" using fin r len that by simp
      then show ?thesis using disjoint_schedule [OF assms(1-4) r] that by blast
    qed
    then have "\<forall>p \<in> set qs. p = Ret Done" using len by (auto simp: in_set_conv_nth)
    then show ?thesis using r by (intro exI [of _ ts']) simp
  qed
  ultimately show ?thesis
    using db'(1,3) spec_all_nth [OF assms(3)] by metis
qed

lemma disjoint_requests_serialize_witness:
  "\<exists>ts ps w'. run_schedule ([0, 1, 1, 0] @ ts) (map (job_steps 3) [eve_job, ann_job]) two_jobs_world = (ps, w') \<and>
    w_out w' 3 = [NUL] \<and> w_out w' 4 = [NUL] \<and>
    db_rep w' (example_db(''eve'' \<mapsto> new_account (example_garbage 0),
      ''ann'' \<mapsto> ann_account\<lparr>a_status := STATUS_DCN, a_ip := 0, a_port := 0\<rparr>))"
proof -
  have b: "pend_bound 3 example_db"
    by (simp add: pend_bound_def example_db_def ann_account_def bob_account_def)
  have jobs: "\<forall>j \<in> set [eve_job, ann_job]. job_ready j two_jobs_world" "sorted_wrt jobs_disjoint [eve_job, ann_job]"
    by (simp_all add: two_jobs_ready)
  obtain ps0 w0 where r0: "run_schedule [0, 1, 1, 0] (map (job_steps 3) [eve_job, ann_job]) two_jobs_world = (ps0, w0)"
    by fastforce
  obtain ts where ts: "\<forall>p \<in> set (fst (run_schedule ([0, 1, 1, 0] @ ts) (map (job_steps 3) [eve_job, ann_job]) two_jobs_world)). p = Ret Done"
    using disjoint_requests_serialize [OF two_jobs_ready(5) jobs b r0] by blast
  obtain ps w' where r: "run_schedule ([0, 1, 1, 0] @ ts) (map (job_steps 3) [eve_job, ann_job]) two_jobs_world = (ps, w')"
    by fastforce
  have fin: "\<forall>p \<in> set ps. finished p" using ts unfolding r by auto
  have len: "length ps = 2" using schedule_length [OF r] by simp
  have out: "w_out two_jobs_world d = []" for d by (simp add: two_jobs_world_def example_world_def)
  let ?db = "example_db(''eve'' \<mapsto> new_account (example_garbage 0),
    ''ann'' \<mapsto> ann_account\<lparr>a_status := STATUS_DCN, a_ip := 0, a_port := 0\<rparr>)"
  have spec: "spec_all (spec_job (w_accepts two_jobs_world) (w_peer_ip two_jobs_world)) [eve_job, ann_job] example_db =
      ([[NUL], [NUL]], ?db)"
    by (simp add: spec_job_def eve_job_def ann_job_def example_db_def disconnect_outcome_def ann_account_def reply_bytes)
  note all_done = disjoint_requests_serialize [OF two_jobs_ready(5) jobs b r, unfolded spec]
  have "w_out w' 3 = [NUL]"
    using conjunct1 [OF all_done, rule_format, of 0] fin len out by (simp add: eve_job_def)
  moreover have "w_out w' 4 = [NUL]"
    using conjunct1 [OF all_done, rule_format, of 1] fin len out by (simp add: ann_job_def)
  moreover have "db_rep w' ?db" using all_done fin by simp
  ultimately show ?thesis using r by blast
qed

subsection \<open>Services of the same user\<close>

text \<open>C29: a \<open>SEND\<close> to a user who connects between its reading and its writing of the user's record undoes
  the connection: both clients are answered success, and the user stands disconnected with the message
  stored, which no order of the two services gives.\<close>

theorem send_undoes_connect:
  assumes "db_rep w db" "client w c" "client w d" "c \<noteq> d" "garbage_ok g1" "garbage_ok g2"
    and "valid_user u" "db u = Some a" "valid_user s" "db s = Some b" "fits_array 256 m" "0 < k"
    and "cstr (rq_message_sender rq1) = s" "cstr (rq_recipient rq1) = u" "cstr (rq_message_content rq1) = m"
    and "cstr (rq_username rq2) = u" "cstr (rq_client_port rq2) = show_u p"
    and "a_status a = STATUS_DCN" "a_pend a = Map.empty" "g_code g2 ''connect.reply'' \<noteq> SRV_ERR_CN_ANY"
    and "n = next_msg_id (a_last a)"
  shows "\<exists>ts w'. run_schedule ts [send_steps g1 c rq1, connect_steps k g2 d rq2] w = ([Ret Done, Ret Done], w') \<and>
    w_out w' c = w_out w c @ reply_byte SRV_SUCCESS @ show_u n @ [NUL] \<and>
    w_out w' d = w_out w d @ reply_byte SRV_SUCCESS \<and>
    db_rep w' (db(u \<mapsto> a\<lparr>a_last := n, a_pend := [n \<mapsto> (s, m)]\<rparr>))"
proof -
  let ?ps = "[send_steps g1 c rq1, connect_steps k g2 d rq2]"
  obtain e w1 where w1: "reaches ?ps w (?ps[0 := send_rest g1 c rq1 e]) w1" "effects {} w w1"
      "db_rep w1 db" "user_entry u e (a\<lparr>a_last := n\<rparr>)"
    using send_reads [of w db 0 ?ps g1 c rq1 s u b a] assms by auto
  have c1: "client w1 c" "client w1 d" "w_out w1 c = w_out w c" "w_out w1 d = w_out w d"
    using client_effects [OF w1(2)] assms(2,3) by simp_all
  let ?a = "a\<lparr>a_status := STATUS_CN, a_ip := w_peer_ip w1 d, a_port := ucast p\<rparr>"
  define F where "F = (\<lambda>(i :: bytes, out, db'). out = w_out w1 d @ reply_byte SRV_SUCCESS \<and> db' = db(u \<mapsto> ?a))"
  have "does (w_accepts w1) (w_peer_ip w1) d {u} F (w_in w1 d) (w_out w1 d) db (connect_steps k g2 d rq2)"
    by (rule does_connect [where u = u and p = p])
      (use assms in \<open>auto simp: F_def connect_outcome_def pend_outcome_def\<close>)
  then obtain w2 d2 where w2: "run_proc (connect_steps k g2 d rq2) w1 = (Done, w2)"
      "w_out w2 d = w_out w1 d @ reply_byte SRV_SUCCESS" "db_rep w2 (override_on db d2 {u})" "d2 = db(u \<mapsto> ?a)"
      "effects {d} w1 w2" "client w2 d"
    using does_run [OF w1(3) c1(2)] by (fastforce simp: F_def)
  have rep2: "db_rep w2 (db(u \<mapsto> ?a))"
  proof -
    have "override_on db d2 {u} = db(u \<mapsto> ?a)" using w2(4) by (auto simp: override_on_def)
    then show ?thesis using w2(3) by simp
  qed
  have c2: "client w2 c" "w_out w2 c = w_out w c"
    using client_effects [OF w2(5) c1(1)] c1(3) assms(4) by simp_all
  obtain w3 where w3: "run_proc (send_rest g1 c rq1 e) w2 = (Done, w3)" "effects {c} w2 w3"
      "w_out w3 c = w_out w2 c @ reply_byte SRV_SUCCESS @ show_u n @ [NUL]"
      "db_rep w3 ((db(u \<mapsto> ?a))(u \<mapsto> a\<lparr>a_last := n\<rparr>\<lparr>a_pend := [n \<mapsto> (s, m)]\<rparr>))"
    using send_rest_run [OF rep2 c2(1) assms(5,9,7,11,13-15) _ w1(4)] assms(18,19) by auto
  have "reaches ?ps w [send_rest g1 c rq1 e, connect_steps k g2 d rq2] w1"
    using w1(1) by simp
  moreover have "reaches [send_rest g1 c rq1 e, connect_steps k g2 d rq2] w1 [send_rest g1 c rq1 e, Ret Done] w2"
    using reaches_run [of 1 "[send_rest g1 c rq1 e, connect_steps k g2 d rq2]"] w2(1) by simp
  moreover have "reaches [send_rest g1 c rq1 e, Ret Done] w2 [Ret Done, Ret Done] w3"
    using reaches_run [of 0 "[send_rest g1 c rq1 e, Ret Done]"] w3(1) by simp
  ultimately have "reaches ?ps w [Ret Done, Ret Done] w3"
    by (blast intro: reaches_trans)
  moreover have "w_out w3 d = w_out w d @ reply_byte SRV_SUCCESS"
    using client_effects(3) [OF w3(2) w2(6)] assms(4) w2(2) c1(4) by simp
  moreover have "db_rep w3 (db(u \<mapsto> a\<lparr>a_last := n, a_pend := [n \<mapsto> (s, m)]\<rparr>))"
    using w3(4) by (simp only: fun_upd_upd)
  ultimately show ?thesis
    using w3(3) c2(2) by (auto simp: reaches_def)
qed

text \<open>C30: two \<open>SEND\<close>s to the same absent user that both read its record before either writes it give their
  messages the same number: the first is stored, the second is refused and lost.\<close>

theorem sends_share_number:
  assumes "db_rep w db" "client w c" "client w d" "c \<noteq> d" "garbage_ok g1" "garbage_ok g2"
    and "valid_user u" "db u = Some a" "valid_user s1" "db s1 = Some b1" "valid_user s2" "db s2 = Some b2"
    and "fits_array 256 m1" "fits_array 256 m2"
    and "cstr (rq_message_sender rq1) = s1" "cstr (rq_recipient rq1) = u" "cstr (rq_message_content rq1) = m1"
    and "cstr (rq_message_sender rq2) = s2" "cstr (rq_recipient rq2) = u" "cstr (rq_message_content rq2) = m2"
    and "a_status a = STATUS_DCN" "n = next_msg_id (a_last a)" "a_pend a n = None"
  shows "\<exists>ts w'. run_schedule ts [send_steps g1 c rq1, send_steps g2 d rq2] w = ([Ret Done, Ret Done], w') \<and>
    w_out w' c = w_out w c @ reply_byte SRV_SUCCESS @ show_u n @ [NUL] \<and>
    w_out w' d = w_out w d @ reply_byte SRV_ERR_SEND_ANY \<and>
    db_rep w' (db(u \<mapsto> a\<lparr>a_last := n, a_pend := (a_pend a)(n \<mapsto> (s1, m1))\<rparr>))"
proof -
  let ?ps = "[send_steps g1 c rq1, send_steps g2 d rq2]"
  obtain e1 w1 where w1: "reaches ?ps w (?ps[0 := send_rest g1 c rq1 e1]) w1" "effects {} w w1"
      "db_rep w1 db" "user_entry u e1 (a\<lparr>a_last := n\<rparr>)"
    using send_reads [of w db 0 ?ps g1 c rq1 s1 u b1 a] assms by auto
  let ?ps1 = "[send_rest g1 c rq1 e1, send_steps g2 d rq2]"
  obtain e2 w2 where w2: "reaches ?ps1 w1 (?ps1[1 := send_rest g2 d rq2 e2]) w2" "effects {} w1 w2"
      "db_rep w2 db" "user_entry u e2 (a\<lparr>a_last := n\<rparr>)"
    using send_reads [of w1 db 1 ?ps1 g2 d rq2 s2 u b2 a] assms w1(3) by auto
  have e: "effects {} w w2" by (rule effects_trans [OF w1(2) w2(2)])
  have c2: "client w2 c" "client w2 d" "w_out w2 c = w_out w c" "w_out w2 d = w_out w d"
    using client_effects [OF e] assms(2,3) by simp_all
  let ?b = "a\<lparr>a_last := n, a_pend := (a_pend a)(n \<mapsto> (s1, m1))\<rparr>"
  obtain w3 where w3: "run_proc (send_rest g1 c rq1 e1) w2 = (Done, w3)" "effects {c} w2 w3" "client w3 c"
      "w_out w3 c = w_out w c @ reply_byte SRV_SUCCESS @ show_u n @ [NUL]" "db_rep w3 (db(u \<mapsto> ?b))"
    using send_rest_run [OF w2(3) c2(1) assms(5,9,7,13,15-17,8) w1(4)] assms(21,23) c2(3) by auto
  have c3: "client w3 d" "w_out w3 d = w_out w d"
    using client_effects [OF w3(2) c2(2)] c2(4) assms(4) by simp_all
  obtain w4 where w4: "run_proc (send_rest g2 d rq2 e2) w3 = (Done, w4)" "effects {d} w3 w4"
      "w_out w4 d = w_out w d @ reply_byte SRV_ERR_SEND_ANY"
      "db_rep w4 ((db(u \<mapsto> ?b))(u \<mapsto> a\<lparr>a_last := n\<rparr>\<lparr>a_pend := a_pend ?b\<rparr>))"
    using send_rest_run [OF w3(5) c3(1) assms(6,11,7,14,18-20) _ w2(4)] assms(21) c3(2) by auto
  have "reaches ?ps w ?ps1 w1" "reaches ?ps1 w1 [send_rest g1 c rq1 e1, send_rest g2 d rq2 e2] w2"
    using w1(1) w2(1) by simp_all
  moreover have "reaches [send_rest g1 c rq1 e1, send_rest g2 d rq2 e2] w2 [Ret Done, send_rest g2 d rq2 e2] w3"
    using reaches_run [of 0 "[send_rest g1 c rq1 e1, send_rest g2 d rq2 e2]"] w3(1) by simp
  moreover have "reaches [Ret Done, send_rest g2 d rq2 e2] w3 [Ret Done, Ret Done] w4"
    using reaches_run [of 1 "[Ret Done, send_rest g2 d rq2 e2]"] w4(1) by simp
  ultimately have "reaches ?ps w [Ret Done, Ret Done] w4"
    by (blast intro: reaches_trans)
  moreover have "w_out w4 c = w_out w c @ reply_byte SRV_SUCCESS @ show_u n @ [NUL]"
    using client_effects(3) [OF w4(2) w3(3)] assms(4) w3(4) by simp
  moreover have "db_rep w4 (db(u \<mapsto> ?b))"
    using w4(4) by simp
  ultimately show ?thesis
    using w4(3) by (auto simp: reaches_def)
qed

text \<open>Two requests from \<open>ann\<close>, and \<open>bob\<close> who connects.\<close>

definition hello_request :: request_t where
  "hello_request = example_request\<lparr>rq_client_port := strcpy_buf ''ann'' (zeros MAX_STR_SIZE),
     rq_username := strcpy_buf ''bob'' (zeros MAX_STR_SIZE),
     rq_message_content := strcpy_buf ''hi'' (zeros MAX_MSG_SIZE)\<rparr>"

definition bob_request :: request_t where
  "bob_request = example_request\<lparr>rq_client_port := strcpy_buf (show_u 7001) (zeros MAX_STR_SIZE),
     rq_username := strcpy_buf ''bob'' (zeros MAX_STR_SIZE)\<rparr>"

lemma example_requests:
  "cstr (rq_message_sender hello_request) = ''ann''" "cstr (rq_recipient hello_request) = ''bob''"
  "cstr (rq_message_content hello_request) = ''hi''"
  "cstr (rq_client_port bob_request) = show_u 7001" "cstr (rq_username bob_request) = ''bob''"
  using wire_show_u [of 7001] by (simp_all add: hello_request_def bob_request_def wire_string wire_ok_def)

lemma bob_next: "10 = next_msg_id (a_last bob_account)"
  by (simp add: next_msg_id_def bob_account_def MSG_ID_MAX_VALUE_def)

lemma example_db_users: "example_db ''ann'' = Some ann_account" "example_db ''bob'' = Some bob_account"
  by (simp_all add: example_db_def)

lemma send_undoes_connect_witness:
  "\<exists>ts w'. run_schedule ts [send_steps (example_garbage 0) 3 hello_request,
      connect_steps 1 (example_garbage 0) 4 bob_request] (example_world (\<lambda>_. [])) = ([Ret Done, Ret Done], w') \<and>
    w_out w' 3 = NUL # show_u 10 @ [NUL] \<and> w_out w' 4 = [NUL] \<and>
    db_rep w' (example_db(''bob'' \<mapsto> bob_account\<lparr>a_last := 10, a_pend := [10 \<mapsto> (''ann'', ''hi'')]\<rparr>))"
proof -
  have "(3::int) \<noteq> 4" "fits_array 256 ''hi''" "0 < (1::nat)" "a_status bob_account = STATUS_DCN"
      "a_pend bob_account = Map.empty" "g_code (example_garbage 0) ''connect.reply'' \<noteq> SRV_ERR_CN_ANY"
      "w_out (example_world (\<lambda>_. [])) d = []" for d
    by (simp_all add: fits_array_def bob_account_def example_garbage_def example_world_def)
  then show ?thesis
    using send_undoes_connect [OF example_rep [of "\<lambda>_. []"] example_world_fields(3,4) _ example_garbage_ok [of 0]
        example_garbage_ok [of 0] example_users(2) example_db_users(2) example_users(1) example_db_users(1) _ _
        example_requests(1-3,5,4), of 1 10] bob_next
    by (simp add: reply_bytes)
qed

lemma sends_share_number_witness:
  "\<exists>ts w'. run_schedule ts [send_steps (example_garbage 0) 3 hello_request,
      send_steps (example_garbage 0) 4 hello_request] (example_world (\<lambda>_. [])) = ([Ret Done, Ret Done], w') \<and>
    w_out w' 3 = NUL # show_u 10 @ [NUL] \<and> w_out w' 4 = [CHR 0x02] \<and>
    db_rep w' (example_db(''bob'' \<mapsto> bob_account\<lparr>a_last := 10, a_pend := [10 \<mapsto> (''ann'', ''hi'')]\<rparr>))"
proof -
  have "(3::int) \<noteq> 4" "fits_array 256 ''hi''" "a_status bob_account = STATUS_DCN"
      "a_pend bob_account = Map.empty" "w_out (example_world (\<lambda>_. [])) d = []" for d
    by (simp_all add: fits_array_def bob_account_def example_world_def)
  then show ?thesis
    using sends_share_number [OF example_rep [of "\<lambda>_. []"] example_world_fields(3,4) _ example_garbage_ok [of 0]
        example_garbage_ok [of 0] example_users(2) example_db_users(2) example_users(1) example_db_users(1)
        example_users(1) example_db_users(1) _ _ example_requests(1-3,1-3), of 10] bob_next
    by (simp add: reply_bytes)
qed

end
