(* ===== verification/System.thy ===== *)
theory System
  imports Noninterference TreeInvariant
begin

section \<open>The whole server\<close>

text \<open>
  The threads of the theory \<open>Server\<close> and the processes of the services in one step relation: \<open>main\<close>
  accepts connections of clients that have sent something, the service threads take them out of the
  ring and run the process of the request on it, call by call, in any interleaving. The clients are
  an argument: \<open>sent fd\<close> are the bytes of the client that gets the descriptor \<open>fd\<close>. The memory of
  \<open>request\<close>, a local variable of the loop of \<open>service_thread\<close>, and of the local variables of the
  services is arbitrary for every request. \<open>y_served\<close> is the list of connections served to the end.
\<close>

record system =
  y_server :: server
  y_world :: world
  y_procs :: "service list"
  y_served :: "fd list"

text \<open>\<open>accept\<close> with a client behind it: the address of the client is what \<open>w_peer_ip\<close> says.\<close>

definition accept_client :: "bytes \<Rightarrow> world \<Rightarrow> fd \<times> world" where
  "accept_client sent w =
     (let fd = int (w_next w)
      in (fd, w\<lparr>w_fds := (w_fds w)(fd \<mapsto> SockD), w_next := Suc (w_next w), w_in := (w_in w)(fd := sent)\<rparr>))"

text \<open>The steps that only concern the ring, the mutex and the condition variables.\<close>

definition control :: "event \<Rightarrow> bool" where
  "control e = (case e of Accepted _ \<Rightarrow> False | Dequeued _ _ \<Rightarrow> False | Served _ \<Rightarrow> False | _ \<Rightarrow> True)"

inductive system_step :: "nat \<Rightarrow> (fd \<rightharpoonup> bytes) \<Rightarrow> system \<Rightarrow> system \<Rightarrow> bool" for n sent where
  accepts: "sent fd = Some bs \<Longrightarrow> accept_client bs (y_world y) = (fd, w') \<Longrightarrow>
    server_step (y_server y) (Accepted fd) s' \<Longrightarrow>
    system_step n sent y (y\<lparr>y_server := s', y_world := w'\<rparr>)"
| synchronises: "server_step (y_server y) e s' \<Longrightarrow> control e \<Longrightarrow> system_step n sent y (y\<lparr>y_server := s'\<rparr>)"
| takes: "server_step (y_server y) (Dequeued i fd) s' \<Longrightarrow> garbage_ok g \<Longrightarrow> request_ok rq \<Longrightarrow>
    MAX_MSG_SIZE \<le> length (rq_op_code rq) \<Longrightarrow>
    system_step n sent y (y\<lparr>y_server := s', y_procs := (y_procs y)[i := service_steps n g fd rq]\<rparr>)"
| works: "running (y_server y) \<Longrightarrow> i < length (s_threads (y_server y)) \<Longrightarrow> s_threads (y_server y) ! i = TServe fd \<Longrightarrow>
    y_procs y ! i = Act f \<Longrightarrow> f (y_world y) = (p, w') \<Longrightarrow>
    system_step n sent y (y\<lparr>y_world := w', y_procs := (y_procs y)[i := p]\<rparr>)"
| ends: "server_step (y_server y) (Served i) s' \<Longrightarrow> s_threads (y_server y) ! i = TServe fd \<Longrightarrow>
    y_procs y ! i = Ret Done \<Longrightarrow>
    system_step n sent y (y\<lparr>y_server := s', y_served := y_served y @ [fd]\<rparr>)"

definition start_system :: "world \<Rightarrow> system" where
  "start_system w = \<lparr>y_server = init_server, y_world = w, y_procs = replicate THREAD_POOL_SIZE (Ret Done), y_served = []\<rparr>"

subsection \<open>Where a connection is\<close>

datatype place = InQueue nat | InMain | InThread nat | InServed nat

fun held :: "system \<Rightarrow> place \<Rightarrow> fd \<Rightarrow> bool" where
  "held y (InQueue k) fd = (k < length (queued (s_q (y_server y))) \<and> queued (s_q (y_server y)) ! k = fd)"
| "held y InMain fd = (s_main (y_server y) = MLock fd \<or> s_main (y_server y) = MSleep fd)"
| "held y (InThread i) fd = (i < length (s_threads (y_server y)) \<and> s_threads (y_server y) ! i = TServe fd)"
| "held y (InServed k) fd = (k < length (y_served y) \<and> y_served y ! k = fd)"

definition held_once :: "system \<Rightarrow> bool" where
  "held_once y \<longleftrightarrow> (\<forall>p p' fd. held y p fd \<longrightarrow> held y p' fd \<longrightarrow> p = p')"

text \<open>A step that only moves connections keeps them in one place each.\<close>

lemma held_once_moves:
  assumes "held_once y" "\<And>p fd. held y' p fd \<Longrightarrow> held y (m p) fd" "inj m"
  shows "held_once y'"
  using assms unfolding held_once_def by (metis injD)

definition swap_places :: "place \<Rightarrow> place \<Rightarrow> place \<Rightarrow> place" where
  "swap_places a b p = (if p = a then b else if p = b then a else p)"

lemma inj_swap_places: "inj (swap_places a b)"
  by (auto simp: inj_def swap_places_def split: if_splits)

text \<open>How far the service of a connection is.\<close>

datatype phase = Waiting | Serving service | Answered

fun phase_of :: "system \<Rightarrow> place \<Rightarrow> phase" where
  "phase_of y (InQueue k) = Waiting"
| "phase_of y InMain = Waiting"
| "phase_of y (InThread i) = Serving (y_procs y ! i)"
| "phase_of y (InServed k) = Answered"

lemma phase_cong: "y_procs y' = y_procs y \<Longrightarrow> phase_of y' p = phase_of y p"
  by (cases p) simp_all

lemma phase_other: "y_procs y' = (y_procs y)[i := p] \<Longrightarrow> q \<noteq> InThread i \<Longrightarrow> phase_of y' q = phase_of y q"
  by (cases q) (auto simp: nth_list_update_neq)

definition system_ok :: "(world \<Rightarrow> bool) \<Rightarrow> (fd \<Rightarrow> phase \<Rightarrow> world \<Rightarrow> bool) \<Rightarrow> system \<Rightarrow> bool" where
  "system_ok I P y \<longleftrightarrow> server_ok (y_server y) \<and> length (y_procs y) = length (s_threads (y_server y)) \<and>
     I (y_world y) \<and> held_once y \<and> (\<forall>p fd. held y p fd \<longrightarrow> P fd (phase_of y p) (y_world y))"

lemma system_okD:
  "system_ok I P y \<Longrightarrow> held y p fd \<Longrightarrow> P fd (phase_of y p) (y_world y)"
  "system_ok I P y \<Longrightarrow> held y p fd \<Longrightarrow> held y p' fd \<Longrightarrow> p = p'"
  "system_ok I P y \<Longrightarrow> server_ok (y_server y)" "system_ok I P y \<Longrightarrow> I (y_world y)"
  "system_ok I P y \<Longrightarrow> length (y_procs y) = length (s_threads (y_server y))"
  unfolding system_ok_def held_once_def by blast+

lemma served_distinct:
  assumes "system_ok I P y"
  shows "distinct (y_served y)"
proof (unfold distinct_conv_nth, intro allI impI)
  fix i j assume "i < length (y_served y)" "j < length (y_served y)" "i \<noteq> j"
  then show "y_served y ! i \<noteq> y_served y ! j"
    using system_okD(2) [OF assms, of "InServed i" "y_served y ! i" "InServed j"] by auto
qed

lemma served_phase:
  assumes "system_ok I P y" "fd \<in> set (y_served y)"
  shows "P fd Answered (y_world y)"
proof -
  obtain k where "k < length (y_served y)" "y_served y ! k = fd"
    using assms(2) by (auto simp: in_set_conv_nth)
  then show ?thesis using system_okD(1) [OF assms(1), of "InServed k" fd] by simp
qed

lemma moves_ok:
  assumes "system_ok I P y" "server_ok (y_server y')" "length (s_threads (y_server y')) = length (s_threads (y_server y))"
    and "y_world y' = y_world y" "length (y_procs y') = length (y_procs y)" "inj m"
    and "\<And>p fd. held y' p fd \<Longrightarrow> held y (m p) fd"
    and "\<And>p fd. held y' p fd \<Longrightarrow> P fd (phase_of y (m p)) (y_world y) \<Longrightarrow> P fd (phase_of y' p) (y_world y)"
  shows "system_ok I P y'"
  using assms held_once_moves [OF _ assms(7,6)] by (auto simp: system_ok_def)

subsection \<open>The steps that only synchronise\<close>

lemma threads_awake: "s_threads (wake k s) ! i = TServe fd \<Longrightarrow> i < length (s_threads s) \<Longrightarrow>
    (\<forall>j. k = Some j \<longrightarrow> asleep s j) \<Longrightarrow> s_threads s ! i = TServe fd"
  by (auto simp: wake_def set_thread_def asleep_def nth_list_update split: option.splits if_splits)

text \<open>\<open>enqueue\<close> moves the connection of \<open>main\<close> to the end of the ring; the others move none.\<close>

lemma control_moves:
  assumes "server_step (y_server y) e s'" "control e" "server_ok (y_server y)"
  shows "\<exists>m. inj m \<and> (\<forall>p fd. held (y\<lparr>y_server := s'\<rparr>) p fd \<longrightarrow> held y (m p) fd \<and> phase_of y (m p) = phase_of y p)"
  using assms(1)
proof (cases rule: server_step.cases)
  case (enqueued fd q' woken)
  let ?s = "y_server y"
  have size: "connq_ok (s_q ?s)" "conn_q_size (s_q ?s) < MAX_CONN_BACKLOG"
    using assms(3) enqueued(4) by (auto simp: server_ok_def connq_ok_def)
  have q: "queued (s_q s') = queued (s_q ?s) @ [fd]"
    using enqueue_ok(2) [OF size] enqueued by simp
  let ?m = "swap_places (InQueue (length (queued (s_q ?s)))) InMain"
  have awake: "\<forall>j. woken = Some j \<longrightarrow> asleep (?s\<lparr>s_q := q', s_main := MAccept\<rparr>) j"
    using enqueued(6) by (auto simp: may_signal_def asleep_def split: if_splits option.splits)
  have "held y (?m p) f \<and> phase_of y (?m p) = phase_of y p" if "held (y\<lparr>y_server := s'\<rparr>) p f" for p f
  proof (cases p)
    case (InQueue k)
    then show ?thesis
      using that q enqueued(3) by (auto simp: swap_places_def nth_append split: if_splits)
  next
    case (InThread i)
    then show ?thesis
      using that threads_awake [OF _ _ awake, of i f] enqueued(2) by (auto simp: swap_places_def)
  qed (use that enqueued in \<open>auto simp: swap_places_def\<close>)
  then show ?thesis using inj_swap_places by blast
next
  case (main_waits fd)
  have "held (y\<lparr>y_server := s'\<rparr>) p f = held y p f" for p f by (cases p) (use main_waits in auto)
  then show ?thesis by (intro exI [of _ id]) simp
next
  case (main_wakes fd)
  have "held (y\<lparr>y_server := s'\<rparr>) p f = held y p f" for p f by (cases p) (use main_wakes in auto)
  then show ?thesis by (intro exI [of _ id]) simp
next
  case (waits i)
  have "held (y\<lparr>y_server := s'\<rparr>) p f = held y p f" for p f by (cases p) (use waits in \<open>auto simp: thread_set\<close>)
  then show ?thesis by (intro exI [of _ id]) simp
next
  case (wakes i)
  have "held (y\<lparr>y_server := s'\<rparr>) p f = held y p f" for p f
    by (cases p) (use wakes in \<open>auto simp: thread_set asleep_def\<close>)
  then show ?thesis by (intro exI [of _ id]) simp
next
  case accept_failed
  have "held (y\<lparr>y_server := s'\<rparr>) p f \<Longrightarrow> held y p f" for p f by (cases p) (use accept_failed in auto)
  then show ?thesis by (intro exI [of _ id]) simp
next
  case interrupted
  have "held (y\<lparr>y_server := s'\<rparr>) p f \<Longrightarrow> held y p f" for p f by (cases p) (use interrupted in auto)
  then show ?thesis by (intro exI [of _ id]) simp
qed (use assms(2) in \<open>simp_all add: control_def\<close>)

definition dequeue_move :: "nat \<Rightarrow> place \<Rightarrow> place" where
  "dequeue_move i p = (case p of InQueue k \<Rightarrow> InQueue (Suc k)
     | InThread j \<Rightarrow> if j = i then InQueue 0 else InThread j | _ \<Rightarrow> p)"

lemma inj_dequeue_move: "inj (dequeue_move i)"
  by (auto simp: inj_def dequeue_move_def split: place.splits if_splits)

lemma accept_client_world:
  assumes "accept_client sent w = (fd, w')"
  shows "fd = int (w_next w)"
    "w' = w\<lparr>w_fds := (w_fds w)(fd \<mapsto> SockD), w_next := Suc (w_next w), w_in := (w_in w)(fd := sent)\<rparr>"
  using assms by (auto simp: accept_client_def Let_def)

subsection \<open>A contract for services and its invariant\<close>

text \<open>
  What an assertion \<open>I\<close> on the world and an assertion \<open>P fd ph\<close> on each connection must promise for them to
  hold in every run of the server: \<open>accept\<close> establishes them for a new client and disturbs no other,
  a service keeps them with every call and disturbs no other.
\<close>

locale serving =
  fixes n :: nat and sent :: "fd \<rightharpoonup> bytes" and I :: "world \<Rightarrow> bool" and P :: "fd \<Rightarrow> phase \<Rightarrow> world \<Rightarrow> bool"
  assumes known: "P fd ph w \<Longrightarrow> fd < int (w_next w)"
    and accept: "I w \<Longrightarrow> sent fd = Some bs \<Longrightarrow> accept_client bs w = (fd, w') \<Longrightarrow>
      I w' \<and> P fd Waiting w' \<and> (\<forall>d ph. P d ph w \<longrightarrow> P d ph w')"
    and take: "I w \<Longrightarrow> P fd Waiting w \<Longrightarrow> garbage_ok g \<Longrightarrow> request_ok rq \<Longrightarrow> MAX_MSG_SIZE \<le> length (rq_op_code rq) \<Longrightarrow>
      P fd (Serving (service_steps n g fd rq)) w"
    and work: "I w \<Longrightarrow> P fd (Serving (Act f)) w \<Longrightarrow> f w = (p, w') \<Longrightarrow>
      I w' \<and> P fd (Serving p) w' \<and> (\<forall>d ph. d \<noteq> fd \<longrightarrow> P d ph w \<longrightarrow> P d ph w')"
    and answer: "P fd (Serving (Ret Done)) w \<Longrightarrow> P fd Answered w"
begin

lemma accepts_ok:
  assumes ok: "system_ok I P y" and c: "sent fd = Some bs" and accepted: "accept_client bs (y_world y) = (fd, w')"
    and step: "server_step (y_server y) (Accepted fd) s'"
  shows "system_ok I P (y\<lparr>y_server := s', y_world := w'\<rparr>)" (is "system_ok I P ?y")
proof -
  have s': "s_main (y_server y) = MAccept" "s' = (y_server y)\<lparr>s_main := MLock fd\<rparr>"
    using step by (auto elim: server_step.cases)
  have new: "held ?y p f \<longleftrightarrow> (if p = InMain then f = fd else held y p f)" for p f
    by (cases p) (use s' in auto)
  have fresh: "\<not> held y p fd" for p
    using system_okD(1) [OF ok, of p fd] known [of fd "phase_of y p" "y_world y"]
      accept_client_world(1) [OF accepted] by auto
  note facts = accept [OF system_okD(4) [OF ok] c accepted]
  have "held_once ?y"
    using system_okD(2) [OF ok] fresh unfolding held_once_def new by (metis (full_types))
  moreover have "P f (phase_of ?y p) w'" if "held ?y p f" for p f
  proof (cases "p = InMain")
    case True
    then have "f = fd" using that new [of p f] by simp
    then show ?thesis using True facts by simp
  next
    case False
    then have "held y p f" using that new by simp
    then show ?thesis using system_okD(1) [OF ok] facts by (simp add: phase_cong [of ?y y])
  qed
  ultimately show ?thesis
    using facts system_okD(5) [OF ok] server_ok_step [OF system_okD(3) [OF ok] step] s'(2)
    by (simp add: system_ok_def)
qed

lemma synchronises_ok:
  assumes ok: "system_ok I P y" and step: "server_step (y_server y) e s'" "control e"
  shows "system_ok I P (y\<lparr>y_server := s'\<rparr>)"
proof -
  note sok = system_okD(3) [OF ok]
  obtain m where m: "inj m" "\<And>p fd. held (y\<lparr>y_server := s'\<rparr>) p fd \<Longrightarrow> held y (m p) fd"
      "\<And>p fd. held (y\<lparr>y_server := s'\<rparr>) p fd \<Longrightarrow> phase_of y (m p) = phase_of y p"
    using control_moves [OF step sok] by blast
  have "server_ok s'" by (rule server_ok_step [OF sok step(1)])
  moreover have "length (s_threads s') = length (s_threads (y_server y))"
    using server_ok_step [OF sok step(1)] sok by (simp add: server_ok_def)
  ultimately show ?thesis
    by (intro moves_ok [OF ok _ _ _ _ m(1,2)]) (auto simp: m(3) phase_cong [of "y\<lparr>y_server := s'\<rparr>" y])
qed

lemma takes_ok:
  assumes ok: "system_ok I P y" and step: "server_step (y_server y) (Dequeued i fd) s'"
    and local: "garbage_ok g" "request_ok rq" "MAX_MSG_SIZE \<le> length (rq_op_code rq)"
  shows "system_ok I P (y\<lparr>y_server := s', y_procs := (y_procs y)[i := service_steps n g fd rq]\<rparr>)" (is "system_ok I P ?y")
proof -
  note sok = system_okD(3) [OF ok]
  obtain q' m' where d: "i < length (s_threads (y_server y))" "s_threads (y_server y) ! i = TLock"
      "conn_q_size (s_q (y_server y)) \<noteq> 0" "dequeue (s_q (y_server y)) = (fd, q')"
      "s' = set_thread i (TServe fd) ((y_server y)\<lparr>s_q := q', s_main := m'\<rparr>)"
      "m' = s_main (y_server y) \<or> m' = signal_not_full (s_main (y_server y))"
    using step by (cases rule: server_step.cases) auto
  have q: "queued (s_q (y_server y)) = fd # queued q'"
    using dequeue_ok(2) [of "s_q (y_server y)"] sok d(3,4) by (simp add: server_ok_def)
  have i: "i < length (y_procs y)" using d(1) system_okD(5) [OF ok] by simp
  have held: "held y (dequeue_move i p) f" if "held ?y p f" for p f
    using that d(1,5,6) q
    by (cases p) (auto simp: dequeue_move_def thread_set signal_not_full_def split: if_splits main_pc.splits)
  have phase: "P f (phase_of ?y p) (y_world y)"
    if h: "held ?y p f" and b: "P f (phase_of y (dequeue_move i p)) (y_world y)" for p f
  proof (cases "p = InThread i")
    case True
    then have "f = fd" using h d(1,5) by (simp add: thread_set)
    then show ?thesis
      using b True i take [OF system_okD(4) [OF ok] _ local] by (simp add: dequeue_move_def)
  next
    case False
    then show ?thesis using b by (cases p) (auto simp: dequeue_move_def)
  qed
  have "server_ok s'" by (rule server_ok_step [OF sok step])
  then show ?thesis
    by (intro moves_ok [OF ok _ _ _ _ inj_dequeue_move held phase]) (use d in auto)
qed

lemma works_ok:
  assumes ok: "system_ok I P y" and i: "i < length (s_threads (y_server y))" "s_threads (y_server y) ! i = TServe fd"
    and step: "y_procs y ! i = Act f" "f (y_world y) = (p, w')"
  shows "system_ok I P (y\<lparr>y_world := w', y_procs := (y_procs y)[i := p]\<rparr>)" (is "system_ok I P ?y")
proof -
  have here: "held y (InThread i) fd" using i by simp
  then have "P fd (Serving (Act f)) (y_world y)"
    using system_okD(1) [OF ok here] step(1) by simp
  note w' = work [OF system_okD(4) [OF ok] this step(2)]
  have same: "held ?y q c = held y q c" for q c by (cases q) simp_all
  have "P c (phase_of ?y q) w'" if q: "held y q c" for q c
  proof (cases "q = InThread i")
    case True
    then have "c = fd" "i < length (y_procs y)" using q i system_okD(5) [OF ok] by simp_all
    then show ?thesis using True w' by simp
  next
    case False
    then have "c \<noteq> fd" using system_okD(2) [OF ok q] here by blast
    moreover have "phase_of ?y q = phase_of y q" using phase_other [of ?y y i p q] False by simp
    ultimately show ?thesis using w' system_okD(1) [OF ok q] by simp
  qed
  moreover have "held_once ?y" using ok by (simp add: system_ok_def held_once_def same)
  ultimately show ?thesis
    using ok w' same by (simp add: system_ok_def)
qed

lemma ends_ok:
  assumes ok: "system_ok I P y" and step: "server_step (y_server y) (Served i) s'"
    and i: "s_threads (y_server y) ! i = TServe fd" "y_procs y ! i = Ret Done"
  shows "system_ok I P (y\<lparr>y_server := s', y_served := y_served y @ [fd]\<rparr>)" (is "system_ok I P ?y")
proof -
  let ?m = "swap_places (InThread i) (InServed (length (y_served y)))"
  have s': "s' = set_thread i TLock (y_server y)" "i < length (s_threads (y_server y))"
    using step by (auto elim: server_step.cases)
  have held: "held y (?m p) f" if "held ?y p f" for p f
    using that s' i by (cases p) (auto simp: swap_places_def thread_set nth_append less_Suc_eq split: if_splits)
  have phase: "P f (phase_of ?y p) (y_world y)"
    if h: "held ?y p f" and b: "P f (phase_of y (?m p)) (y_world y)" for p f
  proof (cases "p = InServed (length (y_served y))")
    case True
    then show ?thesis
      using b answer i(2) by (simp add: swap_places_def)
  next
    case False
    then show ?thesis using b h s' by (cases p) (auto simp: swap_places_def thread_set split: if_splits)
  qed
  have "server_ok s'" by (rule server_ok_step [OF system_okD(3) [OF ok] step])
  then show ?thesis
    by (intro moves_ok [OF ok _ _ _ _ inj_swap_places held phase]) (use s' in auto)
qed

lemma step_ok:
  assumes "system_step n sent y y'" "system_ok I P y"
  shows "system_ok I P y'"
  using assms(1)
proof (cases rule: system_step.cases)
  case (accepts fd bs w' s')
  show ?thesis unfolding accepts(1) by (rule accepts_ok [OF assms(2) accepts(2-4)])
next
  case (synchronises e s')
  show ?thesis unfolding synchronises(1) by (rule synchronises_ok [OF assms(2) synchronises(2,3)])
next
  case (takes i fd s' g rq)
  show ?thesis unfolding takes(1) by (rule takes_ok [OF assms(2) takes(2-5)])
next
  case (works i fd f p w')
  show ?thesis unfolding works(1) by (rule works_ok [OF assms(2) works(3-6)])
next
  case (ends i s' fd)
  show ?thesis unfolding ends(1) by (rule ends_ok [OF assms(2) ends(2-4)])
qed

lemma run_ok: "(system_step n sent)\<^sup>*\<^sup>* y y' \<Longrightarrow> system_ok I P y \<Longrightarrow> system_ok I P y'"
  by (induction rule: rtranclp_induct) (auto dest: step_ok)

lemma from_start: "I w \<Longrightarrow> (system_step n sent)\<^sup>*\<^sup>* (start_system w) y \<Longrightarrow> system_ok I P y"
proof (erule run_ok)
  have "\<not> held (start_system w) p fd" for p fd
    by (cases p) (auto simp: start_system_def init_server_def nth_replicate)
  then show "I w \<Longrightarrow> system_ok I P (start_system w)"
    using server_ok_init by (auto simp: system_ok_def start_system_def init_server_def held_once_def)
qed

end

text \<open>
  A contract that also promises that no service is left unfinished: a process that has come to its end
  under it has done all the rounds of its loop, and a thread alone comes to that end.
\<close>

locale serving_ends = serving +
  assumes whole: "P fd (Serving (Ret r)) w \<Longrightarrow> r = Done"
begin

lemma serves_alone: "I w \<Longrightarrow> P fd (Serving p) w \<Longrightarrow> \<exists>w'. run_proc p w = (Done, w')"
proof (induction p arbitrary: w)
  case (Ret r)
  then show ?case using whole by auto
next
  case (Act f)
  obtain p w1 where f: "f w = (p, w1)" by fastforce
  have "I w1" "P fd (Serving p) w1" using work [OF Act.prems f] by simp_all
  then show ?case using Act.IH [of "(p, w1)" p w1] f rangeI [of f w] by auto
qed

lemma whole_threads:
  assumes "system_ok I P y" "i < length (s_threads (y_server y))" "s_threads (y_server y) ! i = TServe fd"
  shows "y_procs y ! i \<noteq> Ret Unfinished" "\<exists>w'. run_proc (y_procs y ! i) (y_world y) = (Done, w')"
proof -
  have "P fd (Serving (y_procs y ! i)) (y_world y)"
    using system_okD(1) [OF assms(1), of "InThread i" fd] assms(2,3) by simp
  note p = this
  show "\<exists>w'. run_proc (y_procs y ! i) (y_world y) = (Done, w')"
    by (rule serves_alone [OF system_okD(4) [OF assms(1)] p])
  show "y_procs y ! i \<noteq> Ret Unfinished"
  proof
    assume "y_procs y ! i = Ret Unfinished"
    then show False using whole [of fd Unfinished "y_world y"] p by simp
  qed
qed

end

text \<open>A thread whose service gets all the turns comes to its end.\<close>

lemma works_alone:
  assumes "running (y_server y)" "i < length (s_threads (y_server y))" "s_threads (y_server y) ! i = TServe fd"
    and "i < length (y_procs y)" "run_proc (y_procs y ! i) (y_world y) = (Done, w')"
  shows "(system_step n sent)\<^sup>*\<^sup>* y (y\<lparr>y_world := w', y_procs := (y_procs y)[i := Ret Done]\<rparr>)"
proof -
  have "(system_step n sent)\<^sup>*\<^sup>* z (z\<lparr>y_world := w', y_procs := (y_procs z)[i := Ret Done]\<rparr>)"
    if "y_procs z ! i = p" "run_proc p (y_world z) = (Done, w')" "y_server z = y_server y" "i < length (y_procs z)" for p z
    using that
  proof (induction p arbitrary: z)
    case (Ret a)
    then have "z\<lparr>y_world := w', y_procs := (y_procs z)[i := Ret Done]\<rparr> = z"
      by (cases z) (auto simp: list_update_same_conv)
    then show ?case by simp
  next
    case (Act f)
    obtain p1 w1 where f: "f (y_world z) = (p1, w1)" by fastforce
    let ?z = "z\<lparr>y_world := w1, y_procs := (y_procs z)[i := p1]\<rparr>"
    have "system_step n sent z ?z"
      using assms(1-3) Act.prems(1,3) f by (intro system_step.works [where f = f and fd = fd]) simp_all
    moreover have "(system_step n sent)\<^sup>*\<^sup>* ?z (?z\<lparr>y_world := w', y_procs := (y_procs ?z)[i := Ret Done]\<rparr>)"
      using Act.IH [of "(p1, w1)" p1 ?z] f Act.prems rangeI [of f "y_world z"] by auto
    ultimately show ?case by (simp add: converse_rtranclp_into_rtranclp)
  qed
  then show ?thesis using assms(4,5) by blast
qed

subsection \<open>Any commands: the files stay a database\<close>

definition polite :: "(fd \<rightharpoonup> bytes) \<Rightarrow> bool" where
  "polite sent \<longleftrightarrow> (\<forall>fd bs. sent fd = Some bs \<longrightarrow> (\<exists>c. command_ok c \<and> bs = command_bytes c))"

definition some_db :: "(fd \<rightharpoonup> bytes) \<Rightarrow> world \<Rightarrow> bool" where
  "some_db sent w \<longleftrightarrow> polite sent \<and> (\<exists>db. db_rep w db)"

definition orderly :: "fd \<Rightarrow> phase \<Rightarrow> world \<Rightarrow> bool" where
  "orderly fd ph w \<longleftrightarrow> (case ph of
      Waiting \<Rightarrow> \<exists>c. command_ok c \<and> safe fd (command_bytes c) w
    | Serving p \<Rightarrow> \<exists>i. safe fd i w \<and> keeps fd i p
    | Answered \<Rightarrow> \<exists>i. safe fd i w)"

lemma orderly_safe: "orderly fd ph w \<Longrightarrow> \<exists>i. safe fd i w"
  by (auto simp: orderly_def split: phase.splits)

lemma orderly_stable:
  assumes "orderly d ph w" "\<And>i. safe d i w \<Longrightarrow> safe d i w'"
  shows "orderly d ph w'"
  using assms by (cases ph) (auto simp: orderly_def)

lemma accept_client_db:
  assumes "accept_client sent w = (fd, w')" "db_rep w db"
  shows "db_rep w' db"
proof -
  note w' = accept_client_world [OF assms(1)]
  have "fresh_fds w" "calm w" using assms(2) by (simp_all add: db_rep_def world_ok_def)
  then show ?thesis
    by (intro db_rep_cong [OF assms(2)]) (auto simp: w'(2) fresh_fds_def w'(1))
qed

lemma accept_client_other:
  assumes "accept_client sent w = (fd, w')" "client w d"
  shows "client w' d" "w_in w' d = w_in w d" "d \<noteq> fd"
proof -
  note w' = accept_client_world [OF assms(1)]
  show "d \<noteq> fd" using assms(2) w'(1) by (simp add: client_def)
  then show "client w' d" "w_in w' d = w_in w d" using assms(2) by (simp_all add: client_def w'(2))
qed

lemma accept_client_new:
  assumes "accept_client sent w = (fd, w')"
  shows "client w' fd" "w_in w' fd = sent" "w_out w' = w_out w" "w_accepts w' = w_accepts w" "w_peer_ip w' = w_peer_ip w"
  using accept_client_world [OF assms] by (simp_all add: client_def)

lemma orderly_accept:
  assumes "some_db sent w" "sent fd = Some bs" "accept_client bs w = (fd, w')"
  shows "some_db sent w' \<and> orderly fd Waiting w' \<and> (\<forall>d ph. orderly d ph w \<longrightarrow> orderly d ph w')"
proof -
  obtain db where db: "db_rep w' db" using assms(1) accept_client_db [OF assms(3)] by (auto simp: some_db_def)
  have "safe d i w \<Longrightarrow> safe d i w'" for d i
    using accept_client_other [OF assms(3)] db by (auto simp: safe_def)
  then have "orderly d ph w \<Longrightarrow> orderly d ph w'" for d ph
    using orderly_stable by blast
  moreover have "orderly fd Waiting w'"
  proof -
    obtain c where "command_ok c" "bs = command_bytes c"
      using assms(1,2) by (auto simp: some_db_def polite_def)
    then show ?thesis
      using accept_client_new [OF assms(3)] db by (auto simp: orderly_def safe_def)
  qed
  ultimately show ?thesis
    using db assms(1) by (auto simp: some_db_def)
qed

lemma orderly_take:
  assumes "some_db sent w" "orderly fd Waiting w" "garbage_ok g" "request_ok rq" "MAX_MSG_SIZE \<le> length (rq_op_code rq)"
  shows "orderly fd (Serving (service_steps n g fd rq)) w"
  using assms keeps_service [of _ g rq] by (auto simp: orderly_def)

lemma orderly_work:
  assumes "some_db sent w" "orderly fd (Serving (Act f)) w" "f w = (p, w')"
  shows "some_db sent w' \<and> orderly fd (Serving p) w' \<and> (\<forall>d ph. d \<noteq> fd \<longrightarrow> orderly d ph w \<longrightarrow> orderly d ph w')"
proof -
  obtain i where i: "safe fd i w'" "safe_step fd w w'" "keeps fd i p"
    using assms(2,3) by (auto simp: orderly_def)
  have "orderly d ph w'" if "d \<noteq> fd" "orderly d ph w" for d ph
    by (rule orderly_stable [OF that(2)], rule services.stable [OF _ _ i(2)]) (use that(1) in simp_all)
  then show ?thesis
    using i assms(1) by (auto simp: orderly_def some_db_def safe_def)
qed

lemma orderly_connected: "orderly fd ph w \<Longrightarrow> client w fd"
  using orderly_safe by (auto simp: safe_def)

lemma orderly_known: "orderly fd ph w \<Longrightarrow> fd < int (w_next w)"
  using orderly_connected by (auto simp: client_def)

lemma orderly_end: "orderly fd (Serving (Ret Done)) w \<Longrightarrow> orderly fd Answered w"
  by (auto simp: orderly_def)

interpretation polite: serving n sent "some_db sent" orderly for n sent
  by unfold_locales (fact orderly_known orderly_accept orderly_take orderly_work orderly_end)+

subsection \<open>Any bytes and any faults: the tree stays well formed\<close>

definition unharmed :: "fd \<Rightarrow> phase \<Rightarrow> world \<Rightarrow> bool" where
  "unharmed fd ph w \<longleftrightarrow> fd < int (w_next w) \<and> (case ph of Serving p \<Rightarrow> steady p | _ \<Rightarrow> True)"

lemma unharmed_stable: "unharmed fd ph w \<Longrightarrow> w_next w \<le> w_next w' \<Longrightarrow> unharmed fd ph w'"
  by (auto simp: unharmed_def)

lemma unharmed_accept:
  assumes "tree_ok 0 w" "sent fd = Some bs" "accept_client bs w = (fd, w')"
  shows "tree_ok 0 w' \<and> unharmed fd Waiting w' \<and> (\<forall>d ph. unharmed d ph w \<longrightarrow> unharmed d ph w')"
  using assms(1) accept_client_world [OF assms(3)] by (auto simp: tree_ok_def unharmed_def)

lemma unharmed_take:
  assumes "tree_ok 0 w" "unharmed fd Waiting w" "garbage_ok g" "request_ok rq" "MAX_MSG_SIZE \<le> length (rq_op_code rq)"
  shows "unharmed fd (Serving (service_steps n g fd rq)) w"
  using assms(2) by (simp add: unharmed_def steady_service)

lemma unharmed_work:
  assumes "tree_ok 0 w" "unharmed fd (Serving (Act f)) w" "f w = (p, w')"
  shows "tree_ok 0 w' \<and> unharmed fd (Serving p) w' \<and> (\<forall>d ph. d \<noteq> fd \<longrightarrow> unharmed d ph w \<longrightarrow> unharmed d ph w')"
proof -
  have "steady (Act f)" using assms(2) by (simp add: unharmed_def)
  note w' = steady_act [OF this assms(1,3)]
  then show ?thesis using unharmed_stable [OF _ w'(2)] assms(2) by (simp add: unharmed_def)
qed

lemma unharmed_end: "unharmed fd (Serving (Ret Done)) w \<Longrightarrow> unharmed fd Answered w"
  by (simp add: unharmed_def)

lemma unharmed_known: "unharmed fd ph w \<Longrightarrow> fd < int (w_next w)"
  by (simp add: unharmed_def)

interpretation any: serving n sent "tree_ok 0" unharmed for n sent
  by unfold_locales (fact unharmed_known unharmed_accept unharmed_take unharmed_work unharmed_end)+

end
