(* ===== verification/Progress.thy ===== *)
theory Progress
  imports System
begin

section \<open>Every connection can be served\<close>

text \<open>
  From every state of the running server the steps can be chosen so that all connections it holds are
  served: a thread that serves one finishes, a waiting one is taken by a thread that is awake, the
  connection of \<open>main\<close> is put into the empty ring. The backlog decreases with each of these.
\<close>

definition busy :: "thread_pc \<Rightarrow> nat" where
  "busy t = (case t of TServe _ \<Rightarrow> 1 | _ \<Rightarrow> 0)"

definition backlog :: "server \<Rightarrow> nat" where
  "backlog s = (case s_main s of MLock _ \<Rightarrow> 3 | MSleep _ \<Rightarrow> 3 | _ \<Rightarrow> 0) + 2 * conn_q_size (s_q s) +
     sum_list (map busy (s_threads s))"

definition system_live :: "system \<Rightarrow> bool" where
  "system_live y \<longleftrightarrow> running (y_server y) \<and> server_ok (y_server y) \<and>
     length (y_procs y) = length (s_threads (y_server y))"

text \<open>A run that keeps the server running and loses no connection.\<close>

definition advances :: "nat \<Rightarrow> (fd \<rightharpoonup> bytes) \<Rightarrow> system \<Rightarrow> system \<Rightarrow> bool" where
  "advances n sent y y' \<longleftrightarrow> (system_step n sent)\<^sup>*\<^sup>* y y' \<and> system_live y' \<and>
     (\<forall>p fd. held y p fd \<longrightarrow> (\<exists>p'. held y' p' fd))"

lemma advances_trans: "advances n sent y y1 \<Longrightarrow> advances n sent y1 y2 \<Longrightarrow> advances n sent y y2"
  unfolding advances_def by (meson rtranclp_trans)

lemma busy_simps [simp]: "busy (TServe fd) = 1" "busy TLock = 0" "busy TSleep = 0"
  by (simp_all add: busy_def)

lemma busy_set:
  assumes "i < length (s_threads s)"
  shows "sum_list (map busy (s_threads (set_thread i pc s))) + busy (s_threads s ! i) =
    sum_list (map busy (s_threads s)) + busy pc"
proof -
  have "busy (s_threads s ! i) \<le> sum_list (map busy (s_threads s))"
    using assms by (intro member_le_sum_list) simp_all
  then show ?thesis
    using assms sum_list_update [of i "map busy (s_threads s)" "busy pc"]
    by (simp add: set_thread_def map_update)
qed

lemma busy_wake:
  assumes "may_signal s k"
  shows "sum_list (map busy (s_threads (wake k s))) = sum_list (map busy (s_threads s))"
proof (cases k)
  case (Some i)
  then show ?thesis
    using assms busy_set [of i s TLock] by (auto simp: wake_def may_signal_def asleep_def)
qed (simp add: wake_def)

lemma some_garbage: "\<exists>g. garbage_ok g" "\<exists>rq. request_ok rq \<and> MAX_MSG_SIZE \<le> length (rq_op_code rq)"
proof -
  let ?rq = "\<lparr>rq_op_code = replicate MAX_STR_SIZE NUL, rq_username = replicate MAX_STR_SIZE NUL,
     rq_client_port = replicate MAX_STR_SIZE NUL, rq_message_id = 0, rq_message_content = replicate MAX_MSG_SIZE NUL\<rparr>"
  have rq: "request_ok ?rq \<and> MAX_MSG_SIZE \<le> length (rq_op_code ?rq)"
    by (simp add: request_ok_def MAX_MSG_SIZE_def MAX_STR_SIZE_def)
  then show "\<exists>rq. request_ok rq \<and> MAX_MSG_SIZE \<le> length (rq_op_code rq)" by blast
  have "garbage_ok \<lparr>g_code = (\<lambda>_. 0), g_entry = (\<lambda>_. replicate sizeof_entry NUL), g_request = (\<lambda>_. ?rq)\<rparr>"
    using rq by (simp add: garbage_ok_def entry_ok_def)
  then show "\<exists>g. garbage_ok g" by blast
qed

text \<open>A thread that serves a connection comes to the end of the service.\<close>

lemma thread_finishes:
  assumes live: "system_live y" and w': "run_proc (y_procs y ! i) (y_world y) = (Done, w')"
    and i: "i < length (s_threads (y_server y))" "s_threads (y_server y) ! i = TServe fd"
  shows "\<exists>y'. advances n sent y y' \<and> backlog (y_server y') < backlog (y_server y)"
proof -
  let ?y1 = "y\<lparr>y_world := w', y_procs := (y_procs y)[i := Ret Done]\<rparr>"
  let ?s = "set_thread i TLock (y_server y)"
  let ?y2 = "?y1\<lparr>y_server := ?s, y_served := y_served ?y1 @ [fd]\<rparr>"
  have run: "running (y_server y)" and p: "i < length (y_procs y)" using live i(1) by (simp_all add: system_live_def)
  have step: "server_step (y_server y) (Served i) ?s" by (rule server_step.served [OF run i])
  have "(system_step n sent)\<^sup>*\<^sup>* y ?y1" by (rule works_alone [OF run i p w'])
  moreover have "system_step n sent ?y1 ?y2"
    by (rule system_step.ends [where i = i]) (use step i p in simp_all)
  ultimately have "(system_step n sent)\<^sup>*\<^sup>* y ?y2" by (rule rtranclp.rtrancl_into_rtrancl)
  moreover have "system_live ?y2"
    using live server_ok_step [OF _ step] by (auto simp: system_live_def running_def)
  moreover have "\<exists>p'. held ?y2 p' f" if "held y p f" for p f
  proof (cases "p = InThread i")
    case True
    then have "held ?y2 (InServed (length (y_served y))) f" using that i by simp
    then show ?thesis by blast
  next
    case False
    then have "held ?y2 p f" using that i by (cases p) (auto simp: thread_set nth_append)
    then show ?thesis by blast
  qed
  moreover have "backlog ?s < backlog (y_server y)"
    using busy_set [OF i(1), of TLock] i(2) by (simp add: backlog_def)
  ultimately show ?thesis by (intro exI [of _ ?y2]) (simp add: advances_def)
qed

text \<open>Taking the first connection of the ring loses none.\<close>

lemma held_take:
  assumes "i < length (s_threads (y_server y))" "s_threads (y_server y) ! i = TLock"
    and "queued (s_q (y_server y)) = fd # queued q'"
    and "\<And>f. s_main (y_server y) = MLock f \<or> s_main (y_server y) = MSleep f \<Longrightarrow> m' = MLock f \<or> m' = MSleep f"
    and "held y p f"
  shows "\<exists>p'. held (y\<lparr>y_server := set_thread i (TServe fd) ((y_server y)\<lparr>s_q := q', s_main := m'\<rparr>), y_procs := ps\<rparr>) p' f"
    (is "\<exists>p'. held ?y p' f")
proof -
  have "held ?y (case p of InQueue k \<Rightarrow> (if k = 0 then InThread i else InQueue (k - 1)) | _ \<Rightarrow> p) f"
    using assms by (cases p) (auto simp: thread_set nth_Cons split: nat.split)
  then show ?thesis by blast
qed

text \<open>Enqueueing moves the connection of \<open>main\<close> to the end of the ring.\<close>

lemma held_enqueue:
  assumes "queued q' = queued (s_q (y_server y)) @ [fd]" "s_main (y_server y) = MLock fd" "may_signal (y_server y) k"
    and "held y p f"
  shows "\<exists>p'. held (y\<lparr>y_server := wake k ((y_server y)\<lparr>s_q := q', s_main := MAccept\<rparr>)\<rparr>) p' f"
    (is "\<exists>p'. held ?y p' f")
proof -
  have "s_threads (y_server ?y) ! j = TServe f"
    if "j < length (s_threads (y_server y))" "s_threads (y_server y) ! j = TServe f" for j
    using that assms(3) by (auto simp: wake_def may_signal_def asleep_def thread_set split: option.splits)
  then have "held ?y (if p = InMain then InQueue (length (queued (s_q (y_server y)))) else p) f"
    using assms by (cases p) (auto simp: nth_append)
  then show ?thesis by blast
qed

text \<open>When no thread serves, one that is awake takes the first connection of the ring.\<close>

lemma thread_takes:
  assumes live: "system_live y" and idle: "\<forall>i < length (s_threads (y_server y)). \<forall>fd. s_threads (y_server y) ! i \<noteq> TServe fd"
    and q: "0 < conn_q_size (s_q (y_server y))"
  shows "\<exists>y'. advances n sent y y' \<and> backlog (y_server y') < backlog (y_server y)"
proof -
  let ?s = "y_server y"
  have ok: "server_ok ?s" and run: "running ?s" using live by (simp_all add: system_live_def)
  obtain i where i: "i < length (s_threads ?s)" "s_threads ?s ! i \<noteq> TSleep"
    using ok q unfolding server_ok_def by blast
  then have i: "i < length (s_threads ?s)" "s_threads ?s ! i = TLock"
    using idle by (cases "s_threads ?s ! i"; simp)+
  obtain fd q' where d: "dequeue (s_q ?s) = (fd, q')" by fastforce
  have qd: "queued (s_q ?s) = fd # queued q'"
    using dequeue_ok(2) [of "s_q ?s"] ok q d by (simp add: server_ok_def)
  define m' where "m' = (if conn_q_size q' = MAX_CONN_BACKLOG - 1 then signal_not_full (s_main ?s) else s_main ?s)"
  let ?t = "set_thread i (TServe fd) (?s\<lparr>s_q := q', s_main := m'\<rparr>)"
  have step: "server_step ?s (Dequeued i fd) ?t"
    by (rule server_step.dequeued [OF run i _ d m'_def]) (use q in simp)
  obtain g rq where local: "garbage_ok g" "request_ok rq" "MAX_MSG_SIZE \<le> length (rq_op_code rq)"
    using some_garbage by blast
  let ?y = "y\<lparr>y_server := ?t, y_procs := (y_procs y)[i := service_steps n g fd rq]\<rparr>"
  have main: "(s_main ?s = MLock f \<or> s_main ?s = MSleep f) = (m' = MLock f \<or> m' = MSleep f)"
      "(case m' of MLock _ \<Rightarrow> 3 | MSleep _ \<Rightarrow> 3 | _ \<Rightarrow> 0) = (case s_main ?s of MLock _ \<Rightarrow> 3 | MSleep _ \<Rightarrow> (3::nat) | _ \<Rightarrow> 0)"
      "running ?t" for f
    using run by (auto simp: m'_def signal_not_full_def running_def split: main_pc.splits)
  have "(system_step n sent)\<^sup>*\<^sup>* y ?y"
    by (rule r_into_rtranclp, rule system_step.takes [OF step local])
  moreover have "system_live ?y"
    using live server_ok_step [OF ok step] main(3) by (simp add: system_live_def)
  moreover have "\<exists>p'. held ?y p' f" if "held y p f" for p f
    by (rule held_take [OF i qd _ that]) (use main(1) in blast)
  moreover have "backlog ?t < backlog ?s"
    using busy_set [of i "?s\<lparr>s_q := q', s_main := m'\<rparr>" "TServe fd"] i main(2) dequeue_size [OF d] q
    by (simp add: backlog_def)
  ultimately show ?thesis by (intro exI [of _ ?y]) (simp add: advances_def)
qed

text \<open>With an empty ring \<open>main\<close> does not sleep, and enqueues.\<close>

lemma signal_exists: "\<exists>k. may_signal s k"
proof (cases "\<exists>i < length (s_threads s). s_threads s ! i = TSleep")
  case True
  then show ?thesis by (auto simp: may_signal_def asleep_def intro: exI [of _ "Some i" for i])
next
  case False
  then have "may_signal s None" by (simp add: may_signal_def)
  then show ?thesis by blast
qed

lemma main_enqueues:
  assumes live: "system_live y" and q: "conn_q_size (s_q (y_server y)) = 0"
    and main: "s_main (y_server y) = MLock fd \<or> s_main (y_server y) = MSleep fd"
  shows "\<exists>y'. advances n sent y y' \<and> backlog (y_server y') < backlog (y_server y)"
proof -
  let ?s = "y_server y"
  have ok: "server_ok ?s" and run: "running ?s" using live by (simp_all add: system_live_def)
  have m: "s_main ?s = MLock fd" using main ok q by (auto simp: server_ok_def MAX_CONN_BACKLOG_def)
  let ?v = "?s\<lparr>s_q := enqueue fd (s_q ?s), s_main := MAccept\<rparr>"
  obtain k where k: "may_signal ?s k" using signal_exists by blast
  have kv: "may_signal ?v k" using k may_signal_cong [of ?v ?s k] by simp
  have step: "server_step ?s (Enqueued fd k) (wake k ?v)"
    by (rule server_step.enqueued [OF m _ refl]) (use q k in \<open>simp_all add: MAX_CONN_BACKLOG_def\<close>)
  let ?y = "y\<lparr>y_server := wake k ?v\<rparr>"
  have qd: "queued (enqueue fd (s_q ?s)) = queued (s_q ?s) @ [fd]"
    using enqueue_ok(2) [of "s_q ?s" fd] ok q by (simp add: server_ok_def MAX_CONN_BACKLOG_def)
  have "(system_step n sent)\<^sup>*\<^sup>* y ?y"
    by (rule r_into_rtranclp, rule system_step.synchronises [OF step]) (simp add: control_def)
  moreover have "system_live ?y"
    using live server_ok_step [OF ok step] by (simp add: system_live_def running_def)
  moreover have "\<exists>p'. held ?y p' f" if "held y p f" for p f
    by (rule held_enqueue [OF qd m k that])
  moreover have "backlog (wake k ?v) < backlog ?s"
    using busy_wake [OF kv] m by (simp add: backlog_def)
  ultimately show ?thesis by (intro exI [of _ ?y]) (simp add: advances_def)
qed

lemma backlog_empties:
  assumes "system_live y" "\<And>z i fd. advances n sent y z \<Longrightarrow> i < length (s_threads (y_server z)) \<Longrightarrow>
      s_threads (y_server z) ! i = TServe fd \<Longrightarrow> \<exists>w'. run_proc (y_procs z ! i) (y_world z) = (Done, w')"
  shows "\<exists>y'. advances n sent y y' \<and> (\<forall>p fd. held y' p fd \<longrightarrow> fd \<in> set (y_served y'))"
  using assms
proof (induction "backlog (y_server y)" arbitrary: y rule: less_induct)
  case less
  show ?case
  proof (cases "\<exists>y'. advances n sent y y' \<and> backlog (y_server y') < backlog (y_server y)")
    case True
    then obtain y1 where y1: "advances n sent y y1" "backlog (y_server y1) < backlog (y_server y)" by blast
    then have live: "system_live y1" by (simp add: advances_def)
    have ends: "\<exists>w'. run_proc (y_procs z ! i) (y_world z) = (Done, w')"
      if "advances n sent y1 z" "i < length (s_threads (y_server z))" "s_threads (y_server z) ! i = TServe fd" for z i fd
      by (rule less.prems(2) [OF advances_trans [OF y1(1) that(1)] that(2,3)])
    have "\<exists>y'. advances n sent y1 y' \<and> (\<forall>p fd. held y' p fd \<longrightarrow> fd \<in> set (y_served y'))"
      by (rule less.hyps [OF y1(2) live], erule (2) ends)
    then obtain y' where "advances n sent y1 y'" "\<forall>p fd. held y' p fd \<longrightarrow> fd \<in> set (y_served y')" by (elim exE conjE)
    then show ?thesis using advances_trans [OF y1(1)] by (intro exI [of _ y']) simp
  next
    case False
    have here: "advances n sent y y" using less.prems(1) by (auto simp: advances_def)
    have idle: "s_threads (y_server y) ! i \<noteq> TServe fd" if b: "i < length (s_threads (y_server y))" for i fd
    proof
      assume t: "s_threads (y_server y) ! i = TServe fd"
      obtain w' where "run_proc (y_procs y ! i) (y_world y) = (Done, w')" using less.prems(2) [OF here b t] by (elim exE)
      from thread_finishes [OF less.prems(1) this b t, of n sent] show False using False by (rule notE [rotated])
    qed
    have "fd \<in> set (y_served y)" if "held y p fd" for p fd
    proof (cases p)
      case (InQueue k)
      then have "0 < conn_q_size (s_q (y_server y))"
        using that by (auto simp: queued_def)
      then show ?thesis using False idle thread_takes [OF less.prems(1)] by blast
    next
      case InMain
      then show ?thesis
        using that False idle thread_takes [OF less.prems(1)] main_enqueues [OF less.prems(1)]
        by (metis gr0I held.simps(2))
    next
      case (InThread i)
      then have "i < length (s_threads (y_server y))" "s_threads (y_server y) ! i = TServe fd"
        using that by simp_all
      then show ?thesis using idle by blast
    next
      case (InServed k)
      then show ?thesis using that by auto
    qed
    then show ?thesis using here by blast
  qed
qed

end
