(* ===== verification/Fairness.thy ===== *)
theory Fairness
  imports Progress
begin

section \<open>Fair runs serve every connection\<close>

text \<open>
  An infinite run is fair when no thread that is awake, and no main thread that wants to put a
  connection into the ring, stays where it is for ever; a sleeping thread may sleep for ever. In a
  fair run a service ends, because a process is finite; a ring that is not empty is moved on, because
  a thread is awake; so each connection comes to the front of the ring, is taken and is served. The
  lost wake-up delays connections, but does not starve them.
\<close>

definition waiting :: "system \<Rightarrow> fd list" where
  "waiting y = queued (s_q (y_server y))"

definition thread_state :: "system \<Rightarrow> nat \<Rightarrow> thread_pc \<times> service" where
  "thread_state y i = (s_threads (y_server y) ! i, y_procs y ! i)"

definition shape_ok :: "system \<Rightarrow> bool" where
  "shape_ok y \<longleftrightarrow> server_ok (y_server y) \<and> length (y_procs y) = length (s_threads (y_server y))"

text \<open>The first connection of the ring is taken by a thread.\<close>

definition taken_first :: "system \<Rightarrow> system \<Rightarrow> bool" where
  "taken_first y y' \<longleftrightarrow> (\<exists>fd i. waiting y = fd # waiting y' \<and> i < length (s_threads (y_server y')) \<and>
     s_threads (y_server y') ! i = TServe fd)"

text \<open>
  Each step is one of the server or changes nothing; nobody who is awake stays where he is for ever,
  but for a thread whose loop has used up the rounds that are modelled.
\<close>

definition stuck :: "system \<Rightarrow> nat \<Rightarrow> bool" where
  "stuck y i \<longleftrightarrow> y_procs y ! i = Ret Unfinished \<and> (\<exists>fd. s_threads (y_server y) ! i = TServe fd)"

definition fair_run :: "nat \<Rightarrow> (fd \<rightharpoonup> bytes) \<Rightarrow> (nat \<Rightarrow> system) \<Rightarrow> bool" where
  "fair_run n sent r \<longleftrightarrow> (\<forall>k. system_step n sent (r k) (r (Suc k)) \<or> r (Suc k) = r k) \<and>
     (\<forall>k i. running (y_server (r k)) \<longrightarrow> i < length (s_threads (y_server (r k))) \<longrightarrow> s_threads (y_server (r k)) ! i \<noteq> TSleep \<longrightarrow>
        \<not> stuck (r k) i \<longrightarrow> (\<exists>j>k. thread_state (r j) i \<noteq> thread_state (r k) i \<or> \<not> running (y_server (r j)))) \<and>
     (\<forall>k fd. s_main (y_server (r k)) = MLock fd \<longrightarrow> (\<exists>j>k. s_main (y_server (r j)) \<noteq> MLock fd))"

definition sound_run :: "(nat \<Rightarrow> system) \<Rightarrow> bool" where
  "sound_run r \<longleftrightarrow> shape_ok (r 0) \<and> (\<forall>k i. i < length (s_threads (y_server (r k))) \<longrightarrow> \<not> stuck (r k) i)"

subsection \<open>One step\<close>

lemma waiting_size: "length (waiting y) = conn_q_size (s_q (y_server y))"
  by (simp add: waiting_def queued_def)

lemma server_threads:
  assumes "server_step s e s'" "server_ok s"
  shows "length (s_threads s') = length (s_threads s)"
  using server_ok_step [OF assms(2,1)] assms(2) by (simp add: server_ok_def)

lemma shape_step:
  assumes "system_step n sent y y'" "shape_ok y"
  shows "shape_ok y'"
  using assms(1)
proof (cases rule: system_step.cases)
  case (accepts fd bs w' s')
  then show ?thesis using assms(2) server_ok_step server_threads by (auto simp: shape_ok_def)
next
  case (synchronises e s')
  then show ?thesis using assms(2) server_ok_step server_threads by (auto simp: shape_ok_def)
next
  case (takes i fd s' g rq)
  then show ?thesis using assms(2) server_ok_step server_threads by (auto simp: shape_ok_def)
next
  case (works i fd f p w')
  then show ?thesis using assms(2) by (simp add: shape_ok_def)
next
  case (ends i s' fd)
  then show ?thesis using assms(2) server_ok_step server_threads by (auto simp: shape_ok_def)
qed

lemma start_shape: "shape_ok (start_system w)"
  using server_ok_init by (simp add: shape_ok_def start_system_def init_server_def)

text \<open>What an event of the server does to the ring, to the thread \<open>i\<close> and to the main thread.\<close>

lemma server_ring:
  assumes "server_step s e s'" "server_ok s"
  shows "(\<forall>i fd. e \<noteq> Dequeued i fd) \<and> (\<exists>xs. queued (s_q s') = queued (s_q s) @ xs) \<or>
    (\<exists>fd i. e = Dequeued i fd \<and> queued (s_q s) = fd # queued (s_q s') \<and> i < length (s_threads s') \<and> s_threads s' ! i = TServe fd)"
  using assms(1)
proof (cases rule: server_step.cases)
  case (enqueued fd q' woken)
  then have "queued q' = queued (s_q s) @ [fd]"
    using enqueue_ok(2) [of "s_q s" fd] assms(2) by (auto simp: server_ok_def connq_ok_def)
  then show ?thesis using enqueued by simp
next
  case (dequeued i fd q' m')
  then have "queued (s_q s) = fd # queued q'"
    using dequeue_ok(2) [of "s_q s"] assms(2) by (simp add: server_ok_def)
  then show ?thesis using dequeued by (simp add: thread_set)
qed auto

lemma server_thread:
  assumes "server_step s e s'" "server_ok s" "i < length (s_threads s)" "s_threads s ! i \<noteq> TSleep" "running s'"
  shows "s_threads s' ! i = s_threads s ! i \<and> (\<forall>fd. e \<noteq> Dequeued i fd) \<and> e \<noteq> Served i \<or>
    s_threads s ! i = TLock \<and> (\<exists>fd. e = Dequeued i fd) \<or>
    s_threads s ! i = TLock \<and> queued (s_q s) = [] \<and> s_threads s' ! i = TSleep \<and> e = Waits i \<or>
    s_threads s' ! i = TLock \<and> e = Served i"
  using assms(1)
proof (cases rule: server_step.cases)
  case (enqueued fd q' woken)
  then have "woken \<noteq> Some i" using assms(4) by (auto simp: may_signal_def asleep_def split: if_splits option.splits)
  then have "s_threads s' ! i = s_threads s ! i"
    using enqueued(2) by (cases woken) (simp_all add: wake_def set_thread_def)
  then show ?thesis using enqueued(1) by simp
next
  case (waits j)
  then show ?thesis using assms(3) by (simp add: thread_set queued_def)
next
  case (dequeued j fd q' m')
  then show ?thesis using assms(3) by (auto simp: thread_set)
next
  case (wakes j)
  then show ?thesis using assms(3,4) by (auto simp: thread_set asleep_def)
next
  case (served j fd)
  then show ?thesis using assms(3) by (auto simp: thread_set)
qed simp_all

text \<open>\<open>main\<close> keeps its connection until it is in the ring, which nobody else fills.\<close>

lemma server_main:
  assumes "server_step s e s'" "server_ok s" "s_main s = MLock fd \<or> s_main s = MSleep fd" "running s'"
  shows "queued (s_q s') = queued (s_q s) @ [fd] \<or> (s_main s' = MLock fd \<or> s_main s' = MSleep fd) \<and>
    ((\<forall>i d. e \<noteq> Dequeued i d) \<longrightarrow> queued (s_q s') = queued (s_q s))"
  using assms(1)
proof (cases rule: server_step.cases)
  case (enqueued d q' woken)
  then have "queued q' = queued (s_q s) @ [fd]"
    using enqueue_ok(2) [of "s_q s" fd] assms(2,3) by (auto simp: server_ok_def connq_ok_def)
  then show ?thesis using enqueued by simp
next
  case (dequeued i d q' m')
  then show ?thesis using assms(3) by (auto simp: signal_not_full_def)
qed (use assms(3,4) in \<open>auto simp: running_def\<close>)

text \<open>The same for the steps of the system.\<close>

lemma ring_step:
  assumes "system_step n sent y y'" "shape_ok y"
  shows "(\<exists>xs. waiting y' = waiting y @ xs) \<or> taken_first y y'"
  using assms(1)
proof (cases rule: system_step.cases)
  case (works i fd f p w')
  then show ?thesis by (simp add: waiting_def)
qed (use assms(2) server_ring [of "y_server y" _ "y_server y'"] in \<open>auto simp: shape_ok_def waiting_def taken_first_def\<close>)

lemma main_step:
  assumes "system_step n sent y y'" "shape_ok y" "held y InMain fd" "running (y_server y')"
  shows "fd \<in> set (waiting y') \<or> held y' InMain fd \<and> (waiting y' = waiting y \<or> taken_first y y')"
  using assms(1)
proof (cases rule: system_step.cases)
  case (works i fd f p w')
  then show ?thesis using assms(3) by (simp add: waiting_def)
next
  case (takes i d s' g rq)
  then show ?thesis
    using server_main [OF takes(2), of fd] server_ring [OF takes(2)] assms(2-4)
    by (auto simp: shape_ok_def waiting_def taken_first_def)
next
  case (accepts d bs w' s')
  then show ?thesis using server_main [OF accepts(4), of fd] assms(2-4) by (auto simp: shape_ok_def waiting_def)
next
  case (synchronises e s')
  then show ?thesis
    using server_main [OF synchronises(2), of fd] assms(2-4) by (auto simp: shape_ok_def waiting_def control_def)
next
  case (ends i s' d)
  then show ?thesis using server_main [OF ends(2), of fd] assms(2-4) by (auto simp: shape_ok_def waiting_def)
qed

text \<open>A thread that is awake and moves makes a call, ends its service, takes a connection or finds the ring empty.\<close>

lemma thread_step:
  assumes "system_step n sent y y'" "shape_ok y" "running (y_server y')"
    and i: "i < length (s_threads (y_server y))" "thread_state y i = (pc, p)" "pc \<noteq> TSleep" "thread_state y' i \<noteq> (pc, p)"
  shows "(\<exists>fd f w. pc = TServe fd \<and> p = Act f \<and> thread_state y' i = (pc, fst (f w))) \<or>
    (\<exists>fd. pc = TServe fd \<and> fst (thread_state y' i) = TLock \<and> fd \<in> set (y_served y')) \<or>
    pc = TLock \<and> (waiting y = [] \<or> taken_first y y')"
  using assms(1)
proof (cases rule: system_step.cases)
  case (works j fd f p' w')
  then have "j = i" using i by (cases "j = i") (auto simp: thread_state_def)
  then have "pc = TServe fd \<and> p = Act f \<and> thread_state y' i = (pc, fst (f (y_world y)))"
    using works i(1,2) assms(2) by (auto simp: thread_state_def shape_ok_def)
  then show ?thesis by blast
next
  case (takes j d s' g rq)
  then show ?thesis
    using server_thread [OF takes(2), of i] server_ring [OF takes(2)] assms(2,3) i
    by (cases "j = i") (auto simp: shape_ok_def waiting_def taken_first_def thread_state_def)
next
  case (accepts d bs w' s')
  then show ?thesis using server_thread [OF accepts(4), of i] assms(2,3) i by (auto simp: shape_ok_def thread_state_def)
next
  case (synchronises e s')
  then show ?thesis
    using server_thread [OF synchronises(2), of i] assms(2,3) i
    by (auto simp: shape_ok_def thread_state_def control_def waiting_def)
next
  case (ends j s' d)
  then show ?thesis
    using server_thread [OF ends(2), of i] assms(2,3) i
    by (cases "j = i") (auto simp: shape_ok_def thread_state_def)
qed

subsection \<open>Runs\<close>

lemma first_change:
  fixes k j :: nat
  assumes "Q (r k)" "\<not> Q (r j)" "k \<le> j"
  shows "\<exists>l\<ge>k. Q (r l) \<and> \<not> Q (r (Suc l))"
  using assms(3,2)
proof (induction rule: dec_induct)
  case base
  then show ?case using assms(1) by simp
next
  case (step l)
  then show ?case by blast
qed

lemma fair_stepD: "fair_run n sent r \<Longrightarrow> r (Suc k) \<noteq> r k \<Longrightarrow> system_step n sent (r k) (r (Suc k))"
  by (auto simp: fair_run_def)

lemma fair_shape: "fair_run n sent r \<Longrightarrow> sound_run r \<Longrightarrow> shape_ok (r k)"
proof (induction k)
  case (Suc k)
  then show ?case using shape_step fair_stepD by metis
qed (simp add: sound_run_def)

lemma fair_reaches: "fair_run n sent r \<Longrightarrow> (system_step n sent)\<^sup>*\<^sup>* (r 0) (r k)"
proof (induction k)
  case (Suc k)
  then show ?case using fair_stepD [of n sent r k] by (cases "r (Suc k) = r k") (auto intro: rtranclp.rtrancl_into_rtrancl)
qed simp

lemma fair_ring:
  assumes "fair_run n sent r" "sound_run r"
  shows "(\<exists>xs. waiting (r (Suc k)) = waiting (r k) @ xs) \<or> taken_first (r k) (r (Suc k))"
proof (cases "r (Suc k) = r k")
  case False
  show ?thesis by (rule ring_step [OF fair_stepD [OF assms(1) False] fair_shape [OF assms]])
qed simp

lemma pool:
  assumes "fair_run n sent r" "sound_run r" "i < length (s_threads (y_server (r k)))"
  shows "i < length (s_threads (y_server (r j)))"
  using assms(3) fair_shape [OF assms(1,2), of k] fair_shape [OF assms(1,2), of j] by (simp add: shape_ok_def server_ok_def)

text \<open>A thread that is awake moves.\<close>

lemma thread_moves:
  assumes fair: "fair_run n sent r" "sound_run r"
    and i: "i < length (s_threads (y_server (r k)))" "thread_state (r k) i = (pc, p)" "pc \<noteq> TSleep"
  shows "\<exists>j\<ge>k. \<not> running (y_server (r j)) \<or>
    (\<exists>fd f w. pc = TServe fd \<and> p = Act f \<and> thread_state (r j) i = (pc, fst (f w))) \<or>
    (\<exists>fd. pc = TServe fd \<and> fst (thread_state (r j) i) = TLock \<and> fd \<in> set (y_served (r j))) \<or>
    pc = TLock \<and> (waiting (r j) = [] \<or> taken_first (r j) (r (Suc j)))"
proof (cases "running (y_server (r k))")
  case True
  then have "\<exists>j>k. thread_state (r j) i \<noteq> thread_state (r k) i \<or> \<not> running (y_server (r j))"
    using fair i unfolding fair_run_def sound_run_def thread_state_def by blast
  then obtain j where j: "k \<le> j" "\<not> (thread_state (r j) i = (pc, p) \<and> running (y_server (r j)))"
    using i(2) less_imp_le by metis
  obtain l where l: "k \<le> l" "thread_state (r l) i = (pc, p)" "running (y_server (r l))"
      "\<not> (thread_state (r (Suc l)) i = (pc, p) \<and> running (y_server (r (Suc l))))"
    using first_change [of "\<lambda>y. thread_state y i = (pc, p) \<and> running (y_server y)" r k j] j i(2) True by blast
  have step: "system_step n sent (r l) (r (Suc l))" by (rule fair_stepD [OF fair(1)]) (use l in auto)
  show ?thesis
  proof (cases "running (y_server (r (Suc l)))")
    case True
    have "k \<le> Suc l" using l(1) by simp
    then show ?thesis
      using thread_step [OF step fair_shape [OF fair] True pool [OF fair i(1)] l(2) i(3)] True l(1,4) by blast
  next
    case False
    then show ?thesis using l(1) le_SucI by blast
  qed
qed blast

text \<open>A service ends.\<close>

lemma thread_ends:
  assumes fair: "fair_run n sent r" "sound_run r"
  shows "i < length (s_threads (y_server (r k))) \<Longrightarrow> thread_state (r k) i = (TServe fd, p) \<Longrightarrow>
    \<exists>j\<ge>k. \<not> running (y_server (r j)) \<or> fst (thread_state (r j) i) = TLock \<and> fd \<in> set (y_served (r j))"
proof (induction p arbitrary: k)
  case (Ret a)
  show ?case using thread_moves [OF fair Ret] by fastforce
next
  case (Act f)
  consider j where "j \<ge> k" "\<not> running (y_server (r j))" | j w where "j \<ge> k" "thread_state (r j) i = (TServe fd, fst (f w))"
    | j where "j \<ge> k" "fst (thread_state (r j) i) = TLock" "fd \<in> set (y_served (r j))"
    using thread_moves [OF fair Act.prems] by fastforce
  then show ?case
  proof cases
    case 2
    have "i < length (s_threads (y_server (r j)))" by (rule pool [OF fair Act.prems(1)])
    then show ?thesis using Act.IH [OF rangeI _ _ 2(2)] 2(1) by (meson order_trans prod.exhaust_sel fsts.intros)
  qed blast+
qed

text \<open>A ring that is not empty is moved on.\<close>

lemma ring_moves:
  assumes fair: "fair_run n sent r" "sound_run r" and q: "waiting (r k) \<noteq> []"
  shows "\<exists>j\<ge>k. \<not> running (y_server (r j)) \<or> taken_first (r j) (r (Suc j))"
proof (rule ccontr)
  assume "\<not> ?thesis"
  then have never: "running (y_server (r j))" "\<not> taken_first (r j) (r (Suc j))" if "k \<le> j" for j using that by blast+
  have full: "waiting (r j) \<noteq> []" if "k \<le> j" for j
    using that
  proof (induction rule: dec_induct)
    case (step l)
    then show ?case using fair_ring [OF fair, of l] never(2) by auto
  qed (rule q)
  have "server_ok (y_server (r k))" using fair_shape [OF fair] by (simp add: shape_ok_def)
  then obtain i where i: "i < length (s_threads (y_server (r k)))" "fst (thread_state (r k) i) \<noteq> TSleep"
    using q by (auto simp: server_ok_def thread_state_def waiting_def queued_def)
  have "\<exists>j\<ge>k. fst (thread_state (r j) i) = TLock"
  proof (cases "fst (thread_state (r k) i)")
    case (TServe fd)
    then have "thread_state (r k) i = (TServe fd, snd (thread_state (r k) i))" by (simp add: prod_eq_iff)
    from thread_ends [OF fair i(1) this] show ?thesis using never(1) by blast
  qed (use i(2) in auto)
  then obtain j where j: "k \<le> j" "fst (thread_state (r j) i) = TLock" by blast
  then have "thread_state (r j) i = (TLock, snd (thread_state (r j) i))" by (simp add: prod_eq_iff)
  then show False
    using thread_moves [OF fair pool [OF fair i(1)], of j] never full j(1) by (metis order_trans thread_pc.distinct)
qed

text \<open>The first connection of the ring is taken, and those behind it move up.\<close>

lemma ring_next:
  assumes fair: "fair_run n sent r" "sound_run r" and q: "waiting (r k) = fd # fds"
  shows "\<exists>j\<ge>k. \<not> running (y_server (r j)) \<or> (\<exists>i xs. waiting (r j) = fds @ xs \<and>
    i < length (s_threads (y_server (r j))) \<and> fst (thread_state (r j) i) = TServe fd)"
proof -
  let ?P = "\<lambda>j. k \<le> j \<and> (\<not> running (y_server (r j)) \<or> taken_first (r j) (r (Suc j)))"
  define j where "j = Least ?P"
  have "waiting (r k) \<noteq> []" using q by simp
  from LeastI_ex [OF ring_moves [OF fair this]] have j: "?P j" by (simp only: j_def)
  have before: "\<not> ?P l" if "l < j" for l using that unfolding j_def by (rule not_less_Least)
  have grown: "\<exists>xs. waiting (r l) = fd # fds @ xs" if "k \<le> l" "l \<le> j" for l
    using that
  proof (induction rule: dec_induct)
    case (step l)
    then have "\<not> taken_first (r l) (r (Suc l))" using before [of l] by simp
    then show ?case using fair_ring [OF fair, of l] step by auto
  qed (use q in simp)
  show ?thesis
  proof (cases "running (y_server (r j))")
    case True
    then have "taken_first (r j) (r (Suc j))" using j by blast
    then obtain d i where d: "waiting (r j) = d # waiting (r (Suc j))" "i < length (s_threads (y_server (r (Suc j))))"
        "fst (thread_state (r (Suc j)) i) = TServe d"
      unfolding taken_first_def thread_state_def by auto
    obtain xs where "waiting (r j) = fd # fds @ xs" using grown [of j] j by blast
    then have "d = fd" "waiting (r (Suc j)) = fds @ xs" using d(1) by simp_all
    moreover have "k \<le> Suc j" using j by simp
    ultimately show ?thesis using d(2,3) by blast
  next
    case False
    then show ?thesis using j by blast
  qed
qed

lemma serving_served:
  assumes fair: "fair_run n sent r" "sound_run r" and "held (r k) (InThread i) fd"
  shows "\<exists>j\<ge>k. \<not> running (y_server (r j)) \<or> fd \<in> set (y_served (r j))"
proof -
  have "i < length (s_threads (y_server (r k)))" "thread_state (r k) i = (TServe fd, snd (thread_state (r k) i))"
    using assms(3) by (simp_all add: thread_state_def)
  from thread_ends [OF fair this] show ?thesis by blast
qed

lemma queued_served:
  assumes fair: "fair_run n sent r" "sound_run r"
  shows "m < length (waiting (r k)) \<Longrightarrow> waiting (r k) ! m = fd \<Longrightarrow>
    \<exists>j\<ge>k. \<not> running (y_server (r j)) \<or> fd \<in> set (y_served (r j))"
proof (induction m arbitrary: k)
  case 0
  then obtain fds where "waiting (r k) = fd # fds" by (cases "waiting (r k)") auto
  from ring_next [OF fair this] obtain j where j: "k \<le> j"
      "\<not> running (y_server (r j)) \<or> (\<exists>i. held (r j) (InThread i) fd)"
    by (auto simp: thread_state_def)
  then show ?case using serving_served [OF fair] order_trans by blast
next
  case (Suc m)
  then obtain d fds where q: "waiting (r k) = d # fds" "m < length fds" "fds ! m = fd" by (cases "waiting (r k)") auto
  from ring_next [OF fair q(1)] obtain j where j: "k \<le> j"
      "\<not> running (y_server (r j)) \<or> (\<exists>xs. waiting (r j) = fds @ xs)"
    by blast
  then have "\<not> running (y_server (r j)) \<or> m < length (waiting (r j)) \<and> waiting (r j) ! m = fd"
    using q(2,3) by (auto simp: nth_append)
  then show ?case using Suc.IH [of j] j(1) order_trans by blast
qed

subsection \<open>The connection of the main thread\<close>

lemma fair_main:
  assumes "fair_run n sent r" "sound_run r" "held (r k) InMain fd" "running (y_server (r (Suc k)))"
  shows "fd \<in> set (waiting (r (Suc k))) \<or> held (r (Suc k)) InMain fd \<and>
    (waiting (r (Suc k)) = waiting (r k) \<or> taken_first (r k) (r (Suc k)))"
proof (cases "r (Suc k) = r k")
  case False
  show ?thesis by (rule main_step [OF fair_stepD [OF assms(1) False] fair_shape [OF assms(1,2)] assms(3,4)])
qed (use assms(3) in simp)

lemma taken_shorter: "taken_first y y' \<Longrightarrow> length (waiting y) = Suc (length (waiting y'))"
  by (auto simp: taken_first_def)

lemma main_room:
  assumes fair: "fair_run n sent r" "sound_run r" and m: "held (r k) InMain fd" "length (waiting (r k)) < MAX_CONN_BACKLOG"
  shows "\<exists>j\<ge>k. \<not> running (y_server (r j)) \<or> fd \<in> set (waiting (r j))"
proof -
  let ?Q = "\<lambda>y. held y InMain fd \<and> length (waiting y) < MAX_CONN_BACKLOG"
  have lock: "?Q (r l) \<Longrightarrow> s_main (y_server (r l)) = MLock fd" for l
    using fair_shape [OF fair, of l] by (auto simp: shape_ok_def server_ok_def waiting_size)
  have "\<exists>j>k. s_main (y_server (r j)) \<noteq> MLock fd" using fair(1) lock m unfolding fair_run_def by blast
  then obtain j where "k \<le> j" "\<not> ?Q (r j)" using lock less_imp_le by blast
  then obtain l where l: "k \<le> l" "?Q (r l)" "\<not> ?Q (r (Suc l))" using first_change [of ?Q r k j] m by blast
  have "\<not> running (y_server (r (Suc l))) \<or> fd \<in> set (waiting (r (Suc l)))"
    using fair_main [OF fair, of l fd] l(2,3) taken_shorter [of "r l" "r (Suc l)"] by auto
  then show ?thesis using l(1) le_SucI by blast
qed

lemma main_enqueued:
  assumes fair: "fair_run n sent r" "sound_run r" and m: "held (r k) InMain fd"
  shows "\<exists>j\<ge>k. \<not> running (y_server (r j)) \<or> fd \<in> set (waiting (r j))"
proof (cases "length (waiting (r k)) < MAX_CONN_BACKLOG")
  case True
  show ?thesis by (rule main_room [OF fair m True])
next
  case False
  let ?Q = "\<lambda>y. held y InMain fd \<and> \<not> length (waiting y) < MAX_CONN_BACKLOG \<and> running (y_server y)"
  have small: "length (waiting (r l)) \<le> MAX_CONN_BACKLOG" for l
    using fair_shape [OF fair, of l] by (simp add: shape_ok_def server_ok_def connq_ok_def waiting_size)
  have "?Q (r k)" using m False by (auto simp: running_def)
  moreover obtain j where j: "k \<le> j" "\<not> ?Q (r j) \<or> \<not> ?Q (r (Suc j))"
    using ring_moves [OF fair, of k] False small taken_shorter
    by (metis MAX_CONN_BACKLOG_def Suc_le_lessD list.size(3) zero_less_numeral)
  ultimately obtain l where l: "k \<le> l" "?Q (r l)" "\<not> ?Q (r (Suc l))"
    using first_change [of ?Q r k j] first_change [of ?Q r k "Suc j"] le_SucI by blast
  then have "\<not> running (y_server (r (Suc l))) \<or> fd \<in> set (waiting (r (Suc l))) \<or>
      held (r (Suc l)) InMain fd \<and> length (waiting (r (Suc l))) < MAX_CONN_BACKLOG"
    using fair_main [OF fair, of l fd] by auto
  then show ?thesis using main_room [OF fair, of "Suc l" fd] l(1) by (meson le_SucI order_trans)
qed

lemma held_served:
  assumes fair: "fair_run n sent r" "sound_run r" and h: "held (r k) p fd"
  shows "\<exists>j\<ge>k. \<not> running (y_server (r j)) \<or> fd \<in> set (y_served (r j))"
proof (cases p)
  case (InQueue m)
  then show ?thesis using queued_served [OF fair, of m k fd] h by (simp add: waiting_def)
next
  case InMain
  then obtain j where j: "k \<le> j" "\<not> running (y_server (r j)) \<or> fd \<in> set (waiting (r j))"
    using main_enqueued [OF fair] h by blast
  then show ?thesis using queued_served [OF fair] by (metis in_set_conv_nth order_trans)
next
  case (InThread i)
  then show ?thesis using serving_served [OF fair] h by blast
next
  case (InServed m)
  then show ?thesis using h by auto
qed

subsection \<open>Fair runs that come to rest\<close>

definition at_rest :: "system \<Rightarrow> bool" where
  "at_rest y \<longleftrightarrow> s_main (y_server y) = MAccept \<and> (\<forall>i < length (s_threads (y_server y)). s_threads (y_server y) ! i = TSleep)"

lemma resting_run:
  assumes "system_step n sent y0 y1" "(system_step n sent)\<^sup>*\<^sup>* y1 y" "at_rest y" "shape_ok y0"
  shows "\<exists>r. fair_run n sent r \<and> r 0 = y0 \<and> r 1 = y1"
proof -
  obtain m where "(system_step n sent ^^ m) y1 y" using rtranclp_imp_relpowp [OF assms(2)] by blast
  then obtain f where f: "f 0 = y1" "f m = y" "\<And>i. i < m \<Longrightarrow> system_step n sent (f i) (f (Suc i))"
    unfolding relpowp_fun_conv by blast
  define r where "r k = (case k of 0 \<Rightarrow> y0 | Suc j \<Rightarrow> f (min j m))" for k
  have steps: "system_step n sent (r k) (r (Suc k)) \<or> r (Suc k) = r k" for k
  proof (cases k)
    case (Suc j)
    then show ?thesis using f(3) [of j] by (cases "j < m") (simp_all add: r_def min_def)
  qed (use f(1) assms(1) in \<open>simp add: r_def\<close>)
  have "shape_ok (r k)" for k
  proof (induction k)
    case (Suc k)
    then show ?case using steps [of k] shape_step by metis
  qed (simp add: r_def assms(4))
  then have pool: "length (s_threads (y_server (r k))) = THREAD_POOL_SIZE" for k by (simp add: shape_ok_def server_ok_def)
  have rest: "r (Suc (k + m)) = y" for k using f(2) by (simp add: r_def)
  have size: "length (s_threads (y_server (r k))) = length (s_threads (y_server y))" for k
    using pool [of k] pool [of "Suc m"] rest [of 0] by simp
  have "fair_run n sent r"
    unfolding fair_run_def
  proof (intro conjI allI impI)
    fix k i assume i: "i < length (s_threads (y_server (r k)))" "s_threads (y_server (r k)) ! i \<noteq> TSleep"
    then have "thread_state (r (Suc (k + m))) i \<noteq> thread_state (r k) i"
      using assms(3) size rest by (auto simp: at_rest_def thread_state_def)
    then show "\<exists>j>k. thread_state (r j) i \<noteq> thread_state (r k) i \<or> \<not> running (y_server (r j))"
      by (intro exI [of _ "Suc (k + m)"]) simp
  next
    fix k fd assume "s_main (y_server (r k)) = MLock fd"
    then show "\<exists>j>k. s_main (y_server (r j)) \<noteq> MLock fd"
      using assms(3) rest [of k] by (intro exI [of _ "Suc (k + m)"]) (simp add: at_rest_def)
  qed (rule steps)
  then show ?thesis using f(1) by (intro exI [of _ r]) (simp add: r_def)
qed

end
