(* ===== verification/Serializable.thy ===== *)
theory Serializable
  imports System
begin

section \<open>Clients with different users\<close>

text \<open>
  When the commands of the clients name different users, the contract \<open>serving\<close> holds with the
  assertions of the theory \<open>Noninterference\<close>: a waiting client is where the specification starts, a
  served one has been answered as the specification says, whatever the other threads did meanwhile.
\<close>

definition sends :: "(fd \<rightharpoonup> command) \<Rightarrow> fd \<rightharpoonup> bytes" where
  "sends cmds fd = map_option command_bytes (cmds fd)"

definition commands_ok :: "(fd \<rightharpoonup> command) \<Rightarrow> bool" where
  "commands_ok cmds \<longleftrightarrow> (\<forall>fd c. cmds fd = Some c \<longrightarrow> command_ok c)"

lemma polite_sends: "commands_ok cmds \<Longrightarrow> polite (sends cmds)"
  by (auto simp: commands_ok_def polite_def sends_def)

definition commands_apart :: "(fd \<rightharpoonup> command) \<Rightarrow> bool" where
  "commands_apart cmds \<longleftrightarrow>
     (\<forall>c d a b. cmds c = Some a \<longrightarrow> cmds d = Some b \<longrightarrow> c \<noteq> d \<longrightarrow> users_of a \<inter> users_of b = {})"

text \<open>
  \<open>untouched n cmds v db w\<close>: since the world \<open>v\<close> with the accounts \<open>db\<close> only accounts of clients that have a
  descriptor have changed, and nothing was sent on descriptors still to come.
\<close>

definition no_client_of :: "(fd \<rightharpoonup> command) \<Rightarrow> int \<Rightarrow> string \<Rightarrow> bool" where
  "no_client_of cmds k u \<longleftrightarrow> (\<forall>fd c. cmds fd = Some c \<longrightarrow> fd < k \<longrightarrow> u \<notin> users_of c)"

definition untouched :: "nat \<Rightarrow> (fd \<rightharpoonup> command) \<Rightarrow> world \<Rightarrow> db \<Rightarrow> world \<Rightarrow> bool" where
  "untouched n cmds v db w \<longleftrightarrow> commands_ok cmds \<and> commands_apart cmds \<and> pend_bound n db \<and>
     w_accepts w = w_accepts v \<and> w_peer_ip w = w_peer_ip v \<and>
     (\<exists>db'. db_rep w db' \<and> (\<forall>u. no_client_of cmds (int (w_next w)) u \<longrightarrow> db' u = db u)) \<and>
     (\<forall>fd \<ge> int (w_next w). w_out w fd = w_out v fd)"

definition handled :: "(fd \<rightharpoonup> command) \<Rightarrow> world \<Rightarrow> db \<Rightarrow> fd \<Rightarrow> phase \<Rightarrow> world \<Rightarrow> bool" where
  "handled cmds v db fd ph w \<longleftrightarrow> (\<exists>j s. j_sock j = fd \<and> cmds fd = Some (j_command j) \<and> command_ok (j_command j) \<and>
     job_holds (w_accepts v) (w_peer_ip v) j s w \<and> (case ph of
       Waiting \<Rightarrow> s = (command_bytes (j_command j), w_out v fd, db)
     | Serving p \<Rightarrow> garbage_ok (j_garbage j) \<and>
         guided (job_holds (w_accepts v) (w_peer_ip v) j) (job_step j) (completes (job_final v db j)) s p
     | Answered \<Rightarrow> garbage_ok (j_garbage j) \<and> job_final v db j s))"

lemma handled_stable:
  assumes "handled cmds v db fd ph w"
    and "\<And>j s. cmds fd = Some (j_command j) \<Longrightarrow> j_sock j = fd \<Longrightarrow> job_holds (w_accepts v) (w_peer_ip v) j s w \<Longrightarrow>
      job_holds (w_accepts v) (w_peer_ip v) j s w'"
  shows "handled cmds v db fd ph w'"
  using assms unfolding handled_def by blast

lemma no_client_ofD: "no_client_of cmds k u \<Longrightarrow> cmds fd = Some c \<Longrightarrow> fd < k \<Longrightarrow> u \<notin> users_of c"
  by (simp add: no_client_of_def)

lemma no_client_of_mono: "no_client_of cmds k u \<Longrightarrow> k' \<le> k \<Longrightarrow> no_client_of cmds k' u"
  by (auto simp: no_client_of_def)

lemma untouched_accept:
  assumes "untouched n cmds v db w" "accept_client sent w = (fd, w')"
  shows "untouched n cmds v db w'"
proof -
  obtain db' where db': "db_rep w db'" "\<And>u. no_client_of cmds (int (w_next w)) u \<Longrightarrow> db' u = db u"
    using assms(1) by (auto simp: untouched_def)
  have n: "int (w_next w) \<le> int (w_next w')" using accept_client_world(2) [OF assms(2)] by simp
  have "db_rep w' db'" using accept_client_db [OF assms(2) db'(1)] .
  moreover have "db' u = db u" if "no_client_of cmds (int (w_next w')) u" for u
    using db'(2) no_client_of_mono [OF that n] .
  ultimately show ?thesis
    using assms(1) accept_client_new [OF assms(2)] n by (auto simp: untouched_def)
qed

lemma untouched_step:
  assumes "untouched n cmds v db w" "job_step j w w'" "cmds (j_sock j) = Some (j_command j)" "client w (j_sock j)"
  shows "untouched n cmds v db w'"
proof -
  obtain db1 where db1: "db_rep w db1" "\<And>u. no_client_of cmds (int (w_next w)) u \<Longrightarrow> db1 u = db u"
    using assms(1) by (auto simp: untouched_def)
  obtain db2 where db2: "db_rep w' db2" "\<forall>u. u \<notin> users_of (j_command j) \<longrightarrow> db2 u = db1 u"
    using own_step_db [OF assms(2) [unfolded job_step_def] db1(1)] by blast
  have e: "effects {j_sock j} w w'" using assms(2) by (simp add: job_step_def own_step_def)
  have n: "int (w_next w) \<le> int (w_next w')" using effects_fields(6) [OF e] by simp
  have sock: "j_sock j < int (w_next w)" using assms(4) by (simp add: client_def)
  have "db2 u = db u" if "no_client_of cmds (int (w_next w')) u" for u
    using db1(2) [OF no_client_of_mono [OF that n]] db2(2) no_client_ofD [OF that assms(3)] sock n by simp
  moreover have "w_out w' fd = w_out w fd" if "int (w_next w') \<le> fd" for fd
    using effects_fields(9) [OF e, of fd] that sock n by (auto simp: new_fd_def)
  ultimately show ?thesis
    using assms(1) db2(1) effects_fields(4,5) [OF e] n by (auto simp: untouched_def)
qed

lemma job_holds_accept:
  assumes "accept_client sent w = (fd, w')" "job_holds acc ip j s w"
  shows "job_holds acc ip j s w'"
proof -
  have "client w (j_sock j)" using assms(2) by (auto simp: job_holds_def holds_def split: prod.splits)
  note other = accept_client_other [OF assms(1) this]
  show ?thesis
    using assms(2) other accept_client_new [OF assms(1)] accept_client_db [OF assms(1)]
    by (fastforce simp: job_holds_def holds_def split: prod.splits)
qed

lemma new_client_holds:
  assumes "untouched n cmds v db w" "cmds fd = Some c" "accept_client (command_bytes c) w = (fd, w')"
  shows "holds (w_accepts v) (w_peer_ip v) fd (users_of c) (command_bytes c, w_out v fd, db) w'"
proof -
  obtain db' where db': "db_rep w db'" "\<And>u. no_client_of cmds (int (w_next w)) u \<Longrightarrow> db' u = db u"
    using assms(1) by (auto simp: untouched_def)
  have fd: "fd = int (w_next w)" using accept_client_world(1) [OF assms(3)] .
  have "no_client_of cmds (int (w_next w)) u" if "u \<in> users_of c" for u
    using assms(1,2) that fd unfolding untouched_def commands_apart_def no_client_of_def by blast
  then have "\<forall>u \<in> users_of c. db' u = db u" using db'(2) by blast
  then show ?thesis
    using assms(1) fd accept_client_new [OF assms(3)] accept_client_db [OF assms(3) db'(1)]
    by (auto simp: holds_def untouched_def)
qed

lemma handled_known: "handled cmds v db fd ph w \<Longrightarrow> fd < int (w_next w)"
  by (auto simp: handled_def job_holds_def holds_def client_def split: prod.splits)

lemma handled_accept:
  assumes "untouched n cmds v db w" "sends cmds fd = Some bs" "accept_client bs w = (fd, w')"
  shows "untouched n cmds v db w' \<and> handled cmds v db fd Waiting w' \<and>
    (\<forall>d ph. handled cmds v db d ph w \<longrightarrow> handled cmds v db d ph w')"
proof -
  obtain c where c: "cmds fd = Some c" "bs = command_bytes c" using assms(2) by (auto simp: sends_def)
  have ok: "command_ok c" using assms(1) c(1) by (simp add: untouched_def commands_ok_def)
  have "handled cmds v db fd Waiting w'"
    unfolding handled_def job_holds_def using new_client_holds [OF assms(1) c(1) assms(3) [unfolded c(2)]] c(1) ok
    by (intro exI [of _ "\<lparr>j_sock = fd, j_command = c, j_garbage = undefined, j_request = undefined\<rparr>"]) simp
  moreover have "handled cmds v db d ph w \<Longrightarrow> handled cmds v db d ph w'" for d ph
    using handled_stable job_holds_accept [OF assms(3)] by blast
  ultimately show ?thesis
    using untouched_accept [OF assms(1,3)] by blast
qed

lemma handled_take:
  assumes "untouched n cmds v db w" "handled cmds v db fd Waiting w" "garbage_ok g" "request_ok rq"
    "MAX_MSG_SIZE \<le> length (rq_op_code rq)"
  shows "handled cmds v db fd (Serving (service_steps n g fd rq)) w"
proof -
  obtain c where c: "cmds fd = Some c" "command_ok c"
      "holds (w_accepts v) (w_peer_ip v) fd (users_of c) (command_bytes c, w_out v fd, db) w"
    using assms(2) by (auto simp: handled_def job_holds_def)
  define j where "j = \<lparr>j_sock = fd, j_command = c, j_garbage = g, j_request = rq\<rparr>"
  have ready: "job_ready j w" using c assms(3-5) by (simp add: job_ready_def j_def holds_def)
  have "guided (job_holds (w_accepts v) (w_peer_ip v) j) (job_step j) (completes (job_final v db j))
      (command_bytes c, w_out v fd, db) (service_steps n g fd rq)"
    using does_job [OF ready, where n = n and db = db and acc = "w_accepts v" and ip = "w_peer_ip v"
        and F = "job_final v db j" and out = "w_out v fd"] assms(1)
    by (auto simp: job_holds_def [abs_def] job_step_def [abs_def] j_def job_steps_def job_final_def spec_job_def untouched_def
        split: prod.splits)
  then show ?thesis
    unfolding handled_def using c assms(3)
    by (intro exI [of _ j] exI [of _ "(command_bytes c, w_out v fd, db)"]) (simp add: j_def job_holds_def)
qed

lemma handled_work:
  assumes "untouched n cmds v db w" "handled cmds v db fd (Serving (Act f)) w" "f w = (p, w')"
  shows "untouched n cmds v db w' \<and> handled cmds v db fd (Serving p) w' \<and>
    (\<forall>d ph. d \<noteq> fd \<longrightarrow> handled cmds v db d ph w \<longrightarrow> handled cmds v db d ph w')"
proof -
  obtain j s where j: "j_sock j = fd" "cmds fd = Some (j_command j)" "command_ok (j_command j)" "garbage_ok (j_garbage j)"
      "job_holds (w_accepts v) (w_peer_ip v) j s w"
      "guided (job_holds (w_accepts v) (w_peer_ip v) j) (job_step j) (completes (job_final v db j)) s (Act f)"
    using assms(2) by (auto simp: handled_def)
  obtain s' where s': "job_holds (w_accepts v) (w_peer_ip v) j s' w'" "job_step j w w'"
      "guided (job_holds (w_accepts v) (w_peer_ip v) j) (job_step j) (completes (job_final v db j)) s' p"
    using j(5,6) assms(3) by auto
  have client: "client w (j_sock j)" using j(5) by (auto simp: job_holds_def holds_def split: prod.splits)
  have "handled cmds v db d ph w'" if d: "d \<noteq> fd" "handled cmds v db d ph w" for d ph
  proof (rule handled_stable [OF d(2)])
    fix k t assume k: "cmds d = Some (j_command k)" "j_sock k = d" "job_holds (w_accepts v) (w_peer_ip v) k t w"
    have "jobs_disjoint j k"
      using assms(1) j(1,2) k(1,2) d(1) unfolding untouched_def commands_apart_def jobs_disjoint_def by metis
    then show "job_holds (w_accepts v) (w_peer_ip v) k t w'" by (rule jobs.stable [OF _ k(3) s'(2)])
  qed
  moreover have "handled cmds v db fd (Serving p) w'"
    unfolding handled_def using j(1-4) s'(1,3) by (intro exI [of _ j] exI [of _ s']) simp
  ultimately show ?thesis
    using untouched_step [OF assms(1) s'(2) _ client] j(1,2) by blast
qed

lemma handled_end: "handled cmds v db fd (Serving (Ret Done)) w \<Longrightarrow> handled cmds v db fd Answered w"
  by (auto simp: handled_def)

lemma handled_whole: "handled cmds v db fd (Serving (Ret r)) w \<Longrightarrow> r = Done"
  by (auto simp: handled_def)

interpretation apart: serving_ends n "sends cmds" "untouched n cmds v db" "handled cmds v db" for n cmds v db
  by unfold_locales (fact handled_known handled_accept handled_take handled_work handled_end handled_whole)+

lemma handled_answered:
  assumes "handled cmds v db fd Answered w" "db_rep w db'"
  shows "\<exists>c g. cmds fd = Some c \<and> garbage_ok g \<and>
    w_out w fd = w_out v fd @ fst (chat_spec g (w_accepts v) (w_peer_ip v fd) c db) \<and>
    (\<forall>u \<in> users_of c. db' u = snd (chat_spec g (w_accepts v) (w_peer_ip v fd) c db) u)"
proof -
  obtain j i out d where j: "j_sock j = fd" "cmds fd = Some (j_command j)" "garbage_ok (j_garbage j)"
      "job_holds (w_accepts v) (w_peer_ip v) j (i, out, d) w" "job_final v db j (i, out, d)"
    using assms(1) by (auto simp: handled_def)
  have "\<forall>u \<in> users_of (j_command j). db' u = d u"
    using j(4) db_rep_unique [OF assms(2)] by (auto simp: job_holds_def holds_def)
  then show ?thesis
    using j by (intro exI [of _ "j_command j"] exI [of _ "j_garbage j"])
      (auto simp: job_holds_def holds_def job_final_def spec_job_def)
qed

end
