(* ===== verification/SystemProps.thy ===== *)
theory SystemProps
  imports Progress Fairness Serializable Examples
begin

section \<open>Properties of the whole server\<close>

text \<open>
  What every run of the relation \<open>system_step\<close> keeps, what the clients it has served were answered,
  and that it serves the connections it holds; applied to a run in which a client registers a
  user.
\<close>

text \<open>A client accepted by \<open>main\<close>, queued, and served to the end.\<close>

definition taken :: "fd \<Rightarrow> server" where
  "taken fd = set_thread 0 (TServe fd) (init_server\<lparr>s_q := snd (dequeue (enqueue fd init_connq))\<rparr>)"

lemma taken_steps:
  "server_step init_server (Accepted fd) (init_server\<lparr>s_main := MLock fd\<rparr>)"
  "server_step (init_server\<lparr>s_main := MLock fd\<rparr>) (Enqueued fd None) (init_server\<lparr>s_q := enqueue fd init_connq\<rparr>)"
  "server_step (init_server\<lparr>s_q := enqueue fd init_connq\<rparr>) (Dequeued 0 fd) (taken fd)"
  "server_step (taken fd) (Served 0) (set_thread 0 TLock (taken fd))"
  unfolding exec_event_step [symmetric]
  by (simp_all add: exec_event_def taken_def init_server_def Let_def running_def may_signal_def init_connq_def enqueue_def
      dequeue_def MAX_CONN_BACKLOG_def THREAD_POOL_SIZE_def nth_replicate set_thread_def)

lemma taken_thread: "s_threads (taken fd) ! 0 = TServe fd" "0 < length (s_threads (taken fd))" "running (taken fd)"
  by (simp_all add: taken_def set_thread_def init_server_def THREAD_POOL_SIZE_def running_def)

text \<open>Then nobody has anything to do: the threads find the ring empty and sleep.\<close>

lemma controls_steps:
  "exec_events (y_server y) es = Some s \<Longrightarrow> list_all control es \<Longrightarrow> (system_step n sent)\<^sup>*\<^sup>* y (y\<lparr>y_server := s\<rparr>)"
proof (induction es arbitrary: y)
  case (Cons e es)
  then obtain s1 where s1: "exec_event (y_server y) e = Some s1" "exec_events s1 es = Some s"
    by (auto split: option.splits)
  then have "system_step n sent y (y\<lparr>y_server := s1\<rparr>)"
    using Cons.prems(2) by (intro system_step.synchronises [where e = e]) (simp_all add: exec_event_step)
  then show ?case
    using Cons.IH [of "y\<lparr>y_server := s1\<rparr>"] s1(2) Cons.prems(2) by (auto intro: converse_rtranclp_into_rtranclp)
next
  case Nil
  then have "y\<lparr>y_server := s\<rparr> = y" by (cases y) simp
  then show ?case by simp
qed

definition all_asleep :: "fd \<Rightarrow> server" where
  "all_asleep fd = (taken fd)\<lparr>s_threads := replicate THREAD_POOL_SIZE TSleep\<rparr>"

lemma threads_sleep: "exec_events (set_thread 0 TLock (taken fd)) (map Waits [0..<THREAD_POOL_SIZE]) = Some (all_asleep fd)"
  by (simp add: exec_event_def all_asleep_def taken_def init_server_def running_def init_connq_def enqueue_def dequeue_def
      THREAD_POOL_SIZE_def set_thread_def upt_rec numeral_eq_Suc)

lemma served_apart:
  assumes "db_rep w db" "pend_bound n db" "commands_ok cmds" "commands_apart cmds"
    and "(system_step n (sends cmds))\<^sup>*\<^sup>* (start_system w) y"
  shows "system_ok (untouched n cmds w db) (handled cmds w db) y"
  by (rule apart.from_start [OF _ assms(5)]) (use assms(1-4) in \<open>auto simp: untouched_def\<close>)

lemma client_runs:
  assumes rep: "db_rep w db" "pend_bound n db" "commands_ok cmds" "commands_apart cmds"
    and fd: "fd = int (w_next w)" "sends cmds fd = Some bs"
  shows "\<exists>y1 y. system_step n (sends cmds) (start_system w) y1 \<and> held y1 InMain fd \<and>
    (system_step n (sends cmds))\<^sup>*\<^sup>* y1 y \<and> at_rest y \<and> y_served y = [fd]"
proof -
  let ?sent = "sends cmds"
  obtain w1 where w1: "accept_client bs w = (fd, w1)" using fd(1) by (simp add: accept_client_def Let_def)
  let ?p = "service_steps n (example_garbage 0) fd example_request"
  let ?y0 = "start_system w"
  let ?y1 = "?y0\<lparr>y_server := init_server\<lparr>s_main := MLock fd\<rparr>, y_world := w1\<rparr>"
  let ?y2 = "?y1\<lparr>y_server := init_server\<lparr>s_q := enqueue fd init_connq\<rparr>\<rparr>"
  let ?y3 = "?y2\<lparr>y_server := taken fd, y_procs := (y_procs ?y2)[0 := ?p]\<rparr>"
  have procs: "0 < length (y_procs ?y0)" by (simp add: start_system_def THREAD_POOL_SIZE_def)
  have step1: "system_step n ?sent ?y0 ?y1"
    by (rule system_step.accepts [where bs = bs]) (use w1 taken_steps fd(2) in \<open>simp_all add: start_system_def\<close>)
  have step2: "system_step n ?sent ?y1 ?y2"
    by (rule system_step.synchronises [where e = "Enqueued fd None"]) (use taken_steps in \<open>simp_all add: control_def\<close>)
  have step3: "system_step n ?sent ?y2 ?y3"
    by (rule system_step.takes [where i = 0]) (use taken_steps in simp_all)
  have "(system_step n ?sent)\<^sup>*\<^sup>* ?y0 ?y3" using step1 step2 step3 by (meson r_into_rtranclp rtranclp_trans)
  note ok = served_apart [OF rep this]
  obtain w2 where w2: "run_proc (y_procs ?y3 ! 0) (y_world ?y3) = (Done, w2)"
    using apart.whole_threads(2) [OF ok, of 0 fd] taken_thread by auto
  let ?y4 = "?y3\<lparr>y_world := w2, y_procs := (y_procs ?y3)[0 := Ret Done]\<rparr>"
  let ?y5 = "?y4\<lparr>y_server := set_thread 0 TLock (taken fd), y_served := y_served ?y4 @ [fd]\<rparr>"
  have "(system_step n ?sent)\<^sup>*\<^sup>* ?y3 ?y4"
    by (rule works_alone [OF _ _ _ _ w2]) (use taken_thread procs in simp_all)
  moreover have "system_step n ?sent ?y4 ?y5"
    by (rule system_step.ends [where i = 0]) (use taken_thread taken_steps procs in simp_all)
  moreover have "(system_step n ?sent)\<^sup>*\<^sup>* ?y5 (?y5\<lparr>y_server := all_asleep fd\<rparr>)"
    by (rule controls_steps [OF _ , where es = "map Waits [0..<THREAD_POOL_SIZE]"])
      (use threads_sleep in \<open>simp_all add: control_def list_all_iff\<close>)
  ultimately have "(system_step n ?sent)\<^sup>*\<^sup>* ?y1 (?y5\<lparr>y_server := all_asleep fd\<rparr>)"
    using step2 step3 by (meson converse_rtranclp_into_rtranclp rtranclp_trans)
  moreover have "at_rest (?y5\<lparr>y_server := all_asleep fd\<rparr>)"
    by (simp add: at_rest_def all_asleep_def taken_def set_thread_def init_server_def)
  ultimately show ?thesis
    using step1 by (intro exI [of _ ?y1] exI [of _ "?y5\<lparr>y_server := all_asleep fd\<rparr>"]) (simp add: start_system_def)
qed

text \<open>A client that registers a user.\<close>

definition eve_client :: "fd \<rightharpoonup> command" where
  "eve_client = [6 \<mapsto> Register ''eve'']"

lemma eve_facts: "pend_bound 3 example_db" "commands_apart eve_client" "w_out (example_world (\<lambda>_. [])) 6 = []"
  "commands_ok eve_client"
  by (simp_all add: commands_ok_def name_ok_def pend_bound_def commands_apart_def eve_client_def example_db_def
      ann_account_def bob_account_def example_world_def)

lemma eve_next: "6 = int (w_next (example_world (\<lambda>_. [])))"
  "sends eve_client 6 = Some (command_bytes (Register ''eve''))"
  by (simp_all add: example_world_def sends_def eve_client_def)

lemmas eve_runs = client_runs [OF example_rep eve_facts(1,4,2) eve_next]

lemma eve_served:
  "\<exists>y. (system_step 3 (sends eve_client))\<^sup>*\<^sup>* (start_system (example_world (\<lambda>_. []))) y \<and> y_served y = [6]"
  using eve_runs by (meson converse_rtranclp_into_rtranclp)

text \<open>
  Clients that send any well-formed commands, also on the same user: at the grain of \<open>system_step\<close>, where a
  database function is one step, the files are a database in every run. At the grain of system calls
  they are not: see the theory \<open>FileSteps\<close>.
\<close>

lemma system_keeps_database:
  assumes "db_rep w db" "polite sent" "(system_step n sent)\<^sup>*\<^sup>* (start_system w) y"
  shows "(\<exists>db'. db_rep (y_world y) db') \<and> server_ok (y_server y) \<and> distinct (y_served y) \<and>
    (\<forall>p fd. held y p fd \<longrightarrow> client (y_world y) fd \<and> (\<forall>p'. held y p' fd \<longrightarrow> p' = p))"
proof -
  have ok: "system_ok (some_db sent) orderly y"
    by (rule polite.from_start [OF _ assms(3)]) (use assms(1,2) in \<open>auto simp: some_db_def\<close>)
  show ?thesis
    using system_okD [OF ok] served_distinct [OF ok] orderly_connected by (metis some_db_def)
qed

text \<open>C2: when the commands of the clients name different users, every client served to the end has been
  answered what the specification says of its command on the initial accounts, and the accounts are
  those the specification says, in every interleaving of accepting, queueing and serving.\<close>

theorem system_serializes:
  assumes "db_rep w db" "pend_bound n db" "commands_ok cmds" "commands_apart cmds"
    and "(system_step n (sends cmds))\<^sup>*\<^sup>* (start_system w) y"
  shows "\<exists>db'. db_rep (y_world y) db' \<and>
    (\<forall>fd \<in> set (y_served y). \<exists>c g. cmds fd = Some c \<and> garbage_ok g \<and>
       w_out (y_world y) fd = w_out w fd @ fst (chat_spec g (w_accepts w) (w_peer_ip w fd) c db) \<and>
       (\<forall>u \<in> users_of c. db' u = snd (chat_spec g (w_accepts w) (w_peer_ip w fd) c db) u)) \<and>
    (\<forall>u. (\<forall>fd c. cmds fd = Some c \<longrightarrow> u \<notin> users_of c) \<longrightarrow> db' u = db u)"
proof -
  note ok = served_apart [OF assms]
  obtain db' where db': "db_rep (y_world y) db'"
      "\<And>u. no_client_of cmds (int (w_next (y_world y))) u \<Longrightarrow> db' u = db u"
    using system_okD(4) [OF ok] by (auto simp: untouched_def)
  have "\<exists>c g. cmds fd = Some c \<and> garbage_ok g \<and>
       w_out (y_world y) fd = w_out w fd @ fst (chat_spec g (w_accepts w) (w_peer_ip w fd) c db) \<and>
       (\<forall>u \<in> users_of c. db' u = snd (chat_spec g (w_accepts w) (w_peer_ip w fd) c db) u)"
    if "fd \<in> set (y_served y)" for fd
    using served_phase [OF ok that] handled_answered db'(1) by blast
  then show ?thesis
    using db' by (auto simp: no_client_of_def)
qed

lemma system_serializes_witness:
  "\<exists>y db'. (system_step 3 (sends eve_client))\<^sup>*\<^sup>* (start_system (example_world (\<lambda>_. []))) y \<and> y_served y = [6] \<and>
    w_out (y_world y) 6 = [NUL] \<and> db_rep (y_world y) db' \<and> db' ''eve'' \<noteq> None \<and> db' ''ann'' = Some ann_account"
proof -
  obtain y where y: "(system_step 3 (sends eve_client))\<^sup>*\<^sup>* (start_system (example_world (\<lambda>_. []))) y" "y_served y = [6]"
    using eve_served by blast
  show ?thesis
    using system_serializes [OF example_rep eve_facts(1,4,2) y(1)] y eve_facts(3)
    by (fastforce simp: eve_client_def example_db_def reply_bytes)
qed

text \<open>C13: from every state that a running server reaches with clients that send well-formed commands on pairwise
  different users, and \<open>n\<close> above the number of messages pending for each, it can serve all the connections it
  holds, and each of these clients then has been answered as the specification says.\<close>

theorem every_client_can_be_answered:
  assumes "db_rep w db" "pend_bound n db" "commands_ok cmds" "commands_apart cmds"
    and "(system_step n (sends cmds))\<^sup>*\<^sup>* (start_system w) y"
    and "running (y_server y)"
  shows "\<exists>y'. (system_step n (sends cmds))\<^sup>*\<^sup>* y y' \<and> running (y_server y') \<and> (\<forall>p fd. held y p fd \<longrightarrow>
    (\<exists>c g. cmds fd = Some c \<and> garbage_ok g \<and>
      w_out (y_world y') fd = w_out w fd @ fst (chat_spec g (w_accepts w) (w_peer_ip w fd) c db)))"
proof -
  note start = served_apart [OF assms(1-4)]
  have live: "system_live y" using start [OF assms(5)] assms(6) by (simp add: system_live_def system_ok_def)
  have ends: "\<exists>w'. run_proc (y_procs z ! i) (y_world z) = (Done, w')"
    if "advances n (sends cmds) y z" "i < length (s_threads (y_server z))" "s_threads (y_server z) ! i = TServe fd" for z i fd
  proof (rule apart.whole_threads(2) [OF start that(2,3)])
    show "(system_step n (sends cmds))\<^sup>*\<^sup>* (start_system w) z" using that(1) assms(5) by (auto simp: advances_def)
  qed
  have "\<exists>y'. advances n (sends cmds) y y' \<and> (\<forall>p fd. held y' p fd \<longrightarrow> fd \<in> set (y_served y'))"
    by (rule backlog_empties [OF live], erule (2) ends)
  then obtain y' where y': "advances n (sends cmds) y y'" "\<And>p fd. held y' p fd \<Longrightarrow> fd \<in> set (y_served y')" by blast
  then have run: "(system_step n (sends cmds))\<^sup>*\<^sup>* (start_system w) y'"
    using assms(5) by (auto simp: advances_def)
  note ok = start [OF run]
  have "\<exists>c g. cmds fd = Some c \<and> garbage_ok g \<and>
      w_out (y_world y') fd = w_out w fd @ fst (chat_spec g (w_accepts w) (w_peer_ip w fd) c db)"
    if h: "held y p fd" for p fd
  proof -
    have "fd \<in> set (y_served y')" using y' h unfolding advances_def by blast
    moreover obtain db' where "db_rep (y_world y') db'"
      using system_okD(4) [OF ok] by (auto simp: untouched_def)
    ultimately show ?thesis using handled_answered [OF served_phase [OF ok]] by blast
  qed
  then show ?thesis using y'(1) by (auto simp: advances_def system_live_def)
qed

lemma every_client_can_be_answered_witness:
  "\<exists>y y'. held y InMain 6 \<and> (system_step 3 (sends eve_client))\<^sup>*\<^sup>* y y' \<and> w_out (y_world y') 6 = [NUL]"
proof -
  let ?w = "example_world (\<lambda>_. [])"
  obtain y where y: "system_step 3 (sends eve_client) (start_system ?w) y" "held y InMain 6"
    using eve_runs by blast
  then have run: "(system_step 3 (sends eve_client))\<^sup>*\<^sup>* (start_system ?w) y" "running (y_server y)"
    by (auto simp: running_def)
  show ?thesis
    using every_client_can_be_answered [OF example_rep eve_facts(1,4,2) run] y(2) eve_facts(3)
    by (fastforce simp: eve_client_def example_db_def reply_bytes simp del: held.simps)
qed

text \<open>Any bytes and any faults: the file tree stays well formed, which is what removing a directory needs to end.\<close>

lemma system_keeps_file_tree:
  assumes "files_ok (w_files w)" "(system_step n sent)\<^sup>*\<^sup>* (start_system w) y"
  shows "files_ok (w_files (y_world y)) \<and> server_ok (y_server y) \<and> distinct (y_served y) \<and>
    (\<forall>p fd. held y p fd \<longrightarrow> fd < int (w_next (y_world y)) \<and> (\<forall>p'. held y p' fd \<longrightarrow> p' = p))"
proof -
  have ok: "system_ok (tree_ok 0) unharmed y"
    by (rule any.from_start [OF _ assms(2)]) (use assms(1) in \<open>simp add: tree_ok_def\<close>)
  show ?thesis
    using system_okD [OF ok] served_distinct [OF ok] unharmed_known by (metis tree_ok_def)
qed

text \<open>C14: in a run in which every thread that is awake, and \<open>main\<close> with a connection to enqueue, gets to move some
  time, with clients of different users and \<open>n\<close> above the number of messages pending for each: each
  connection that the server holds at any moment is served to the end later, its loop over pending messages
  included, and is answered as the specification says, unless the server stops; however often threads
  are woken or not woken, and however long the ring stays full.\<close>

theorem fair_runs_serve_all:
  assumes "db_rep w db" "pend_bound n db" "commands_ok cmds" "commands_apart cmds"
    and "fair_run n (sends cmds) r" "r 0 = start_system w" "held (r k) p fd"
  shows "\<exists>j\<ge>k. \<not> running (y_server (r j)) \<or> fd \<in> set (y_served (r j)) \<and> (\<exists>c g. cmds fd = Some c \<and> garbage_ok g \<and>
    w_out (y_world (r j)) fd = w_out w fd @ fst (chat_spec g (w_accepts w) (w_peer_ip w fd) c db))"
proof -
  have ok: "system_ok (untouched n cmds w db) (handled cmds w db) (r l)" for l
    using served_apart [OF assms(1-4)] fair_reaches [OF assms(5), of l] assms(6) by simp
  have "sound_run r"
    using apart.whole_threads(1) [OF ok] start_shape assms(6) by (auto simp: sound_run_def stuck_def)
  then obtain j where j: "k \<le> j" "\<not> running (y_server (r j)) \<or> fd \<in> set (y_served (r j))"
    using held_served [OF assms(5) _ assms(7)] by blast
  obtain db' where "db_rep (y_world (r j)) db'"
    using system_okD(4) [OF ok, of j] by (auto simp: untouched_def)
  then show ?thesis using j handled_answered [OF served_phase [OF ok]] by blast
qed

lemma fair_runs_serve_all_witness:
  "\<exists>r j. fair_run 3 (sends eve_client) r \<and> held (r 1) InMain 6 \<and>
    (\<not> running (y_server (r j)) \<or> 6 \<in> set (y_served (r j)) \<and> w_out (y_world (r j)) 6 = [NUL])"
proof -
  let ?w = "example_world (\<lambda>_. [])"
  obtain y1 y where y: "system_step 3 (sends eve_client) (start_system ?w) y1" "(system_step 3 (sends eve_client))\<^sup>*\<^sup>* y1 y"
      "at_rest y" "held y1 InMain 6"
    using eve_runs by blast
  obtain r where r: "fair_run 3 (sends eve_client) r" "r 0 = start_system ?w" "r 1 = y1"
    using resting_run [OF y(1-3) start_shape] by blast
  have h: "held (r 1) InMain 6" using r(3) y(4) by simp
  obtain j where "\<not> running (y_server (r j)) \<or> 6 \<in> set (y_served (r j)) \<and> w_out (y_world (r j)) 6 = [NUL]"
    using fair_runs_serve_all [OF example_rep eve_facts(1,4,2) r(1,2) h] eve_facts(3)
    by (fastforce simp: eve_client_def example_db_def reply_bytes)
  then show ?thesis using r(1) h by blast
qed

end
