(* ===== verification/FileSteps.thy ===== *)
theory FileSteps
  imports Processes Examples
begin

section \<open>One entry, two threads: the system calls of db\_io\_op\_usr\_ent\<close>

text \<open>
  \<open>db_io_op_usr_ent\<close> as a process whose steps are the opening of the file, with the test of \<open>errno\<close>, which
  belongs to the thread, the transfer and the closing; \<open>remove_recursive\<close> is one step. \<open>MODIFY\<close> empties the
  file in the first of them and fills it in the second.
\<close>

definition io_steps :: "entry_t \<Rightarrow> char \<Rightarrow> (world, int \<times> entry_t) proc" where
  "io_steps entry mode =
     (if e_type entry \<noteq> ENT_TYPE_UD \<and> e_type entry \<noteq> ENT_TYPE_P_MSG then Ret (GEN_ERR_INV_ARGS, entry)
      else if mode \<noteq> CREATE \<and> mode \<noteq> MODIFY \<and> mode \<noteq> READ \<and> mode \<noteq> DELETE then Ret (GEN_ERR_INV_ARGS, entry)
      else if mode = DELETE then
        call (remove_recursive (entry_path entry)) (\<lambda>result.
          Ret (if result < 0 then result else DBMS_SUCCESS, entry))
      else
        call (\<lambda>w. case open_file (entry_path entry) mode w of (fd, w1) \<Rightarrow> ((fd, w_errno w1), w1)) (\<lambda>(entry_fd, err).
          if entry_fd = -1 then Ret (if err = ENOENT then DBMS_ERR_NOT_EXISTS else DBMS_ERR_ANY, entry)
          else call ((if mode = READ then read_entry else write_entry) entry_fd entry) (\<lambda>result.
            do_call (\<lambda>w. snd (sys_close entry_fd w)) (Ret result))))"

lemma run_io_steps: "run_proc (io_steps e mode) w = db_io_op_usr_ent e mode w"
  by (auto simp: io_steps_def db_io_op_usr_ent_def split: prod.split)

text \<open>The process of a call that opens its file.\<close>

lemma io_steps_open:
  assumes "entry_type_ok e" "mode = READ \<or> mode = MODIFY"
  shows "io_steps e mode =
    call (\<lambda>w. case open_file (entry_path e) mode w of (fd, w1) \<Rightarrow> ((fd, w_errno w1), w1)) (\<lambda>(entry_fd, err).
      if entry_fd = -1 then Ret (if err = ENOENT then DBMS_ERR_NOT_EXISTS else DBMS_ERR_ANY, e)
      else call ((if mode = READ then read_entry else write_entry) entry_fd e) (\<lambda>result.
        do_call (\<lambda>w. snd (sys_close entry_fd w)) (Ret result)))"
  using assms by (auto simp: io_steps_def entry_type_ok_def)

lemma read_emptied:
  assumes "calm w" "look (w_files w) q = Some (FileI [])" "w_fds w d = Some (FileD q 0)" "entry_ok e"
  shows "read_entry d e w = ((DBMS_ERR_ANY, e), snd (sys_close d w))"
proof -
  have "w\<lparr>w_fds := (w_fds w)(d \<mapsto> FileD q 0)\<rparr> = w" using assms(3) by (simp add: fun_upd_idem)
  then show ?thesis
    using read_bytes_file [OF assms(1,3,2), of sizeof_entry]
    by (simp add: read_entry_def sizeof_entry_def put_at_def)
qed

text \<open>The reader between the two steps of the writer, and after both.\<close>

lemma read_between_fails:
  assumes "calm w" "fresh_fds w" "entry_type_ok e" "entry_ok e" "is_file w (entry_path e) q c" "q \<noteq> []"
    and "entry_type_ok e2" "entry_ok e2" "entry_path e2 = entry_path e"
  shows "\<exists>ts w'. run_schedule ts [io_steps e MODIFY, io_steps e2 READ] w =
      ([Ret (DBMS_SUCCESS, e), Ret (DBMS_ERR_ANY, e2)], w') \<and> look (w_files w') q = Some (FileI e)"
proof -
  let ?d = "int (w_next w)"
  let ?f = "set_node q (FileI []) (w_files w)"
  define w1 where "w1 = w\<lparr>w_files := ?f, w_fds := (w_fds w)(?d \<mapsto> FileD q 0), w_next := Suc (w_next w)\<rparr>"
  define w2 where "w2 = w1\<lparr>w_fds := (w_fds w1)(1 + ?d \<mapsto> FileD q 0), w_next := Suc (Suc (w_next w))\<rparr>"
  define w4 where "w4 = w1\<lparr>w_next := Suc (Suc (w_next w)), w_errno := EBADF\<rparr>"
  have "w_fds w (int (Suc (w_next w))) = None" using assms(2) unfolding fresh_fds_def by (meson le_SucI order_refl)
  then have free: "w_fds w ?d = None" "w_fds w (1 + ?d) = None"
    using assms(2) by (simp_all add: fresh_fds_def)
  have "open_file (entry_path e) MODIFY w = (?d, w1)"
    using open_file_modify [OF assms(1,5)] by (simp add: alloc_fd_def w1_def)
  moreover have "open_file (entry_path e2) READ w1 = (1 + ?d, w2)"
  proof -
    have "resolve w1 (entry_path e) = Inr q"
      using assms(5,6) resolve_rewrite [of w q c "[]" "entry_path e"]
        resolve_cong [of w1 "w\<lparr>w_files := ?f\<rparr>"] by (simp add: w1_def)
    then show ?thesis
      using open_file_read [of w1 "entry_path e2" q "[]"] assms(1,6,9)
      by (simp add: alloc_fd_def w1_def w2_def look_set_node)
  qed
  moreover have "read_entry (1 + ?d) e2 w2 = ((DBMS_ERR_ANY, e2), snd (sys_close (1 + ?d) w2))"
    by (rule read_emptied) (use assms(1,6,8) in \<open>simp_all add: w1_def w2_def look_set_node\<close>)
  moreover have "snd (sys_close (1 + ?d) (snd (sys_close (1 + ?d) w2))) = w4"
    using free by (simp add: sys_close_def failing_def w1_def w2_def w4_def fun_upd_idem)
  moreover obtain w5 where w5: "write_entry ?d e w4 = ((DBMS_SUCCESS, e), w5)" "w_files w5 = set_node q (FileI e) (w_files w)"
  proof -
    have "e \<noteq> []" using assms(4) by (auto simp: entry_ok_def sizeof_entry_def)
    then show ?thesis
      using that write_bytes_file [of w4 ?d q e] assms(1,6) by (simp add: write_entry_def w4_def w1_def look_set_node)
  qed
  moreover define w6 where "w6 = snd (sys_close ?d w5)"
  ultimately have "run_schedule [0, 1, 1, 1, 0, 0] [io_steps e MODIFY, io_steps e2 READ] w =
      ([Ret (DBMS_SUCCESS, e), Ret (DBMS_ERR_ANY, e2)], w6)"
    using assms(3,7) by (simp add: io_steps_open)
  moreover have "look (w_files w6) q = Some (FileI e)"
    using w5(2) assms(6) by (simp add: w6_def sys_close_def look_set_node failing_def split: option.split)
  ultimately show ?thesis by blast
qed

lemma read_follows_modify:
  assumes "calm w" "fresh_fds w" "entry_type_ok e" "entry_ok e" "is_file w (entry_path e) q c" "q \<noteq> []"
    and "entry_type_ok e2" "entry_ok e2" "entry_path e2 = entry_path e"
  shows "fst (db_io_op_usr_ent e2 READ (snd (db_io_op_usr_ent e MODIFY w))) = (DBMS_SUCCESS, e)"
proof -
  let ?v = "w\<lparr>w_files := set_node q (FileI e) (w_files w), w_next := Suc (w_next w)\<rparr>"
  have "resolve ?v (entry_path e) = Inr q"
    using assms(5,6) resolve_rewrite [of w q c e "entry_path e"]
      resolve_cong [of ?v "w\<lparr>w_files := set_node q (FileI e) (w_files w)\<rparr>"] by simp
  then have "is_file ?v (entry_path e2) q e" using assms(6,9) by (simp add: look_set_node)
  moreover have "calm ?v" "fresh_fds ?v" using assms(1,2) by (simp_all add: fresh_fds_def)
  ultimately have "fst (db_io_op_usr_ent e2 READ ?v) = (DBMS_SUCCESS, e)"
    using db_read_entry [of ?v e2 q e] assms(4,7,8) by simp
  then show ?thesis using db_modify_entry [OF assms(1-3,5,6,4)] by simp
qed

text \<open>C32: a thread that reads a record while another modifies it may find the file emptied and not yet
  filled: its read fails, though no system call fails, the record exists before and after, and either
  order of the two calls reads a record.\<close>

theorem read_during_modify_fails:
  assumes "calm w" "fresh_fds w" "entry_type_ok e" "entry_ok e" "is_file w (entry_path e) q c" "q \<noteq> []" "entry_ok c"
    and "entry_type_ok e2" "entry_ok e2" "entry_path e2 = entry_path e"
  shows "\<exists>ts w'. run_schedule ts [io_steps e MODIFY, io_steps e2 READ] w =
      ([Ret (DBMS_SUCCESS, e), Ret (DBMS_ERR_ANY, e2)], w') \<and> look (w_files w') q = Some (FileI e) \<and>
    fst (db_io_op_usr_ent e2 READ w) = (DBMS_SUCCESS, c) \<and>
    fst (db_io_op_usr_ent e2 READ (snd (db_io_op_usr_ent e MODIFY w))) = (DBMS_SUCCESS, e)"
  using read_between_fails [OF assms(1-6,8-10)] read_follows_modify [OF assms(1-6,8-10)] db_read_entry [of w e2 q c] assms
  by auto

lemma read_during_modify_fails_witness:
  "\<exists>ts w'. run_schedule ts [io_steps (example_entry ''bob'' ann_account) MODIFY,
      io_steps (example_entry ''bob'' bob_account) READ] (example_world (\<lambda>_. [])) =
    ([Ret (DBMS_SUCCESS, example_entry ''bob'' ann_account), Ret (DBMS_ERR_ANY, example_entry ''bob'' bob_account)], w')"
proof -
  let ?e = "example_entry ''bob'' ann_account" and ?e2 = "example_entry ''bob'' bob_account" and ?w = "example_world (\<lambda>_. [])"
  note e = example_entry_account [OF example_users(2), of ann_account]
  note e2 = example_entry_account [OF example_users(2), of bob_account]
  have path: "entry_path ?e = userdata_path ''bob''" "entry_path ?e2 = userdata_path ''bob''"
    using account_path [OF user_entry_facts(3,2) [OF e]] account_path [OF user_entry_facts(3,2) [OF e2]] by simp_all
  have w: "calm ?w" "fresh_fds ?w" using example_rep [of "\<lambda>_. []"] by (simp_all add: db_rep_def world_ok_def)
  have bob: "example_db ''bob'' = Some bob_account" by (simp add: example_db_def)
  obtain c where "is_file ?w (userdata_path ''bob'') (w_cwd ?w @ [DB_DIR, ''bob-table'', USERDATA_ENTRY]) c"
      "user_entry ''bob'' c bob_account"
    using account_file [OF example_rep [of "\<lambda>_. []"] example_users(2) bob] by auto
  then obtain q where "is_file ?w (userdata_path ''bob'') q c" "q \<noteq> []" "entry_ok c"
    using user_entry_facts(1) by blast
  then show ?thesis
    using read_during_modify_fails [OF w, of ?e q c ?e2] path user_entry_facts(1,3) [OF e] user_entry_facts(1,3) [OF e2]
    by (auto simp: entry_type_ok_def)
qed

end
