(* ===== verification/DirectorySteps.thy ===== *)
theory DirectorySteps
  imports FileSteps Races
begin

section \<open>One name, two threads: the system calls of db\_creat\_usr\_tbl\<close>

text \<open>
  \<open>open_directory\<close>, \<open>db_creat_usr_tbl\<close> and \<open>srv_register\<close> as processes whose steps are the system calls on
  directories. Between the \<open>opendir\<close> that does not find the directory and the \<open>mkdir\<close> another thread can
  make it; \<open>open_directory\<close> then reports \<open>DBMS_ERR_ANY\<close>, which \<open>srv_register\<close> answers as success.
\<close>

definition open_directory_steps :: "string \<Rightarrow> char \<Rightarrow> (world, int \<times> dir option) proc" where
  "open_directory_steps path mode =
     (if mode \<noteq> CREATE \<and> mode \<noteq> READ \<and> mode \<noteq> OVERWRITE then do_call clear_errno (Ret (GEN_ERR_INV_ARGS, None))
      else call (\<lambda>w. case sys_opendir path (clear_errno w) of (directory, w1) \<Rightarrow> ((directory, w_errno w1), w1))
        (\<lambda>(directory, err). case directory of
           Some d \<Rightarrow> Ret (if mode = CREATE then DBMS_ERR_EXISTS else DBMS_SUCCESS, Some d)
         | None \<Rightarrow>
             (if err = ENOENT then
                (if mode = CREATE \<or> mode = OVERWRITE then
                   call (sys_mkdir path) (\<lambda>ret_val.
                     if ret_val < 0 then Ret (DBMS_ERR_ANY, None)
                     else call (sys_opendir path) (\<lambda>directory. case directory of
                         None \<Rightarrow> Ret (DBMS_ERR_ANY, None)
                       | Some d \<Rightarrow> Ret (DBMS_SUCCESS, Some d)))
                 else Ret (DBMS_ERR_NOT_EXISTS, None))
              else Ret (DBMS_ERR_ANY, None))))"

lemma run_open_directory [simp]: "run_proc (open_directory_steps path mode) w = open_directory path mode w"
  by (auto simp: open_directory_steps_def open_directory_def Let_def split: prod.split option.split)

definition creat_steps :: "entry_t \<Rightarrow> (world, int \<times> entry_t) proc" where
  "creat_steps entry =
     bind_proc (open_directory_steps (user_table_path (e_username entry)) CREATE) (\<lambda>(result, _).
       if result = DBMS_ERR_EXISTS then Ret (DBMS_ERR_EXISTS, entry)
       else if result < 0 then Ret (DBMS_ERR_ANY, entry)
       else bind_proc (io_steps entry CREATE) (\<lambda>(r2, entry2).
         if r2 < 0 then Ret (DBMS_ERR_ANY, entry2)
         else bind_proc (open_directory_steps (pend_msgs_path (e_username entry)) CREATE) (\<lambda>(r3, _).
           Ret (if r3 < 0 then DBMS_ERR_ANY else DBMS_SUCCESS, entry2))))"

lemma run_creat_steps [simp]: "run_proc (creat_steps entry) w = db_creat_usr_tbl entry w"
  by (auto simp: creat_steps_def db_creat_usr_tbl_def run_io_steps split: prod.split)

definition register_calls :: "garbage \<Rightarrow> fd \<Rightarrow> request_t \<Rightarrow> service" where
  "register_calls g sock req =
     bind_proc (creat_steps (set_e_last_msg_id 0 (set_e_type ENT_TYPE_UD
         (set_e_username (cstr (rq_username req)) (g_entry g ''register.entry'')))))
       (\<lambda>(result, _). reply_steps REGISTER sock req
         (if result = DBMS_ERR_EXISTS then SRV_ERR_REG_USR_ALREADY_REG else SRV_SUCCESS))"

lemma run_register_calls: "run_proc (register_calls g sock req) w = run_proc (register_steps g sock req) w"
  by (simp add: register_calls_def register_steps_def split: prod.split)

lemma register_runs:
  assumes "db_rep w db" "client w c" "garbage_ok g" "valid_user u" "cstr (rq_username rq) = u"
  shows "\<exists>w'. run_proc (register_calls g c rq) w = (Done, w') \<and> effects {c} w w' \<and> client w' c \<and>
    w_out w' c = w_out w c @ reply_byte (if db u = None then SRV_SUCCESS else SRV_ERR_REG_USR_ALREADY_REG) \<and>
    db_rep w' (if db u = None then db(u \<mapsto> new_account g) else db)"
proof -
  let ?F = "\<lambda>(i :: bytes, out, d). out = w_out w c @ reply_byte (if db u = None then SRV_SUCCESS else SRV_ERR_REG_USR_ALREADY_REG) \<and>
      d = (if db u = None then db(u \<mapsto> new_account g) else db)"
  have "does (w_accepts w) (w_peer_ip w) c {u} ?F (w_in w c) (w_out w c) db (register_steps g c rq)"
    by (rule does_register [OF _ assms(4,5,3)]) auto
  then obtain w' d where w': "run_proc (register_steps g c rq) w = (Done, w')" "db_rep w' (override_on db d {u})" "effects {c} w w'" "client w' c"
      "w_out w' c = w_out w c @ reply_byte (if db u = None then SRV_SUCCESS else SRV_ERR_REG_USR_ALREADY_REG)"
      "d = (if db u = None then db(u \<mapsto> new_account g) else db)"
    using does_run [OF assms(1,2)] by fastforce
  moreover have "override_on db d {u} = d" using w'(6) by (auto simp: override_on_def)
  ultimately show ?thesis using run_register_calls by auto
qed

text \<open>The first call of a \<open>REGISTER\<close> of a new name, and what follows a \<open>mkdir\<close> that fails.\<close>

lemma register_opens:
  assumes "sys_opendir (user_table_path (cstr (rq_username rq))) (clear_errno w) = (None, w1)" "w_errno w1 = ENOENT"
    and "garbage_ok g" "valid_user (cstr (rq_username rq))" "i < length ps" "ps ! i = register_calls g c rq"
  shows "\<exists>k. reaches ps w (ps[i := call (sys_mkdir (user_table_path (cstr (rq_username rq)))) k]) w1 \<and>
    k (-1) = reply_steps REGISTER c rq SRV_SUCCESS"
proof -
  have name: "e_username (set_e_last_msg_id 0 (set_e_type ENT_TYPE_UD
      (set_e_username (cstr (rq_username rq)) (g_entry g ''register.entry'')))) = cstr (rq_username rq)"
    using named_entry(7) [OF assms(3,4)] by simp
  have "\<exists>k. run_schedule [i] ps w = (ps[i := call (sys_mkdir (user_table_path (cstr (rq_username rq)))) k], w1) \<and>
      k (-1) = reply_steps REGISTER c rq SRV_SUCCESS"
    by (simp add: assms(1,2,5,6) name register_calls_def creat_steps_def open_directory_steps_def)
      (rule exI, rule conjI, rule refl, simp)
  then show ?thesis unfolding reaches_def by blast
qed

lemma reply_runs:
  assumes "db_rep w db" "client w c"
  shows "\<exists>w'. run_proc (reply_steps op c rq code) w = (Done, w') \<and> effects {c} w w' \<and>
    w_out w' c = w_out w c @ reply_byte code \<and> db_rep w' db"
proof -
  let ?F = "\<lambda>(i :: bytes, out, d). out = w_out w c @ reply_byte code \<and> d = db"
  have "does (w_accepts w) (w_peer_ip w) c {} ?F (w_in w c) (w_out w c) db (reply_steps op c rq code)"
    by (rule does_answer) simp
  then show ?thesis
    using does_run [OF assms] by (fastforce simp: override_on_def)
qed

text \<open>The second client looks for the directory, the first is served, the second tries to make it.\<close>

lemma registers_race:
  assumes "db_rep w db" "db u = None" "valid_user u" "client w c" "client w d" "c \<noteq> d" "garbage_ok g" "garbage_ok h"
    and "cstr (rq_username rq) = u" "cstr (rq_username rq2) = u"
  shows "\<exists>ts w'. run_schedule ts [register_calls g c rq, register_calls h d rq2] w = ([Ret Done, Ret Done], w') \<and>
    w_out w' c = w_out w c @ reply_byte SRV_SUCCESS \<and> w_out w' d = w_out w d @ reply_byte SRV_SUCCESS \<and>
    db_rep w' (db(u \<mapsto> new_account g))"
proof -
  let ?ps = "[register_calls g c rq, register_calls h d rq2]" and ?p = "user_table_path u"
  have wo: "world_ok w" "table w u [] = None" using db_rep_user [OF assms(1,3)] assms(2) by auto
  define w1 where "w1 = w\<lparr>w_errno := ENOENT\<rparr>"
  have "sys_opendir ?p (clear_errno w) = (None, w1)"
    using opendir_missing [of "clear_errno w" ?p] resolve_cong [of "clear_errno w" w] resolve_user_table [OF wo(1) assms(3)] wo
    by (simp add: w1_def clear_errno_def world_ok_def table_def)
  then obtain k where k: "reaches ?ps w (?ps[1 := call (sys_mkdir ?p) k]) w1" "k (-1) = reply_steps REGISTER d rq2 SRV_SUCCESS"
    using register_opens [of rq2 w w1 h 1 ?ps d] assms(3,8,10) by (auto simp: w1_def)
  let ?ps1 = "?ps[1 := call (sys_mkdir ?p) k]" and ?db = "db(u \<mapsto> new_account g)"
  have rep1: "db_rep w1 db" using assms(1) by (simp add: w1_def)
  have c1: "client w1 c" "client w1 d" "w_out w1 = w_out w" using assms(4,5) by (simp_all add: w1_def client_def)
  obtain w2 where w2: "run_proc (register_calls g c rq) w1 = (Done, w2)" "effects {c} w1 w2" "client w2 c"
      "w_out w2 c = w_out w c @ reply_byte SRV_SUCCESS" "db_rep w2 ?db"
    using register_runs [OF rep1 c1(1) assms(7,3,9)] assms(2) c1(3) by auto
  have d2: "client w2 d" "w_out w2 d = w_out w d" using client_effects [OF w2(2) c1(2)] assms(6) c1(3) by auto
  have r2: "reaches ?ps1 w1 (?ps1[0 := Ret Done]) w2" by (rule reaches_run) (use w2(1) in simp_all)
  have wo2: "world_ok w2" "table w2 u [] = Some DirI"
    using db_rep_user [OF w2(5) assms(3)] by (auto simp: account_files_def)
  define w3 where "w3 = w2\<lparr>w_errno := EEXIST\<rparr>"
  have "sys_mkdir ?p w2 = (-1, w3)"
    using resolve_user_table [OF wo2(1) assms(3)] wo2
    by (simp add: w3_def sys_mkdir_def may_fail_calm world_ok_def table_def failing_def)
  then have r3: "reaches (?ps1[0 := Ret Done]) w2 (?ps1[0 := Ret Done, 1 := k (-1)]) w3"
    unfolding reaches_def by (intro exI [of _ "[1]"]) simp
  have "db_rep w3 ?db" "client w3 d" "w_out w3 = w_out w2" using w2(5) d2(1) by (simp_all add: w3_def client_def)
  then obtain w4 where w4: "run_proc (k (-1)) w3 = (Done, w4)" "effects {d} w3 w4"
      "w_out w4 d = w_out w d @ reply_byte SRV_SUCCESS" "db_rep w4 ?db"
    using reply_runs [of w3 ?db d REGISTER rq2 SRV_SUCCESS] k(2) d2(2) by auto
  have "reaches (?ps1[0 := Ret Done, 1 := k (-1)]) w3 (?ps1[0 := Ret Done, 1 := k (-1), 1 := Ret Done]) w4"
    by (rule reaches_run) (use w4(1) in simp_all)
  then have "reaches ?ps w [Ret Done, Ret Done] w4"
    using reaches_trans [OF k(1) reaches_trans [OF r2 reaches_trans [OF r3]]] by simp
  moreover have "w_out w4 c = w_out w c @ reply_byte SRV_SUCCESS"
  proof -
    have "client w3 c" using w2(3) by (simp add: w3_def client_def)
    then show ?thesis using client_effects(3) [OF w4(2), of c] assms(6) w2(4) by (simp add: w3_def)
  qed
  ultimately show ?thesis using w4 unfolding reaches_def by auto
qed

text \<open>C31: two clients that register the same new name at the same time can both be answered success: the second
  \<open>mkdir\<close> finds the directory made by the first, which is not reported as an existing user. One account is
  created; in either order one after the other the second client is answered 1.\<close>

theorem registers_both_succeed:
  assumes "db_rep w db" "db u = None" "valid_user u" "client w c" "client w d" "c \<noteq> d" "garbage_ok g" "garbage_ok h"
    and "cstr (rq_username rq) = u" "cstr (rq_username rq2) = u"
  shows "\<exists>ts w' w2. run_schedule ts [register_calls g c rq, register_calls h d rq2] w = ([Ret Done, Ret Done], w') \<and>
    w_out w' c = w_out w c @ reply_byte SRV_SUCCESS \<and> w_out w' d = w_out w d @ reply_byte SRV_SUCCESS \<and>
    db_rep w' (db(u \<mapsto> new_account g)) \<and>
    run_proc (register_calls h d rq2) (snd (run_proc (register_calls g c rq) w)) = (Done, w2) \<and>
    w_out w2 d = w_out w d @ reply_byte SRV_ERR_REG_USR_ALREADY_REG"
proof -
  obtain v1 where v1: "run_proc (register_calls g c rq) w = (Done, v1)" "effects {c} w v1" "db_rep v1 (db(u \<mapsto> new_account g))"
    using register_runs [OF assms(1,4,7,3,9)] assms(2) by auto
  have d: "client v1 d" "w_out v1 d = w_out w d" using client_effects [OF v1(2) assms(5)] assms(6) by auto
  then show ?thesis
    using registers_race [OF assms] register_runs [OF v1(3) d(1) assms(8,3,10)] v1(1) by auto
qed

lemma registers_both_succeed_witness:
  "\<exists>ts w'. run_schedule ts [register_calls (example_garbage 0) 3 (example_request\<lparr>rq_username := ''eve'' @ [NUL]\<rparr>),
      register_calls (example_garbage 0) 4 (example_request\<lparr>rq_username := ''eve'' @ [NUL]\<rparr>)] (example_world (\<lambda>_. [])) =
    ([Ret Done, Ret Done], w') \<and> db_rep w' (example_db(''eve'' \<mapsto> new_account (example_garbage 0)))"
proof -
  let ?rq = "example_request\<lparr>rq_username := ''eve'' @ [NUL]\<rparr>"
  have "cstr (rq_username ?rq) = ''eve''" by (simp add: cstr_def)
  then show ?thesis
    using registers_both_succeed [OF example_rep, of "''eve''" "\<lambda>_. []" 3 4 "example_garbage 0" "example_garbage 0" ?rq ?rq]
    by (auto simp: example_db_def)
qed

end
