(* ===== verification/Spec2Isabelle.thy ===== *)
theory Spec2Isabelle
  imports WireProps ServiceProps ServerProps ConcurrencyProps SystemProps DirectorySteps
begin

section \<open>A chat server: the program, its model, its properties\<close>

text \<open>
  The program is a chat server in C. A main thread (\<open>app/server.c\<close>) accepts connections into a ring
  of ten descriptors, five service threads take them out, read an operation name and call one of the
  services of \<open>src/services.c\<close>: \<open>REGISTER\<close>, \<open>UNREGISTER\<close>, \<open>CONNECT\<close>, \<open>DISCONNECT\<close>, \<open>SEND\<close>. The
  services talk to clients through \<open>src/netUtil.c\<close> and \<open>src/util.c\<close> and keep the users in a
  database of directories and files, \<open>src/dbms/dbms.c\<close> over \<open>src/dbms/dbmsUtil.c\<close>: a directory per
  user with a record (\<open>userdata.entry\<close>) and a directory of pending messages, one file each.

  Theories and what they model:

  \<^item> \<open>Prelude\<close>: bytes, C strings in arrays, little-endian numbers, regions of memory.
  \<^item> \<open>CTypes\<close>: \<open>util.h\<close>, its error-checking macros among it. \<open>request_t\<close> is a record of its arrays; \<open>entry_t\<close>, which is written to disk
    as it is, is the list of its 1288 bytes with a reader and a writer per member. The locale
    \<open>member\<close> states what a member promises and is interpreted on all nine.
  \<^item> \<open>Posix\<close>: the C and POSIX functions the source calls, on a record \<open>world\<close> (file tree, descriptors,
    bytes to read and bytes written per socket, \<open>errno\<close>, log). The list \<open>w_fates\<close> says how the next calls
    behave: normally, with an error, or cut short; \<open>calm\<close> means normally from now on. \<open>w_order\<close> is the
    order of \<open>readdir\<close>, \<open>w_strtof\<close> stands for \<open>strtof\<close>.
  \<^item> \<open>Util\<close>, \<open>NetUtil\<close>: \<open>util.c\<close>, \<open>netUtil.c\<close>. The loops end: each read or write uses up input,
    buffer or a fate.
  \<^item> \<open>FileTree\<close>, \<open>DbmsUtil\<close>, \<open>RemoveTree\<close>: well-formed trees, \<open>dbmsUtil.c\<close>, and \<open>remove_recursive\<close>.
    Its recursion has fuel two above the depth of the tree, which is proved enough for every path and
    every sequence of faults.
  \<^item> \<open>Dbms\<close>, \<open>UserStore\<close>: \<open>dbms.c\<close>, and its abstraction: \<open>db_rep w db\<close> says that the files of \<open>w\<close>
    are the map \<open>db\<close> from user names to accounts. Each operation refines one on the map; the locale
    \<open>record_store\<close> is the contract the services rely on.
  \<^item> \<open>Services\<close>: \<open>services.c\<close>. Variables the C code reads before writing them are an argument
    \<open>garbage\<close>. The loop over pending messages is a \<open>partial_function\<close>; that it returns is proved.
  \<^item> \<open>Delivery\<close>, \<open>AccountServices\<close>, \<open>SendService\<close>: each service against the map of accounts: the
    reply (\<open>served\<close>), the messages sent to listening clients (\<open>delivered\<close>), the new database.
  \<^item> \<open>ConnQueue\<close>, \<open>Server\<close>: the ring, start-up, the dispatch of a request, and the step relation
    \<open>server_step\<close> of the main thread and the five service threads. The locale \<open>bounded_fifo\<close> is the
    contract of the ring.
  \<^item> \<open>Refinement\<close>, \<open>Session\<close>: the specification \<open>chat_spec\<close> of the protocol on the map of accounts and
    the simulation of request sequences (locale \<open>simulation\<close>).
  \<^item> \<open>Processes\<close>, \<open>Steps\<close>: programs cut at their calls (\<open>proc\<close>), schedules, the rely-guarantee rule
    (locale \<open>interference\<close>); the services of \<open>services.c\<close> and the body of \<open>service_thread\<close> as such
    processes, whose steps are the transfers, database functions, messages and log lines the C code
    calls. \<open>service_steps n\<close> has the first \<open>n\<close> rounds of the loop over pending messages; a loop that goes
    on after them is \<open>Unfinished\<close>: the service has not ended and its thread takes no other connection. For a
    service that returns, some \<open>n\<close> and all above do what the code does and end in \<open>Done\<close> (\<open>run_service\<close>). With
    disjoint users the properties assume an \<open>n\<close> above the number of pending messages of each user
    (\<open>pend_bound\<close>) and prove that no service is left unfinished. A finite run of the server is a run for
    every large enough \<open>n\<close>.
  \<^item> \<open>Interleaving\<close>, \<open>Noninterference\<close>, \<open>Races\<close>: what each service keeps and guarantees at each call:
    a database whatever the others do (\<open>keeps\<close>), the outcome of the specification when the others work
    on other users (\<open>does\<close>); and two services of the same user between whose calls others fall.
  \<^item> \<open>TreeInvariant\<close>: every call of the program keeps the file tree well formed under all faults; so do the
    processes of the services (\<open>steady\<close>), whatever runs between their calls, and the functions.
  \<^item> \<open>System\<close>, \<open>Serializable\<close>, \<open>Progress\<close>, \<open>Fairness\<close>: the whole server: \<open>main\<close> accepts clients that send any bytes, the
    threads take them from the ring and run the processes on them call by call (\<open>system_step\<close>). The
    locale \<open>serving\<close> is what assertions on the world and on each connection must promise to hold in every
    run; it is interpreted three times: on a well-formed tree, for any bytes and any faults (\<open>any\<close>), on a
    database, for clients that send well-formed commands (\<open>polite\<close>), and on the outcomes of the
    specification, for commands on different users (\<open>apart\<close>). The last one satisfies the extended contract
    \<open>serving_ends\<close>: no service is left unfinished. From every state the backlog can be served (\<open>Progress\<close>),
    and it is served in every infinite run in which whoever is awake moves some time (\<open>fair_run\<close>). A client has sent all it will send, and hung up, when it is
    accepted: a client that neither sends nor hangs up would hold its thread in \<open>read\<close> for ever, as the code
    has no timeout, and five such clients would stop the service.
  \<^item> \<open>FileSteps\<close>, \<open>DirectorySteps\<close>: \<open>db_io_op_usr_ent\<close>, \<open>open_directory\<close>, \<open>db_creat_usr_tbl\<close> and \<open>srv_register\<close>
    cut at their system calls: a read between the two writes of a \<open>MODIFY\<close>, a \<open>mkdir\<close> after that of
    another thread.
  \<^item> \<open>Examples\<close>: concrete worlds. \<open>WireProps\<close>, \<open>StoreProps\<close>, \<open>ServiceProps\<close>, \<open>ServerProps\<close>,
    \<open>ConcurrencyProps\<close>, \<open>SystemProps\<close>, \<open>FileSteps\<close>, \<open>DirectorySteps\<close> and this theory: the properties,
    each with its number and, where it has hypotheses, its application at a concrete input.

  What the properties show. The services implement \<open>chat_spec\<close> and a message sent to an absent user
  reaches it; pending messages are all delivered and the loop ends; the database operations refine map
  operations; removal takes exactly a subtree; lines, strings and numbers survive short and interrupted
  transfers and no line is written past its space; every interleaving of the threads hands each
  connection to one thread in order, loses none and serves none twice, and, for clients of different
  users, answers each as \<open>chat_spec\<close> says, and in every fair run serves them all. Properties of the last group state where the code falls short: a
  \<open>SEND\<close> that undoes a \<open>CONNECT\<close>, two messages with one number, a record read while it is rewritten, a name registered twice,
  a lost wake-up, answers that depend on uninitialised bytes, a repeated request, lost records, names
  that leave the database, an array one byte short.

  The refinement properties take worlds without faults (\<open>calm\<close>, part of \<open>db_rep\<close>), names without
  slash or NUL of at most 249 bytes (\<open>valid_user\<close>) and strings of at most 255 bytes without newline
  (\<open>wire_ok\<close>); properties on faults, overlong names and closed connections say what happens outside.

  Not modelled: file permissions and symbolic links; directory streams as descriptors; the interleaving
  of the system calls inside one step of a process (a transfer, a database function, a message to a
  client) with those of another thread, but for \<open>FileSteps\<close> and \<open>DirectorySteps\<close>: the code does not exclude it, as \<open>mutex_db\<close> is
  never locked; the results of \<open>pthread\<close> calls, which the code ignores; \<open>SIGPIPE\<close>, which ends the
  process when a client has gone (here such a write is an error that \<open>write\<close> reports); the effect of a write past an
  array; the Python client, its web service and the tests.
\<close>

section \<open>Properties of the whole server\<close>

text \<open>C1: requests served one after the other, each on its own connection and with any contents in the
  memory the handlers do not initialise, answer their clients and change the database exactly as
  the specification \<open>chat_spec\<close> of the protocol does; every handler returns.\<close>

theorem session_refines_chat_spec:
  assumes "db_rep w db" "\<forall>j \<in> set jobs. job_ready j w" "sorted_wrt jobs_apart jobs"
  shows "\<exists>w'. run_all serve_job jobs w =
      Some (fst (spec_all (spec_job (w_accepts w) (w_peer_ip w)) jobs db), w') \<and>
    db_rep w' (snd (spec_all (spec_job (w_accepts w) (w_peer_ip w)) jobs db))"
proof -
  have "chat_rep (w_accepts w) (w_peer_ip w) w db"
    using assms(1) by (simp add: chat_rep_def)
  then show ?thesis
    using chat.run_refines [OF _ assms(2,3)] by (fastforce simp: chat_rep_def)
qed

definition example_jobs :: "job list" where
  "example_jobs =
     [\<lparr>j_sock = 3, j_command = Register ''eve'', j_garbage = example_garbage 0, j_request = example_request\<rparr>,
      \<lparr>j_sock = 4, j_command = Send ''ann'' ''bob'' ''hi'', j_garbage = example_garbage 0, j_request = example_request\<rparr>,
      \<lparr>j_sock = 5, j_command = Connect ''bob'' 7001, j_garbage = example_garbage 0, j_request = example_request\<rparr>]"

lemma session_refines_chat_spec_witness:
  "\<exists>w' db. run_all serve_job example_jobs (example_world (\<lambda>d. command_bytes (j_command (example_jobs ! nat (d - 3))))) =
      Some ([[NUL], NUL # show_u 10 @ [NUL], [NUL]], w') \<and>
    db_rep w' db \<and> (\<exists>a. db ''bob'' = Some a \<and> a_status a = STATUS_CN \<and> a_port a = 7001 \<and> a_pend a = Map.empty)"
proof -
  let ?w = "example_world (\<lambda>d. command_bytes (j_command (example_jobs ! nat (d - 3))))"
  have "\<forall>j \<in> set example_jobs. job_ready j ?w" "sorted_wrt jobs_apart example_jobs"
    by (simp_all add: example_jobs_def job_ready_def name_ok_def jobs_apart_def)
  moreover have "next_msg_id (a_last bob_account) = 10"
    by (simp add: next_msg_id_def bob_account_def MSG_ID_MAX_VALUE_def)
  ultimately show ?thesis
    using session_refines_chat_spec [OF example_rep, of example_jobs
        "\<lambda>d. command_bytes (j_command (example_jobs ! nat (d - 3)))"]
    by (fastforce simp: example_jobs_def spec_job_def example_db_def reply_bytes send_outcome_def passed_account_def
        stores_def bob_account_def connect_outcome_def pend_outcome_def)
qed

text \<open>C3: a message sent to a user who is disconnected, under a number that is free, is kept, and is delivered,
  with the messages that were waiting before it, when the user connects with a client that listens, if the
  byte \<open>reply.server_error_code\<close>, which \<open>srv_connect\<close> leaves uninitialised, is not 3: the sender is answered with
  the number under which the recipient gets it.\<close>

theorem message_reaches_user_later:
  assumes "db_rep w db" "client w c" "client w d" "c \<noteq> d" "request_ok rq1" "request_ok rq2"
    and "garbage_ok g1" "garbage_ok g2" "valid_user u" "db u = Some a" "valid_user s" "db s = Some b"
    and "wire_ok s" "wire_ok u" "wire_ok m"
    and "w_in w c = s @ NUL # u @ NUL # m @ [NUL]" "w_in w d = u @ NUL # show_u p @ [NUL]"
    and "a_status a = STATUS_DCN" "n = next_msg_id (a_last a)" "a_pend a n = None"
    and "g_code g2 ''connect.reply'' \<noteq> SRV_ERR_CN_ANY" "w_accepts w (w_peer_ip w d) (ucast p)"
  shows "\<exists>r1 w1 r2 w2. srv_send g1 c rq1 w = (r1, w1) \<and> srv_connect g2 d rq2 w1 = Some (r2, w2) \<and>
    w_out w1 c = w_out w c @ reply_byte SRV_SUCCESS @ show_u n @ [NUL] \<and>
    (\<forall>k x. ((a_pend a)(n \<mapsto> (s, m))) k = Some x \<longrightarrow>
       delivered w w2 (w_peer_ip w d) (ucast p) (message_bytes (fst x) k (snd x))) \<and>
    db_rep w2 (db(u \<mapsto> a\<lparr>a_status := STATUS_CN, a_ip := w_peer_ip w d, a_port := ucast p, a_last := n,
      a_pend := Map.empty\<rparr>))"
proof -
  let ?a1 = "a\<lparr>a_last := n, a_pend := (a_pend a)(n \<mapsto> (s, m))\<rparr>"
  obtain r1 w1 where w1: "srv_send g1 c rq1 w = (r1, w1)"
      "served c w w1 [] (reply_byte SRV_SUCCESS @ show_u n @ [NUL])" "db_rep w1 (db(u \<mapsto> ?a1))"
    using send_service [OF assms(1,2,5,7,9-12,13-15), of "[]"] assms(16,18-20)
    by (auto simp: send_outcome_def passed_account_def stores_def Let_def)
  have d: "client w1 d" "w_in w1 d = u @ NUL # show_u p @ NUL # []"
    using served_other [OF w1(2) assms(3,4)] assms(17) by simp_all
  have net: "w_accepts w1 = w_accepts w" "w_peer_ip w1 = w_peer_ip w"
    using served_fields [OF w1(2)] by simp_all
  obtain r2 w2 where w2: "srv_connect g2 d rq2 w1 = Some (r2, w2)"
      "db_rep w2 ((db(u \<mapsto> ?a1))(u \<mapsto> ?a1\<lparr>a_status := STATUS_CN, a_ip := w_peer_ip w d, a_port := ucast p,
        a_pend := Map.empty\<rparr>))"
      "\<And>k x. a_pend ?a1 k = Some x \<Longrightarrow>
        delivered w1 w2 (w_peer_ip w d) (ucast p) (message_bytes (fst x) k (snd x))"
    using connect_service [OF w1(3) d(1) assms(6,8,9,14) d(2), of ?a1] assms(18,21,22) net by auto
  have eff: "effects {c} w w1" using w1(2) by (simp add: served_def)
  then have deliv: "delivered w w2 (w_peer_ip w d) (ucast p) (message_bytes (fst x) k (snd x))"
    if "a_pend ?a1 k = Some x" for k x
    using delivered_earlier_on [OF eff w2(3) [OF that]] assms(2) by (auto simp: client_def)
  have "?a1\<lparr>a_status := STATUS_CN, a_ip := w_peer_ip w d, a_port := ucast p, a_pend := Map.empty\<rparr> =
      a\<lparr>a_status := STATUS_CN, a_ip := w_peer_ip w d, a_port := ucast p, a_last := n, a_pend := Map.empty\<rparr>"
    by (cases a) simp
  then have "db_rep w2 (db(u \<mapsto> a\<lparr>a_status := STATUS_CN, a_ip := w_peer_ip w d, a_port := ucast p, a_last := n,
      a_pend := Map.empty\<rparr>))"
    using w2(2) by (simp only: fun_upd_upd)
  moreover have "w_out w1 c = w_out w c @ reply_byte SRV_SUCCESS @ show_u n @ [NUL]"
    using w1(2) by (simp add: served_def)
  moreover have "\<forall>k x. ((a_pend a)(n \<mapsto> (s, m))) k = Some x \<longrightarrow>
      delivered w w2 (w_peer_ip w d) (ucast p) (message_bytes (fst x) k (snd x))"
    using deliv by simp
  ultimately show ?thesis
    using w1(1) w2(1) by blast
qed

lemma message_reaches_user_later_witness:
  "\<exists>w r1 w1 r2 w2. srv_send (example_garbage 0) 3 example_request w = (r1, w1) \<and>
    srv_connect (example_garbage 0) 4 example_request w1 = Some (r2, w2) \<and> w_out w1 3 = NUL # show_u 10 @ [NUL] \<and>
    delivered w w2 16777343 7001 (message_bytes ''ann'' 9 ''hi'') \<and>
    delivered w w2 16777343 7001 (message_bytes ''ann'' 10 ''hi'')"
proof -
  let ?inp = "\<lambda>d. if d = (3::int) then ''ann'' @ NUL # ''bob'' @ NUL # ''hi'' @ [NUL]
    else ''bob'' @ NUL # show_u 7001 @ [NUL]"
  let ?a = "bob_account\<lparr>a_pend := [9 \<mapsto> (''ann'', ''hi'')]\<rparr>"
  have n: "10 = next_msg_id (a_last ?a)"
    by (simp add: next_msg_id_def bob_account_def MSG_ID_MAX_VALUE_def)
  have users: "waiting_db ''bob'' = Some ?a" "waiting_db ''ann'' = Some ann_account"
    by (simp_all add: waiting_db_def example_db_def)
  have "w_in (waiting_world ?inp) 3 = ''ann'' @ NUL # ''bob'' @ NUL # ''hi'' @ [NUL]"
      "w_in (waiting_world ?inp) 4 = ''bob'' @ NUL # show_u 7001 @ [NUL]"
      "a_status ?a = STATUS_DCN" "a_pend ?a 10 = None" "(3::int) \<noteq> 4"
    by (simp_all add: bob_account_def)
  then show ?thesis
    using message_reaches_user_later [OF waiting_rep [of ?inp] example_world_fields(6,7) _ example_request_ok(1)
        example_request_ok(1) example_garbage_ok [of 0] example_garbage_ok [of 0] example_users(2) users(1)
        example_users(1) users(2) example_wires(1,2,4), of 7001 10] n
    by (fastforce simp: reply_bytes)
qed

end
